(* ===== verification/Prelude.thy ===== *)
theory Prelude
  imports Main "HOL-Library.Word" "HOL-Library.Multiset"
begin

text \<open>
  The vocabulary every component of the chatroom development shares: the machine types of the C++
  sources, the faults a C++ operation can end in, sequencing of operations that may fault, raw
  buffers written with \<open>memcpy\<close>, and exchanging two slots of a vector.
\<close>

unbundle bit_operations_syntax

section \<open>Machine types\<close>

type_synonym byte = "8 word"
type_synonym u16 = "16 word"
type_synonym u32 = "32 word"
type_synonym u64 = "64 word"

lemma unat_u32_less: "unat (w :: u32) < 4294967296"
  using unsigned_less [of w, where 'a = nat] by simp

lemma unat_inc: "n \<noteq> 0xFFFFFFFF \<Longrightarrow> unat (n + 1) = Suc (unat n)" for n :: u32
proof -
  assume n: "n \<noteq> 0xFFFFFFFF"
  have "unat n \<noteq> unat (0xFFFFFFFF :: u32)" using n by (simp only: word_unat_eq_iff) simp
  then have "unat n + 1 < 2 ^ 32" using unat_u32_less [of n] by simp
  then show ?thesis by (simp add: unat_word_ariths)
qed

lemma word_numeral_max: "(- 1 :: u32) = 0xFFFFFFFF"
  by simp

lemma unat_inc_le: "n \<le> m \<Longrightarrow> m \<noteq> 0xFFFFFFFF \<Longrightarrow> unat (n + 1) = Suc (unat n)" for n m :: u32
  by (rule unat_inc) (metis word_order.extremum_uniqueI word_numeral_max)

lemma inc_gt: "n \<le> m \<Longrightarrow> m \<noteq> 0xFFFFFFFF \<Longrightarrow> m < n + 1 \<Longrightarrow> n = m" for n m :: u32
  using unat_inc_le [of n m] by (simp add: word_le_nat_alt word_less_nat_alt word_unat_eq_iff)

section \<open>Faults\<close>

text \<open>
  How a C++ operation can end without a value: an exception of the standard library, an operation
  with undefined behaviour (an access outside a buffer, a signed overflow), a thread that locks
  a mutex it holds already and never continues, or \<open>std::terminate\<close>. Only the first kind can be caught.
\<close>

datatype fault =
    Runtime_Error string
  | Invalid_Argument string
  | Out_Of_Range
  | Undefined_Behaviour
  | Self_Deadlock
  | Std_Terminate

fun is_exception :: "fault \<Rightarrow> bool" where
  "is_exception (Runtime_Error what) = True"
| "is_exception (Invalid_Argument what) = True"
| "is_exception Out_Of_Range = True"
| "is_exception _ = False"

type_synonym 'a result = "fault + 'a"

definition bindR :: "'a result \<Rightarrow> ('a \<Rightarrow> 'b result) \<Rightarrow> 'b result" where
  "bindR r f = (case r of Inl e \<Rightarrow> Inl e | Inr x \<Rightarrow> f x)"

definition guardR :: "bool \<Rightarrow> fault \<Rightarrow> 'a result \<Rightarrow> 'a result" where
  "guardR b e r = (if b then r else Inl e)"

named_theorems result_simps \<open>evaluation of results\<close>

lemma bindR_Inl [simp]: "bindR (Inl e) f = Inl e"
  by (simp add: bindR_def)

lemma bindR_Inr [simp]: "bindR (Inr x) f = f x"
  by (simp add: bindR_def)

lemma bindR_eq_Inr_iff: "bindR r f = Inr y \<longleftrightarrow> (\<exists>x. r = Inr x \<and> f x = Inr y)"
  by (cases r) auto

lemma bindR_eq_InrE [elim!]:
  assumes "bindR r f = Inr y"
  obtains x where "r = Inr x" and "f x = Inr y"
  using assms by (auto simp: bindR_eq_Inr_iff)

lemma bindR_cong [fundef_cong]:
  "r = r' \<Longrightarrow> (\<And>x. r' = Inr x \<Longrightarrow> f x = g x) \<Longrightarrow> bindR r f = bindR r' g"
  by (cases r') auto

lemma bindR_assoc: "bindR (bindR r f) g = bindR r (\<lambda>x. bindR (f x) g)"
  by (cases r) auto

lemma guardR_True [simp]: "guardR True e r = r"
  by (simp add: guardR_def)

lemma guardR_False [simp]: "guardR False e r = Inl e"
  by (simp add: guardR_def)

lemma guardR_eq_Inr_iff: "guardR b e r = Inr y \<longleftrightarrow> b \<and> r = Inr y"
  by (auto simp: guardR_def)

lemmas [result_simps] = bindR_eq_Inr_iff guardR_eq_Inr_iff

section \<open>Buffers\<close>

text \<open>
  A block of memory is a list of bytes. \<open>new char[n]\<close> leaves its contents indeterminate: the
  argument \<open>fill\<close> gives them, and a fact about the code holds for every \<open>fill\<close>. A \<open>memcpy\<close> that
  leaves the block is undefined behaviour.
\<close>

definition new_chars :: "(nat \<Rightarrow> byte) \<Rightarrow> nat \<Rightarrow> byte list" where
  "new_chars fill n = map fill [0..<n]"

definition overwrite :: "byte list \<Rightarrow> nat \<Rightarrow> byte list \<Rightarrow> byte list" where
  "overwrite buf off bs = take off buf @ bs @ drop (off + length bs) buf"

definition memcpy_to :: "byte list \<Rightarrow> nat \<Rightarrow> byte list \<Rightarrow> byte list result" where
  "memcpy_to buf off bs = guardR (off + length bs \<le> length buf) Undefined_Behaviour (Inr (overwrite buf off bs))"

definition memcpy_from :: "byte list \<Rightarrow> nat \<Rightarrow> nat \<Rightarrow> byte list result" where
  "memcpy_from buf off n = guardR (off + n \<le> length buf) Undefined_Behaviour (Inr (take n (drop off buf)))"

lemma length_new_chars [simp]: "length (new_chars fill n) = n"
  by (simp add: new_chars_def)

lemma new_chars_0 [simp]: "new_chars fill 0 = []"
  by (simp add: new_chars_def)

lemma length_overwrite [simp]:
  "off + length bs \<le> length buf \<Longrightarrow> length (overwrite buf off bs) = length buf"
  by (simp add: overwrite_def)

lemma take_drop_overwrite_same [simp]:
  "off + length bs \<le> length buf \<Longrightarrow> n = length bs \<Longrightarrow> take n (drop off (overwrite buf off bs)) = bs"
  by (simp add: overwrite_def)

lemma take_drop_overwrite_before:
  "a + n \<le> off \<Longrightarrow> off + length bs \<le> length buf \<Longrightarrow>
    take n (drop a (overwrite buf off bs)) = take n (drop a buf)"
  by (auto simp: overwrite_def drop_take min_def)

lemma take_drop_overwrite_after:
  "off + length bs \<le> a \<Longrightarrow> off + length bs \<le> length buf \<Longrightarrow>
    take n (drop a (overwrite buf off bs)) = take n (drop a buf)"
  by (simp add: overwrite_def)

lemma memcpy_to_Inr:
  "off + length bs \<le> length buf \<Longrightarrow> memcpy_to buf off bs = Inr (overwrite buf off bs)"
  by (simp add: memcpy_to_def)

lemma memcpy_from_Inr:
  "off + n \<le> length buf \<Longrightarrow> memcpy_from buf off n = Inr (take n (drop off buf))"
  by (simp add: memcpy_from_def)

lemma memcpy_from_to:
  "off + length bs \<le> length buf \<Longrightarrow> memcpy_from (overwrite buf off bs) off (length bs) = Inr bs"
  by (simp add: memcpy_from_def)

section \<open>Exchanging two slots of a vector\<close>

definition list_swap :: "'a list \<Rightarrow> nat \<Rightarrow> nat \<Rightarrow> 'a list" where
  "list_swap xs i j = xs[i := xs ! j, j := xs ! i]"

lemma length_list_swap [simp]: "length (list_swap xs i j) = length xs"
  by (simp add: list_swap_def)

lemma nth_list_swap:
  "i < length xs \<Longrightarrow> j < length xs \<Longrightarrow> k < length xs \<Longrightarrow>
    list_swap xs i j ! k = (if k = i then xs ! j else if k = j then xs ! i else xs ! k)"
  by (auto simp: list_swap_def nth_list_update)

lemma mset_list_swap [simp]:
  "i < length xs \<Longrightarrow> j < length xs \<Longrightarrow> mset (list_swap xs i j) = mset xs"
  unfolding list_swap_def by (rule mset_swap)

lemma set_list_swap [simp]:
  "i < length xs \<Longrightarrow> j < length xs \<Longrightarrow> set (list_swap xs i j) = set xs"
  using mset_list_swap [of i xs j] by (metis set_mset_mset)

lemma distinct_list_swap [simp]:
  "i < length xs \<Longrightarrow> j < length xs \<Longrightarrow> distinct (list_swap xs i j) = distinct xs"
  unfolding list_swap_def by (rule distinct_swap)

lemma inj_on_list_swap:
  "i < length xs \<Longrightarrow> j < length xs \<Longrightarrow> distinct (map f (list_swap xs i j)) = distinct (map f xs)"
  using mset_list_swap [of i xs j] by (metis mset_eq_imp_distinct_iff mset_map)

end
