(* ===== verification/Simulation.thy ===== *)
theory Simulation
  imports Prelude
begin

text \<open>
  Refinement between a component of the code and its specification, used by every component with a
  contract. The component is a step function on concrete states; the specification is a relation on
  abstract states that says which outputs and successors an operation may have, with a precondition
  per operation. The locale \<open>refinement\<close> asks for the one step law; its lemmas lift it to sequences of
  operations: every sequence that is admissible for the specification runs without a fault, and
  what it outputs is a run of the specification.
\<close>

primrec run_steps :: "('op \<Rightarrow> 's \<Rightarrow> ('out \<times> 's) result) \<Rightarrow> 'op list \<Rightarrow> 's \<Rightarrow> ('out list \<times> 's) result" where
  "run_steps step [] s = Inr ([], s)"
| "run_steps step (op # ops) s =
    bindR (step op s) (\<lambda>(out, s'). bindR (run_steps step ops s') (\<lambda>(outs, s''). Inr (out # outs, s'')))"

primrec spec_run :: "('op \<Rightarrow> 'a \<Rightarrow> 'out \<Rightarrow> 'a \<Rightarrow> bool) \<Rightarrow> 'op list \<Rightarrow> 'a \<Rightarrow> 'out list \<Rightarrow> 'a \<Rightarrow> bool" where
  "spec_run spec [] a outs a' = (outs = [] \<and> a' = a)"
| "spec_run spec (op # ops) a outs a' =
    (\<exists>out b outs'. outs = out # outs' \<and> spec op a out b \<and> spec_run spec ops b outs' a')"

primrec admissible :: "('op \<Rightarrow> 'a \<Rightarrow> bool) \<Rightarrow> ('op \<Rightarrow> 'a \<Rightarrow> 'out \<Rightarrow> 'a \<Rightarrow> bool) \<Rightarrow> 'op list \<Rightarrow> 'a \<Rightarrow> bool" where
  "admissible pre spec [] a = True"
| "admissible pre spec (op # ops) a =
    (pre op a \<and> (\<forall>out a'. spec op a out a' \<longrightarrow> admissible pre spec ops a'))"

lemma run_steps_append:
  "run_steps step (ops @ ops') s =
    bindR (run_steps step ops s) (\<lambda>(outs, s'). bindR (run_steps step ops' s') (\<lambda>(outs', s''). Inr (outs @ outs', s'')))"
proof (induction ops arbitrary: s)
  case Nil
  then show ?case by (auto simp: bindR_def split: sum.splits)
next
  case (Cons op ops)
  then show ?case by (auto simp: bindR_def split: sum.splits)
qed

lemma run_steps_snoc:
  assumes "run_steps step ops s = Inr (outs, s')"
  shows "run_steps step (ops @ [op]) s = bindR (step op s') (\<lambda>(out, s''). Inr (outs @ [out], s''))"
  using assms by (simp add: run_steps_append bindR_def split: sum.splits prod.splits)

locale refinement =
  fixes R :: "'s \<Rightarrow> 'a \<Rightarrow> bool"
    and step :: "'op \<Rightarrow> 's \<Rightarrow> ('out \<times> 's) result"
    and pre :: "'op \<Rightarrow> 'a \<Rightarrow> bool"
    and spec :: "'op \<Rightarrow> 'a \<Rightarrow> 'out \<Rightarrow> 'a \<Rightarrow> bool"
  assumes step_ok: "R s a \<Longrightarrow> pre op a \<Longrightarrow> \<exists>out s' a'. step op s = Inr (out, s') \<and> spec op a out a' \<and> R s' a'"
begin

lemma run_refines:
  assumes "R s a" and "admissible pre spec ops a"
  shows "\<exists>outs s' a'. run_steps step ops s = Inr (outs, s') \<and> spec_run spec ops a outs a' \<and> R s' a'"
  using assms
proof (induction ops arbitrary: s a)
  case Nil
  then show ?case by auto
next
  case (Cons op ops)
  then have "pre op a" by simp
  from step_ok [OF Cons.prems(1) this]
  obtain out s' a' where s': "step op s = Inr (out, s')" "spec op a out a'" "R s' a'" by blast
  moreover have "admissible pre spec ops a'" using Cons.prems(2) s'(2) by auto
  from Cons.IH [OF s'(3) this]
  obtain outs s'' a'' where "run_steps step ops s' = Inr (outs, s'')" "spec_run spec ops a' outs a''" "R s'' a''"
    by blast
  ultimately have "run_steps step (op # ops) s = Inr (out # outs, s'')"
    "spec_run spec (op # ops) a (out # outs) a''" "R s'' a''" by auto
  then show ?case by blast
qed

lemma run_safe:
  assumes "R s a" and "admissible pre spec ops a"
  shows "run_steps step ops s \<noteq> Inl f"
  using run_refines [OF assms] by auto

end

text \<open>A predicate that every step keeps holds along every run that meets no fault.\<close>

locale run_invariant =
  fixes step :: "'op \<Rightarrow> 's \<Rightarrow> ('out \<times> 's) result"
    and I :: "'s \<Rightarrow> bool"
  assumes step_keeps: "\<And>s op out s'. I s \<Longrightarrow> step op s = Inr (out, s') \<Longrightarrow> I s'"
begin

lemma run_keeps: "I s \<Longrightarrow> run_steps step ops s = Inr (outs, s') \<Longrightarrow> I s'"
proof (induction ops arbitrary: s outs)
  case (Cons op ops)
  then show ?case using step_keeps by auto blast
qed simp

end

end
