(* ===== verification/Cpp_Text.thy ===== *)
theory Cpp_Text
  imports Prelude
begin

text \<open>
  The parts of the C++ standard library on text that the code calls: \<open>std::to_string\<close> on unsigned
  integers, \<open>std::stoull\<close>, \<open>std::stoul\<close> and \<open>std::stoi\<close> in base ten with their exceptions (64 bit
  \<open>long\<close>, "C" locale), \<open>std::string::find\<close> of a character and \<open>std::string::substr\<close>. The lemmas give the
  round trips that the components rely on when ids travel as decimal text.
\<close>

section \<open>Printing\<close>

definition digit_char :: "nat \<Rightarrow> char" where
  "digit_char n = char_of (48 + n)"

fun to_string :: "nat \<Rightarrow> string" where
  "to_string n = (if n < 10 then [digit_char n] else to_string (n div 10) @ [digit_char (n mod 10)])"

section \<open>Parsing\<close>

definition isdigit :: "char \<Rightarrow> bool" where
  "isdigit c = (48 \<le> (of_char c :: nat) \<and> (of_char c :: nat) \<le> 57)"

definition isspace :: "char \<Rightarrow> bool" where
  "isspace c = (of_char c = (32::nat) \<or> (9 \<le> (of_char c :: nat) \<and> (of_char c :: nat) \<le> 13))"

definition digits_value :: "string \<Rightarrow> nat" where
  "digits_value s = foldl (\<lambda>v c. 10 * v + (of_char c - 48)) 0 s"

text \<open>
  The number a text starts with: white space, an optional sign, then at least one digit; what
  follows the digits is ignored. The result is the sign and the magnitude.
\<close>

definition scan_sign :: "string \<Rightarrow> bool \<times> string" where
  "scan_sign s =
    (case s of
       [] \<Rightarrow> (False, [])
     | c # cs \<Rightarrow> if c = CHR ''-'' then (True, cs) else if c = CHR ''+'' then (False, cs) else (False, s))"

definition scan_number :: "string \<Rightarrow> (bool \<times> nat) option" where
  "scan_number s =
    (let (neg, t) = scan_sign (dropWhile isspace s);
         ds = takeWhile isdigit t
     in if ds = [] then None else Some (neg, digits_value ds))"

text \<open>\<open>strtoull\<close> negates a number with a minus sign in the unsigned type.\<close>

definition stoull :: "string \<Rightarrow> u64 result" where
  "stoull s =
    (case scan_number s of
       None \<Rightarrow> Inl (Invalid_Argument ''stoull'')
     | Some (neg, n) \<Rightarrow> guardR (n < 2 ^ 64) Out_Of_Range (Inr (if neg then - of_nat n else of_nat n)))"

definition stoul :: "string \<Rightarrow> u64 result" where
  "stoul s =
    (case scan_number s of
       None \<Rightarrow> Inl (Invalid_Argument ''stoul'')
     | Some (neg, n) \<Rightarrow> guardR (n < 2 ^ 64) Out_Of_Range (Inr (if neg then - of_nat n else of_nat n)))"

definition stoi :: "string \<Rightarrow> int result" where
  "stoi s =
    (case scan_number s of
       None \<Rightarrow> Inl (Invalid_Argument ''stoi'')
     | Some (neg, n) \<Rightarrow>
         (let v = (if neg then - int n else int n)
          in guardR (- (2 ^ 31) \<le> v \<and> v < 2 ^ 31) Out_Of_Range (Inr v)))"

section \<open>Searching\<close>

text \<open>\<open>s.find(c, from)\<close>; \<open>None\<close> is \<open>npos\<close>.\<close>

definition find_char :: "char \<Rightarrow> nat \<Rightarrow> string \<Rightarrow> nat option" where
  "find_char c from s =
    (let rest = drop from s; n = length (takeWhile (\<lambda>x. x \<noteq> c) rest)
     in if n < length rest then Some (from + n) else None)"

definition substr :: "string \<Rightarrow> nat \<Rightarrow> nat \<Rightarrow> string result" where
  "substr s pos n = guardR (pos \<le> length s) Out_Of_Range (Inr (take n (drop pos s)))"

section \<open>Text and bytes\<close>

text \<open>A \<open>std::string\<close> that carries raw bytes, and the C string a \<open>char\<close> pointer designates.\<close>

definition bytes_of_text :: "string \<Rightarrow> byte list" where
  "bytes_of_text s = map (\<lambda>c. of_nat (of_char c)) s"

definition text_of_bytes :: "byte list \<Rightarrow> string" where
  "text_of_bytes bs = map (\<lambda>b. char_of (unat b)) bs"

text \<open>Reading up to the terminating zero; a block without one is read out of bounds.\<close>

definition c_string :: "byte list \<Rightarrow> byte list result" where
  "c_string bs = guardR (0 \<in> set bs) Undefined_Behaviour (Inr (takeWhile (\<lambda>b. b \<noteq> 0) bs))"

section \<open>Round trips\<close>

lemma unat_u8_less: "unat (b :: byte) < 256"
  using unsigned_less [of b, where 'a = nat] by simp

lemma bytes_of_text_of_bytes [simp]: "bytes_of_text (text_of_bytes bs) = bs"
proof -
  have "of_nat (of_char (char_of (unat b))) = b" for b :: byte
    using unat_u8_less [of b] by (simp add: of_char_of)
  then show ?thesis by (simp add: bytes_of_text_def text_of_bytes_def comp_def map_idI)
qed

lemma text_of_bytes_of_text [simp]: "text_of_bytes (bytes_of_text s) = s"
proof -
  have "char_of (unat (of_nat (of_char c) :: byte)) = c" for c :: char
    by (simp add: unat_of_nat char_of_mod_256)
  then show ?thesis by (simp add: bytes_of_text_def text_of_bytes_def comp_def map_idI)
qed

lemma length_text_of_bytes [simp]: "length (text_of_bytes bs) = length bs" "length (bytes_of_text s) = length s"
  by (simp_all add: text_of_bytes_def bytes_of_text_def)

declare to_string.simps [simp del]

lemma of_char_digit_char: "n < 10 \<Longrightarrow> of_char (digit_char n) = 48 + n"
  by (simp add: digit_char_def)

lemma isdigit_digit_char: "n < 10 \<Longrightarrow> isdigit (digit_char n)"
  by (simp add: isdigit_def of_char_digit_char)

lemma to_string_nonempty [simp]: "to_string n \<noteq> []"
  by (subst to_string.simps) simp

lemma to_string_digits: "c \<in> set (to_string n) \<Longrightarrow> isdigit c"
proof (induction n rule: to_string.induct)
  case (1 n)
  then show ?case by (subst (asm) to_string.simps) (auto simp: isdigit_digit_char split: if_splits)
qed

lemma digits_value_snoc: "digits_value (s @ [c]) = 10 * digits_value s + (of_char c - 48)"
  by (simp add: digits_value_def)

lemma digits_value_to_string [simp]: "digits_value (to_string n) = n"
proof (induction n rule: to_string.induct)
  case (1 n)
  show ?case
  proof (cases "n < 10")
    case True
    then show ?thesis by (subst to_string.simps) (simp add: digits_value_def of_char_digit_char)
  next
    case False
    with 1 show ?thesis by (subst to_string.simps) (simp add: digits_value_snoc of_char_digit_char)
  qed
qed

lemma to_string_inject [simp]: "to_string m = to_string n \<longleftrightarrow> m = n"
  using digits_value_to_string by metis

lemma isdigit_not_special: "isdigit c \<Longrightarrow> \<not> isspace c \<and> c \<noteq> CHR ''-'' \<and> c \<noteq> CHR ''+'' \<and> c \<noteq> CHR ''&''"
  by (auto simp: isdigit_def isspace_def)

lemma takeWhile_to_string:
  "(rest = [] \<or> \<not> isdigit (hd rest)) \<Longrightarrow> takeWhile isdigit (to_string n @ rest) = to_string n"
  using to_string_digits [of _ n] by (cases rest) (auto simp: takeWhile_append)

lemma scan_number_to_string:
  assumes "rest = [] \<or> \<not> isdigit (hd rest)"
  shows "scan_number (to_string n @ rest) = Some (False, n)"
proof -
  obtain c cs where cs: "to_string n = c # cs" using to_string_nonempty by (cases "to_string n") auto
  then have c: "isdigit c" using to_string_digits [of c n] by simp
  have "scan_sign (dropWhile isspace (to_string n @ rest)) = (False, to_string n @ rest)"
    using isdigit_not_special [OF c] by (simp add: cs scan_sign_def)
  with assms show ?thesis by (simp add: scan_number_def takeWhile_to_string)
qed

lemma stoull_to_string [simp]: "n < 2 ^ 64 \<Longrightarrow> stoull (to_string n) = Inr (of_nat n)"
  using scan_number_to_string [of "[]" n] by (simp add: stoull_def guardR_def)

lemma unat_lt2p_64: "unat w < 2 ^ 64" for w :: u64
  using unsigned_less [of w] by simp

lemma stoull_to_string_unat [simp]: "stoull (to_string (unat w)) = Inr w" for w :: u64
  using unat_lt2p_64 [of w] by simp

lemma stoi_to_string [simp]: "n < 2 ^ 31 \<Longrightarrow> stoi (to_string n) = Inr (int n)"
  using scan_number_to_string [of "[]" n] by (simp add: stoi_def guardR_def)

lemma find_char_append:
  assumes "c \<notin> set s" and "from \<le> length s"
  shows "find_char c from (s @ c # t) = Some (length s)"
proof -
  have "c \<notin> set (drop from s)" using assms(1) by (meson in_set_dropD)
  then have "takeWhile (\<lambda>x. x \<noteq> c) (drop from s @ c # t) = drop from s"
    by (auto simp: takeWhile_append)
  with assms(2) show ?thesis by (simp add: find_char_def Let_def)
qed

lemma find_char_shift:
  "find_char c (length s) (s @ t) = map_option (\<lambda>n. length s + n) (find_char c 0 t)"
  by (simp add: find_char_def Let_def)

lemma find_char_None: "c \<notin> set s \<Longrightarrow> find_char c 0 s = None"
proof -
  assume "c \<notin> set s"
  then have "length (takeWhile (\<lambda>x. x \<noteq> c) s) = length s" by (induction s) auto
  then show ?thesis by (simp add: find_char_def Let_def)
qed

end
