(* ===== verification/Field_Op.thy ===== *)
theory Field_Op
  imports Prelude
begin

text \<open>
  Integer fields in network byte order, \<open>src/include/utils/field_op.hpp\<close>. The header is compiled for
  a little or a big endian host (\<open>__BYTE_ORDER\<close>); the host's order is an argument of the model. A
  pointer into a buffer is the buffer and an offset. The lemmas show that what is written is the
  big endian encoding on either kind of host, that reading returns what was written, and that a
  field that does not fit in the buffer is undefined behaviour.
\<close>

section \<open>Memory representation of integers\<close>

datatype endian = Little_Endian | Big_Endian

definition le_bytes :: "nat \<Rightarrow> 'a::len word \<Rightarrow> byte list" where
  "le_bytes n w = map (\<lambda>k. ucast (drop_bit (8 * k) w)) [0..<n]"

primrec le_word :: "byte list \<Rightarrow> 'a::len word" where
  "le_word [] = 0"
| "le_word (b # bs) = ucast b OR push_bit 8 (le_word bs)"

definition host_bytes :: "endian \<Rightarrow> nat \<Rightarrow> 'a::len word \<Rightarrow> byte list" where
  "host_bytes e n w = (case e of Little_Endian \<Rightarrow> le_bytes n w | Big_Endian \<Rightarrow> rev (le_bytes n w))"

definition host_word :: "endian \<Rightarrow> byte list \<Rightarrow> 'a::len word" where
  "host_word e bs = (case e of Little_Endian \<Rightarrow> le_word bs | Big_Endian \<Rightarrow> le_word (rev bs))"

text \<open>\<open>htons\<close>, \<open>htonl\<close> and their inverses reverse the bytes on a little endian host.\<close>

definition htons :: "endian \<Rightarrow> u16 \<Rightarrow> u16" where
  "htons e v = (case e of Little_Endian \<Rightarrow> le_word (rev (le_bytes 2 v)) | Big_Endian \<Rightarrow> v)"

definition ntohs :: "endian \<Rightarrow> u16 \<Rightarrow> u16" where
  "ntohs e v = htons e v"

definition htonl :: "endian \<Rightarrow> u32 \<Rightarrow> u32" where
  "htonl e v = (case e of Little_Endian \<Rightarrow> le_word (rev (le_bytes 4 v)) | Big_Endian \<Rightarrow> v)"

definition ntohl :: "endian \<Rightarrow> u32 \<Rightarrow> u32" where
  "ntohl e v = htonl e v"

section \<open>The functions of the header\<close>

definition htonll :: "endian \<Rightarrow> u64 \<Rightarrow> u64" where
  "htonll e value = (case e of
     Little_Endian \<Rightarrow>
       push_bit 32 (ucast (htonl e (ucast (value AND 0xFFFFFFFF)))) OR
       ucast (htonl e (ucast (drop_bit 32 value)))
   | Big_Endian \<Rightarrow> value)"

definition ntohll :: "endian \<Rightarrow> u64 \<Rightarrow> u64" where
  "ntohll e value = (case e of
     Little_Endian \<Rightarrow>
       push_bit 32 (ucast (ntohl e (ucast (value AND 0xFFFFFFFF)))) OR
       ucast (ntohl e (ucast (drop_bit 32 value)))
   | Big_Endian \<Rightarrow> value)"

definition WriteNetField32 :: "endian \<Rightarrow> byte list \<Rightarrow> nat \<Rightarrow> u32 \<Rightarrow> byte list result" where
  "WriteNetField32 e buf dst val = memcpy_to buf dst (host_bytes e 4 (htonl e val))"

definition ReadNetField32 :: "endian \<Rightarrow> byte list \<Rightarrow> nat \<Rightarrow> u32 result" where
  "ReadNetField32 e buf beg = bindR (memcpy_from buf beg 4) (\<lambda>bs. Inr (ntohl e (host_word e bs)))"

definition WriteNetField16 :: "endian \<Rightarrow> byte list \<Rightarrow> nat \<Rightarrow> u16 \<Rightarrow> byte list result" where
  "WriteNetField16 e buf dst val = memcpy_to buf dst (host_bytes e 2 (htons e val))"

definition ReadNetField16 :: "endian \<Rightarrow> byte list \<Rightarrow> nat \<Rightarrow> u16 result" where
  "ReadNetField16 e buf beg = bindR (memcpy_from buf beg 2) (\<lambda>bs. Inr (ntohs e (host_word e bs)))"

definition WriteNetField64 :: "endian \<Rightarrow> byte list \<Rightarrow> nat \<Rightarrow> u64 \<Rightarrow> byte list result" where
  "WriteNetField64 e buf dst val = memcpy_to buf dst (host_bytes e 8 (htonll e val))"

definition ReadNetField64 :: "endian \<Rightarrow> byte list \<Rightarrow> nat \<Rightarrow> u64 result" where
  "ReadNetField64 e buf beg = bindR (memcpy_from buf beg 8) (\<lambda>bs. Inr (ntohll e (host_word e bs)))"

text \<open>The specification: the most significant byte first.\<close>

definition be_bytes :: "nat \<Rightarrow> 'a::len word \<Rightarrow> byte list" where
  "be_bytes n w = rev (le_bytes n w)"

definition be_word :: "byte list \<Rightarrow> 'a::len word" where
  "be_word bs = le_word (rev bs)"

section \<open>Bytes of a word\<close>

lemma length_le_bytes [simp]: "length (le_bytes n w) = n"
  by (simp add: le_bytes_def)

lemma length_be_bytes [simp]: "length (be_bytes n w) = n"
  by (simp add: be_bytes_def)

lemma nth_le_bytes: "k < n \<Longrightarrow> le_bytes n w ! k = ucast (drop_bit (8 * k) w)"
  by (simp add: le_bytes_def)

lemma bit_byte_bound: "bit (b :: byte) i \<Longrightarrow> i < 8"
  using bit_imp_le_length by fastforce

lemma bit_le_word:
  "bit (le_word bs :: 'a::len word) i \<longleftrightarrow>
     i < LENGTH('a) \<and> i div 8 < length bs \<and> bit (bs ! (i div 8)) (i mod 8)"
proof (induction bs arbitrary: i)
  case Nil
  then show ?case by simp
next
  case (Cons b bs)
  show ?case
  proof (cases "i < 8")
    case True
    then show ?thesis by (simp add: bit_or_iff bit_push_bit_iff bit_ucast_iff)
  next
    case False
    then have shift: "i div 8 = Suc ((i - 8) div 8)" "i mod 8 = (i - 8) mod 8"
      by (simp_all add: le_div_geq le_mod_geq not_less)
    have "\<not> bit b i" using False bit_byte_bound by blast
    with shift False Cons [of "i - 8"] show ?thesis
      by (auto simp: bit_or_iff bit_push_bit_iff bit_ucast_iff)
  qed
qed

lemma bit_le_bytes: "k < n \<Longrightarrow> bit (le_bytes n w ! k) i \<longleftrightarrow> i < 8 \<and> bit w (8 * k + i)"
  by (auto simp: nth_le_bytes bit_ucast_iff bit_drop_bit_eq)

lemma le_word_le_bytes:
  "LENGTH('a) = 8 * n \<Longrightarrow> le_word (le_bytes n (w :: 'a::len word)) = w"
  by (rule bit_word_eqI) (simp add: bit_le_word bit_le_bytes less_mult_imp_div_less mult.commute)

lemma le_bytes_le_word:
  assumes "LENGTH('a) = 8 * n" and "length bs = n"
  shows "le_bytes n (le_word bs :: 'a::len word) = bs"
proof (rule nth_equalityI)
  fix k assume k: "k < length (le_bytes n (le_word bs :: 'a word))"
  show "le_bytes n (le_word bs :: 'a word) ! k = bs ! k"
  proof (rule bit_word_eqI)
    fix i assume "i < LENGTH(8)"
    then show "bit (le_bytes n (le_word bs :: 'a word) ! k) i = bit (bs ! k) i"
      using k assms by (simp add: bit_le_bytes bit_le_word)
  qed
qed (simp add: assms)

lemma be_word_be_bytes [simp]:
  "be_word (be_bytes 2 (v :: u16)) = v"
  "be_word (be_bytes 4 (w :: u32)) = w"
  "be_word (be_bytes 8 (x :: u64)) = x"
  by (simp_all add: be_word_def be_bytes_def le_word_le_bytes)

lemma be_bytes_be_word:
  "length bs = 2 \<Longrightarrow> be_bytes 2 (be_word bs :: u16) = bs"
  "length bs = 4 \<Longrightarrow> be_bytes 4 (be_word bs :: u32) = bs"
  "length bs = 8 \<Longrightarrow> be_bytes 8 (be_word bs :: u64) = bs"
  by (simp_all add: be_word_def be_bytes_def le_bytes_le_word)

lemma bit_low_mask: "bit (0xFFFFFFFF :: u64) k \<longleftrightarrow> k < 32"
proof -
  have eq: "(0xFFFFFFFF :: u64) = mask 32" by (simp add: mask_eq_exp_minus_1)
  show ?thesis unfolding eq bit_mask_iff possible_bit_word by auto
qed

text \<open>The two halves of \<open>htonll\<close> are the reversal of all eight bytes.\<close>

lemma bit_rev_bytes:
  "bit (le_word (rev (le_bytes n (w :: 'b::len word))) :: 'a::len word) i \<longleftrightarrow>
     i < LENGTH('a) \<and> i div 8 < n \<and> bit w (8 * (n - Suc (i div 8)) + i mod 8)"
  by (auto simp: bit_le_word rev_nth bit_le_bytes)

lemma bit_htonl_Little:
  "bit (htonl Little_Endian x) i \<longleftrightarrow> i < 32 \<and> bit x (8 * (4 - Suc (i div 8)) + i mod 8)"
  by (simp only: htonl_def endian.case bit_rev_bytes) auto

lemma htonll_Little: "htonll Little_Endian v = le_word (rev (le_bytes 8 v))"
proof (rule bit_word_eqI)
  fix i assume "i < LENGTH(64)"
  then have i: "i < 64" by simp
  have split: "bit (htonll Little_Endian v) i \<longleftrightarrow>
      32 \<le> i \<and> bit (htonl Little_Endian (ucast (v AND 0xFFFFFFFF))) (i - 32) \<or>
      bit (htonl Little_Endian (ucast (drop_bit 32 v))) i"
    using i by (simp only: htonll_def endian.case bit_or_iff bit_push_bit_iff bit_ucast_iff possible_bit_word) auto
  show "bit (htonll Little_Endian v) i = bit (le_word (rev (le_bytes 8 v)) :: u64) i"
  proof (cases "i < 32")
    case True
    then have "32 + (8 * (4 - Suc (i div 8)) + i mod 8) = 8 * (8 - Suc (i div 8)) + i mod 8"
      and "8 * (4 - Suc (i div 8)) + i mod 8 < 32" and "i div 8 < 8"
      by auto
    with True show ?thesis unfolding split bit_htonl_Little bit_rev_bytes bit_ucast_iff bit_drop_bit_eq comp_def
      by (simp flip: add.assoc)
  next
    case False
    define j where "j = i - 32"
    have j: "i = j + 32" "j < 32" using False i by (simp_all add: j_def)
    then have "i div 8 = j div 8 + 4" "i mod 8 = j mod 8"
      using mod_mult_self1 [of j 4 8] by simp_all
    moreover from j have "8 * (4 - Suc (j div 8)) + j mod 8 < 32" "j div 8 + 4 < 8" by auto
    ultimately show ?thesis
      using j unfolding split bit_htonl_Little bit_rev_bytes bit_ucast_iff bit_and_iff bit_low_mask
      by simp
  qed
qed

lemma htonll_Big: "htonll Big_Endian v = v"
  by (simp add: htonll_def)

lemma ntohll_eq_htonll: "ntohll e v = htonll e v"
  unfolding ntohll_def htonll_def ntohl_def by (rule refl)

section \<open>Fields are big endian on every host\<close>

lemma host_bytes_hton:
  "host_bytes e 2 (htons e v) = be_bytes 2 v"
  "host_bytes e 4 (htonl e w) = be_bytes 4 w"
  "host_bytes e 8 (htonll e x) = be_bytes 8 x"
  by (cases e; simp add: host_bytes_def htons_def htonl_def be_bytes_def le_bytes_le_word htonll_Little htonll_Big)+

lemma ntoh_host_word:
  "length bs = 2 \<Longrightarrow> ntohs e (host_word e bs) = be_word bs"
  "length bs = 4 \<Longrightarrow> ntohl e (host_word e bs) = be_word bs"
  "length bs = 8 \<Longrightarrow> ntohll e (host_word e bs) = be_word bs"
  by (cases e; simp add: host_word_def ntohs_def ntohl_def htons_def htonl_def be_word_def
      le_bytes_le_word ntohll_eq_htonll htonll_Little htonll_Big)+

named_theorems field_simps_net \<open>reads and writes of network fields inside a buffer\<close>

lemma WriteNetField_Inr [field_simps_net]:
  "dst + 2 \<le> length buf \<Longrightarrow> WriteNetField16 e buf dst v = Inr (overwrite buf dst (be_bytes 2 v))"
  "dst + 4 \<le> length buf \<Longrightarrow> WriteNetField32 e buf dst w = Inr (overwrite buf dst (be_bytes 4 w))"
  "dst + 8 \<le> length buf \<Longrightarrow> WriteNetField64 e buf dst x = Inr (overwrite buf dst (be_bytes 8 x))"
  by (simp_all add: WriteNetField16_def WriteNetField32_def WriteNetField64_def host_bytes_hton memcpy_to_Inr)

lemma WriteNetField_Inl:
  "length buf < dst + 4 \<Longrightarrow> WriteNetField32 e buf dst w = Inl Undefined_Behaviour"
  "length buf < dst + 8 \<Longrightarrow> WriteNetField64 e buf dst x = Inl Undefined_Behaviour"
  by (simp_all add: WriteNetField32_def WriteNetField64_def host_bytes_hton memcpy_to_def guardR_def)

lemma ReadNetField_Inr [field_simps_net]:
  "beg + 2 \<le> length buf \<Longrightarrow> ReadNetField16 e buf beg = Inr (be_word (take 2 (drop beg buf)))"
  "beg + 4 \<le> length buf \<Longrightarrow> ReadNetField32 e buf beg = Inr (be_word (take 4 (drop beg buf)))"
  "beg + 8 \<le> length buf \<Longrightarrow> ReadNetField64 e buf beg = Inr (be_word (take 8 (drop beg buf)))"
  by (simp_all add: ReadNetField16_def ReadNetField32_def ReadNetField64_def memcpy_from_Inr ntoh_host_word)

lemma ReadNetField_Inl:
  "length buf < beg + 8 \<Longrightarrow> ReadNetField64 e buf beg = Inl Undefined_Behaviour"
  by (simp add: ReadNetField64_def memcpy_from_def guardR_def)

section \<open>Properties\<close>

text \<open>
  A 64 bit field written on one host and read on another, whatever their byte orders, gives back
  its value, and the bytes of the buffer outside the field are untouched.
\<close>

lemma field64_round_trip:
  assumes "dst + 8 \<le> length buf"
  shows "\<exists>buf'. WriteNetField64 e buf dst v = Inr buf' \<and> ReadNetField64 e' buf' dst = Inr v \<and>
    length buf' = length buf \<and> take dst buf' = take dst buf \<and> drop (dst + 8) buf' = drop (dst + 8) buf"
  using assms by (simp add: field_simps_net, simp add: overwrite_def)


end
