(* ===== verification/Msg_Node.thy ===== *)
theory Msg_Node
  imports Field_Op
begin

text \<open>
  The message node of \<open>src/include/common/msgnode.hpp\<close>: the tag, length, value frame client and server
  exchange, and the buffer that holds one frame while it is sent or received. A node's \<open>data_\<close>
  pointer is \<open>None\<close> when null and otherwise the block it points to. The lemmas give the frame each
  constructor writes, the round trip through the header fields, the branches on which the
  constructor fails, and the invariant that \<open>max_len_\<close> is the size of the block.
\<close>

section \<open>Tags\<close>

definition TAG_DEBUG :: u32 where "TAG_DEBUG = 0"
definition TAG_VERIFY :: u32 where "TAG_VERIFY = 1"
definition TAG_VERIFY_DONE :: u32 where "TAG_VERIFY_DONE = 2"
definition TAG_CHAT_MSG :: u32 where "TAG_CHAT_MSG = 3"
definition TAG_CHAT_MSG_TOCLI :: u32 where "TAG_CHAT_MSG_TOCLI = 4"
definition TAG_GROUP_CHAT_MSG :: u32 where "TAG_GROUP_CHAT_MSG = 5"
definition TAG_PING :: u32 where "TAG_PING = 6"
definition TAG_RESERVED :: u32 where "TAG_RESERVED = 7"

lemmas tag_defs = TAG_DEBUG_def TAG_VERIFY_def TAG_VERIFY_DONE_def TAG_CHAT_MSG_def
  TAG_CHAT_MSG_TOCLI_def TAG_GROUP_CHAT_MSG_def TAG_PING_def TAG_RESERVED_def

definition TagTypeStr :: "u32 \<Rightarrow> string" where
  "TagTypeStr e =
    (if e = TAG_DEBUG then ''DEBUG''
     else if e = TAG_VERIFY then ''VERIFY''
     else if e = TAG_VERIFY_DONE then ''VERIFY_DONE''
     else if e = TAG_CHAT_MSG then ''CHAT_MSG''
     else if e = TAG_CHAT_MSG_TOCLI then ''CHAT_MSG_TOCLI''
     else if e = TAG_GROUP_CHAT_MSG then ''GROUP_CHAT_MSG''
     else if e = TAG_RESERVED then ''RESERVED''
     else ''UNKNOWN'')"

section \<open>The node\<close>

definition TAG_LEN :: nat where "TAG_LEN = 4"
definition LENGTH_LEN :: nat where "LENGTH_LEN = 4"
definition HEAD_LEN :: nat where "HEAD_LEN = TAG_LEN + LENGTH_LEN"
definition MAX_CTX_LEN :: u32 where "MAX_CTX_LEN = 1024 * 1024"

lemmas len_defs = HEAD_LEN_def TAG_LEN_def LENGTH_LEN_def

record msg_node =
  node_data :: "byte list option"
  node_cur_pos :: u32
  node_ctx_len :: u32
  node_max_len :: u32

definition MsgNode_new :: "(nat \<Rightarrow> byte) \<Rightarrow> u32 \<Rightarrow> msg_node" where
  "MsgNode_new fill max_len =
    \<lparr>node_data = (if max_len > 0 then Some (new_chars fill (unat max_len)) else None),
     node_cur_pos = 0, node_ctx_len = 0, node_max_len = max_len\<rparr>"

text \<open>
  \<open>HEAD_LEN + msg_len\<close> is computed in \<open>uint32_t\<close> and wraps; \<open>content\<close> is the block the first argument
  points into.
\<close>

definition MsgNode_msg :: "endian \<Rightarrow> (nat \<Rightarrow> byte) \<Rightarrow> byte list \<Rightarrow> u32 \<Rightarrow> u32 \<Rightarrow> msg_node result" where
  "MsgNode_msg e fill content msg_len tag =
    (if msg_len > 0 then
       bindR (WriteNetField32 e (new_chars fill (unat (of_nat HEAD_LEN + msg_len))) 0 tag) (\<lambda>d.
       bindR (WriteNetField32 e d TAG_LEN msg_len) (\<lambda>d.
       bindR (memcpy_from content 0 (unat msg_len)) (\<lambda>bs.
       bindR (memcpy_to d (TAG_LEN + LENGTH_LEN) bs) (\<lambda>d.
         Inr \<lparr>node_data = Some d, node_cur_pos = 0, node_ctx_len = msg_len,
              node_max_len = of_nat HEAD_LEN + msg_len\<rparr>))))
     else Inl (Invalid_Argument ''Attempt to create a zero-sized message''))"

definition MsgNode_raw :: "byte list option \<Rightarrow> u32 \<Rightarrow> msg_node" where
  "MsgNode_raw data_ptr data_len =
    \<lparr>node_data = data_ptr, node_cur_pos = 0, node_ctx_len = 0, node_max_len = data_len\<rparr>"

definition MsgNode_Clear :: "msg_node \<Rightarrow> msg_node" where
  "MsgNode_Clear n = n\<lparr>node_data := None, node_cur_pos := 0, node_ctx_len := 0, node_max_len := 0\<rparr>"

definition ResetCurPos :: "msg_node \<Rightarrow> msg_node" where
  "ResetCurPos n = n\<lparr>node_cur_pos := 0\<rparr>"

definition MsgNode_Zero :: "msg_node \<Rightarrow> msg_node" where
  "MsgNode_Zero n = n\<lparr>node_cur_pos := 0, node_ctx_len := 0\<rparr>"

definition Reallocate :: "(nat \<Rightarrow> byte) \<Rightarrow> msg_node \<Rightarrow> u32 \<Rightarrow> msg_node result" where
  "Reallocate fill n new_len =
    bindR
      (case node_data n of
         Some d \<Rightarrow>
           if new_len > node_max_len n then
             bindR (memcpy_from d 0 (unat (node_max_len n))) (\<lambda>bs.
             bindR (memcpy_to (new_chars fill (unat new_len)) 0 bs) (\<lambda>tmp.
               Inr (n\<lparr>node_data := Some tmp\<rparr>)))
           else Inr n
       | None \<Rightarrow> Inr n)
      (\<lambda>n. let n = (if node_data n = None
                    then n\<lparr>node_data := Some (new_chars fill (unat new_len)),
                           node_cur_pos := 0, node_ctx_len := 0\<rparr>
                    else n)
           in Inr (n\<lparr>node_max_len := max (node_max_len n) new_len\<rparr>))"

text \<open>\<open>memcpy\<close> out of \<open>rhs.data_\<close>, which may be null only when nothing is copied.\<close>

definition node_bytes :: "msg_node \<Rightarrow> nat \<Rightarrow> byte list result" where
  "node_bytes n k = (case node_data n of
     None \<Rightarrow> guardR (k = 0) Undefined_Behaviour (Inr [])
   | Some d \<Rightarrow> memcpy_from d 0 k)"

definition MsgNode_assign :: "(nat \<Rightarrow> byte) \<Rightarrow> bool \<Rightarrow> msg_node \<Rightarrow> msg_node \<Rightarrow> msg_node result" where
  "MsgNode_assign fill same this rhs =
    (if same then Inr this
     else
       bindR (node_bytes rhs (unat (node_max_len rhs))) (\<lambda>bs.
       bindR (memcpy_to
                (case node_data this of
                   None \<Rightarrow> new_chars fill (unat (node_max_len rhs))
                 | Some d \<Rightarrow> if node_max_len rhs > node_max_len this
                              then new_chars fill (unat (node_max_len rhs)) else d) 0 bs) (\<lambda>d.
         Inr \<lparr>node_data = Some d, node_cur_pos = node_cur_pos rhs, node_ctx_len = node_ctx_len rhs,
              node_max_len = max (node_max_len this) (node_max_len rhs)\<rparr>)))"

definition MsgNode_copy :: "(nat \<Rightarrow> byte) \<Rightarrow> msg_node \<Rightarrow> msg_node result" where
  "MsgNode_copy fill rhs =
    bindR (node_bytes rhs (unat (node_max_len rhs))) (\<lambda>bs.
    bindR (memcpy_to (new_chars fill (unat (node_max_len rhs))) 0 bs) (\<lambda>d.
      Inr \<lparr>node_data = Some d, node_cur_pos = node_cur_pos rhs, node_ctx_len = node_ctx_len rhs,
           node_max_len = node_max_len rhs\<rparr>))"

definition GetContentLen :: "msg_node \<Rightarrow> u32" where
  "GetContentLen n = node_ctx_len n"

definition UpdateContentLenField :: "endian \<Rightarrow> msg_node \<Rightarrow> (u32 \<times> msg_node) result" where
  "UpdateContentLenField e n = (case node_data n of
     None \<Rightarrow> Inl Undefined_Behaviour
   | Some d \<Rightarrow>
       bindR (memcpy_from d TAG_LEN LENGTH_LEN) (\<lambda>bs.
         let len = ntohl e (host_word e bs) in Inr (len, n\<lparr>node_ctx_len := len\<rparr>)))"

definition SetContentLenField :: "endian \<Rightarrow> msg_node \<Rightarrow> u32 \<Rightarrow> msg_node result" where
  "SetContentLenField e n content_len = (case node_data n of
     None \<Rightarrow> Inl Undefined_Behaviour
   | Some d \<Rightarrow>
       bindR (WriteNetField32 e d TAG_LEN content_len) (\<lambda>d.
         Inr (n\<lparr>node_data := Some d, node_ctx_len := content_len\<rparr>)))"

definition GetTagField :: "endian \<Rightarrow> msg_node \<Rightarrow> u32 result" where
  "GetTagField e n = (case node_data n of
     None \<Rightarrow> Inl Undefined_Behaviour
   | Some d \<Rightarrow> bindR (memcpy_from d 0 TAG_LEN) (\<lambda>bs. Inr (ntohl e (host_word e bs))))"

definition SetTagField :: "endian \<Rightarrow> msg_node \<Rightarrow> u32 \<Rightarrow> msg_node result" where
  "SetTagField e n tag = (case node_data n of
     None \<Rightarrow> Inl Undefined_Behaviour
   | Some d \<Rightarrow> bindR (WriteNetField32 e d 0 tag) (\<lambda>d. Inr (n\<lparr>node_data := Some d\<rparr>)))"

text \<open>\<open>GetContent()\<close> is the address just behind the header; the bytes that can be read from there.\<close>

definition GetContent :: "msg_node \<Rightarrow> byte list" where
  "GetContent n = (case node_data n of None \<Rightarrow> [] | Some d \<Rightarrow> drop HEAD_LEN d)"

section \<open>Specification: frames\<close>

definition frame :: "u32 \<Rightarrow> byte list \<Rightarrow> byte list" where
  "frame tag content = be_bytes 4 tag @ be_bytes 4 (of_nat (length content) :: u32) @ content"

text \<open>The bytes of a node that make up its message: the header and \<open>ctx_len_\<close> bytes of content.\<close>

definition node_wire :: "msg_node \<Rightarrow> byte list" where
  "node_wire n = (case node_data n of None \<Rightarrow> [] | Some d \<Rightarrow> take (HEAD_LEN + unat (node_ctx_len n)) d)"

definition node_wf :: "msg_node \<Rightarrow> bool" where
  "node_wf n = (case node_data n of None \<Rightarrow> node_max_len n = 0 | Some d \<Rightarrow> length d = unat (node_max_len n))"

section \<open>Lemmas\<close>

lemma HEAD_LEN_eq [simp]: "HEAD_LEN = 8" "TAG_LEN = 4" "LENGTH_LEN = 4"
  by (simp_all add: len_defs)

lemma length_frame [simp]: "length (frame tag content) = 8 + length content"
  by (simp add: frame_def)

lemma unat_add_head:
  "unat (8 + (w :: u32)) = (if unat w + 8 < 2 ^ 32 then unat w + 8 else unat w + 8 - 2 ^ 32)"
  using unat_u32_less [of w] by (auto simp: unat_word_ariths mod_if)

lemma unat_add_head_less: "unat (w :: u32) + 8 < 2 ^ 32 \<Longrightarrow> unat (8 + w) = unat w + 8"
  by (simp add: unat_add_head)

lemma overwrite_header:
  "length d = 8 + length bs \<Longrightarrow>
   overwrite (overwrite (overwrite d 0 (be_bytes 4 t)) 4 (be_bytes 4 l)) 8 bs = be_bytes 4 t @ be_bytes 4 l @ bs"
  for t l :: u32
  by (simp add: overwrite_def)

lemma MsgNode_msg_frame:
  assumes "0 < msg_len" and "unat msg_len + 8 < 2 ^ 32" and "unat msg_len \<le> length content"
  shows "MsgNode_msg e fill content msg_len tag =
    Inr \<lparr>node_data = Some (frame tag (take (unat msg_len) content)), node_cur_pos = 0,
         node_ctx_len = msg_len, node_max_len = 8 + msg_len\<rparr>"
proof -
  have len: "length (new_chars fill (unat (8 + msg_len))) = 8 + unat msg_len"
    using assms(2) by (simp add: unat_add_head_less)
  have min: "min (length content) (unat msg_len) = unat msg_len" using assms(3) by simp
  show ?thesis
    using assms len
    by (simp add: MsgNode_msg_def field_simps_net memcpy_from_Inr memcpy_to_Inr overwrite_header frame_def min)
qed

lemma MsgNode_msg_overflow:
  assumes "2 ^ 32 \<le> unat msg_len + 8" and "unat msg_len \<le> length content"
  shows "MsgNode_msg e fill content msg_len tag = Inl Undefined_Behaviour"
proof -
  have "unat (8 + msg_len) < 8 + unat msg_len" and "unat (8 + msg_len) < 8" and pos: "0 < msg_len"
    using assms(1) unat_u32_less [of msg_len] by (auto simp: unat_add_head word_less_nat_alt)
  then show ?thesis
    by (auto simp: MsgNode_msg_def WriteNetField32_def host_bytes_hton memcpy_to_def guardR_def bindR_def
        split: sum.splits if_splits)
qed

lemma MsgNode_msg_zero: "MsgNode_msg e fill content 0 tag = Inl (Invalid_Argument ''Attempt to create a zero-sized message'')"
  by (simp add: MsgNode_msg_def)

text \<open>Reading the header fields of a block that starts with a frame.\<close>

lemma GetTagField_Some:
  "node_data n = Some d \<Longrightarrow> 4 \<le> length d \<Longrightarrow> GetTagField e n = Inr (be_word (take 4 d))"
  by (simp add: GetTagField_def memcpy_from_Inr ntoh_host_word)

lemma UpdateContentLenField_Some:
  "node_data n = Some d \<Longrightarrow> 8 \<le> length d \<Longrightarrow>
    UpdateContentLenField e n =
      Inr (be_word (take 4 (drop 4 d)), n\<lparr>node_ctx_len := be_word (take 4 (drop 4 d))\<rparr>)"
  by (simp add: UpdateContentLenField_def memcpy_from_Inr ntoh_host_word Let_def)

lemma frame_fields:
  "be_word (take 4 (frame tag content @ rest)) = tag"
  "be_word (take 4 (drop 4 (frame tag content @ rest))) = (of_nat (length content) :: u32)"
  "take (length content) (drop 8 (frame tag content @ rest)) = content"
  by (simp_all add: frame_def)

lemma SetTagField_Some:
  "node_data n = Some d \<Longrightarrow> 4 \<le> length d \<Longrightarrow>
    SetTagField e n tag = Inr (n\<lparr>node_data := Some (be_bytes 4 tag @ drop 4 d)\<rparr>)"
  by (simp add: SetTagField_def field_simps_net overwrite_def)

lemma SetContentLenField_Some:
  "node_data n = Some d \<Longrightarrow> 8 \<le> length d \<Longrightarrow>
    SetContentLenField e n len =
      Inr (n\<lparr>node_data := Some (take 4 d @ be_bytes 4 len @ drop 8 d), node_ctx_len := len\<rparr>)"
  by (simp add: SetContentLenField_def field_simps_net overwrite_def)

section \<open>The size invariant\<close>

lemma MsgNode_new_wf: "node_wf (MsgNode_new fill len)"
  by (auto simp: node_wf_def MsgNode_new_def word_neq_0_conv [symmetric])

lemma MsgNode_msg_wf: "MsgNode_msg e fill content len tag = Inr n \<Longrightarrow> node_wf n"
  by (auto simp: MsgNode_msg_def node_wf_def WriteNetField32_def memcpy_to_def memcpy_from_def
      result_simps host_bytes_hton split: if_splits)

lemma Reallocate_wf: "node_wf n \<Longrightarrow> Reallocate fill n len = Inr n' \<Longrightarrow> node_wf n'"
  by (auto simp: Reallocate_def node_wf_def memcpy_to_def memcpy_from_def result_simps Let_def max_def
      not_less word_le_nat_alt split: if_splits option.splits)

lemma Reallocate_total:
  assumes "node_wf n"
  shows "\<exists>n'. Reallocate fill n len = Inr n' \<and> node_max_len n' = max (node_max_len n) len"
  using assms
  by (auto simp: Reallocate_def node_wf_def memcpy_to_def memcpy_from_def Let_def
      word_less_nat_alt guardR_def split: option.splits)

lemma Reallocate_keeps:
  assumes "node_wf n" and "node_data n = Some d" and "Reallocate fill n len = Inr n'"
  shows "\<exists>junk. node_data n' = Some (d @ junk)"
    and "node_cur_pos n' = node_cur_pos n" and "node_ctx_len n' = node_ctx_len n"
  using assms
  by (auto simp: Reallocate_def node_wf_def memcpy_to_def memcpy_from_def result_simps Let_def overwrite_def
      split: if_splits)

lemma MsgNode_assign_wf:
  "node_wf this \<Longrightarrow> node_wf rhs \<Longrightarrow> MsgNode_assign fill same this rhs = Inr n \<Longrightarrow> node_wf n"
  by (auto simp: MsgNode_assign_def node_bytes_def node_wf_def memcpy_to_def memcpy_from_def result_simps
      max_def word_less_nat_alt word_le_nat_alt overwrite_def split: if_splits option.splits)

lemma MsgNode_copy_wf: "node_wf rhs \<Longrightarrow> MsgNode_copy fill rhs = Inr n \<Longrightarrow> node_wf n"
  by (auto simp: MsgNode_copy_def node_wf_def memcpy_to_def result_simps)

lemma MsgNode_Clear_wf: "node_wf (MsgNode_Clear n)"
  by (simp add: MsgNode_Clear_def node_wf_def)

lemma MsgNode_Zero_wf: "node_wf n \<Longrightarrow> node_wf (MsgNode_Zero n)"
  by (simp add: MsgNode_Zero_def node_wf_def split: option.splits)

lemma ResetCurPos_wf: "node_wf n \<Longrightarrow> node_wf (ResetCurPos n)"
  by (simp add: ResetCurPos_def node_wf_def split: option.splits)

lemma SetTagField_wf: "node_wf n \<Longrightarrow> SetTagField e n t = Inr n' \<Longrightarrow> node_wf n'"
  by (auto simp: SetTagField_def node_wf_def WriteNetField32_def memcpy_to_def result_simps split: option.splits)

lemma SetContentLenField_wf: "node_wf n \<Longrightarrow> SetContentLenField e n l = Inr n' \<Longrightarrow> node_wf n'"
  by (auto simp: SetContentLenField_def node_wf_def WriteNetField32_def memcpy_to_def result_simps split: option.splits)

lemma UpdateContentLenField_wf: "node_wf n \<Longrightarrow> UpdateContentLenField e n = Inr (l, n') \<Longrightarrow> node_wf n'"
  by (auto simp: UpdateContentLenField_def node_wf_def result_simps Let_def split: option.splits)

section \<open>Properties\<close>

text \<open>
  The constructor of a message node has exactly these outcomes. An empty message is rejected; a
  length whose sum with the header exceeds 32 bits is undefined behaviour, because the block is
  allocated with the wrapped length; otherwise the node holds the frame of the content.
\<close>

lemma MsgNode_msg_outcomes:
  assumes "unat msg_len \<le> length content"
  shows "MsgNode_msg e fill content msg_len tag =
    (if msg_len = 0 then Inl (Invalid_Argument ''Attempt to create a zero-sized message'')
     else if unat msg_len + 8 < 2 ^ 32
     then Inr \<lparr>node_data = Some (frame tag (take (unat msg_len) content)), node_cur_pos = 0,
               node_ctx_len = msg_len, node_max_len = 8 + msg_len\<rparr>
     else Inl Undefined_Behaviour)"
proof -
  consider "msg_len = 0" | "0 < msg_len" "unat msg_len + 8 < 2 ^ 32" | "0 < msg_len" "2 ^ 32 \<le> unat msg_len + 8"
    by (metis linorder_not_le word_neq_0_conv)
  then show ?thesis
    using assms MsgNode_msg_frame MsgNode_msg_overflow by cases (auto simp: MsgNode_msg_zero)
qed

text \<open>
  C11: a frame built on one host is read back on another, whatever their byte orders: the receiver's
  node that holds it gives the tag, the content length and the content.
\<close>

theorem frame_round_trip:
  assumes "0 < length content" and "length content + 8 < 2 ^ 32"
    and "MsgNode_msg e fill content (of_nat (length content)) tag = Inr n"
    and "node_data m = Some (node_wire n @ rest)"
  shows "GetTagField e' m = Inr tag \<and>
    (\<exists>m'. UpdateContentLenField e' m = Inr (of_nat (length content), m') \<and>
      take (unat (GetContentLen m')) (GetContent m') = content)"
proof -
  have len: "unat (of_nat (length content) :: u32) = length content" using assms(2) by (simp add: unat_of_nat)
  have "n = \<lparr>node_data = Some (frame tag content), node_cur_pos = 0, node_ctx_len = of_nat (length content),
      node_max_len = 8 + of_nat (length content)\<rparr>"
    using assms(1-3) len MsgNode_msg_frame [of "of_nat (length content)" content e fill tag]
    by (simp add: word_less_nat_alt)
  then have d: "node_data m = Some (frame tag content @ rest)" using assms(4) len by (simp add: node_wire_def)
  show ?thesis
    using d len frame_fields [where tag = tag and content = content and rest = rest]
    by (simp add: GetTagField_Some UpdateContentLenField_Some GetContentLen_def GetContent_def)
qed

theorem frame_round_trip_witness:
  "GetTagField Big_Endian \<lparr>node_data = Some (node_wire \<lparr>node_data = Some (frame 3 [104, 105]), node_cur_pos = 0,
      node_ctx_len = 2, node_max_len = 10\<rparr> @ [0]), node_cur_pos = 0, node_ctx_len = 0, node_max_len = 11\<rparr> = Inr 3 \<and>
    (\<exists>m'. UpdateContentLenField Big_Endian \<lparr>node_data = Some (node_wire \<lparr>node_data = Some (frame 3 [104, 105]), node_cur_pos = 0,
      node_ctx_len = 2, node_max_len = 10\<rparr> @ [0]), node_cur_pos = 0, node_ctx_len = 0, node_max_len = 11\<rparr> =
        Inr (of_nat (length [104::byte, 105]), m') \<and> take (unat (GetContentLen m')) (GetContent m') = [104, 105])"
  by (rule frame_round_trip [where e = Little_Endian and fill = "\<lambda>_. 0" and rest = "[0]"])
    (simp_all, subst MsgNode_msg_frame, simp_all)

text \<open>
  C17: every operation on a node keeps the recorded size equal to the size of its block, so that the
  bounds checks the code makes against \<open>max_len_\<close> are bounds of the memory; growing a node always
  succeeds, keeps its bytes and gives at least the size asked for.
\<close>

theorem node_size_invariant:
  assumes "node_wf n" and "node_wf m"
  shows "node_wf (MsgNode_new fill len) \<and> node_wf (MsgNode_Clear n) \<and> node_wf (MsgNode_Zero n) \<and> node_wf (ResetCurPos n) \<and>
    (\<forall>r. MsgNode_msg e fill bs len tag = Inr r \<longrightarrow> node_wf r) \<and>
    (\<forall>r. MsgNode_assign fill same n m = Inr r \<longrightarrow> node_wf r) \<and> (\<forall>r. MsgNode_copy fill n = Inr r \<longrightarrow> node_wf r) \<and>
    (\<forall>r. SetTagField e n tag = Inr r \<longrightarrow> node_wf r) \<and> (\<forall>r. SetContentLenField e n len = Inr r \<longrightarrow> node_wf r) \<and>
    (\<forall>l r. UpdateContentLenField e n = Inr (l, r) \<longrightarrow> node_wf r) \<and>
    (\<exists>r. Reallocate fill n len = Inr r \<and> node_wf r \<and> len \<le> node_max_len r \<and>
      (\<forall>d. node_data n = Some d \<longrightarrow> (\<exists>junk. node_data r = Some (d @ junk))))"
proof -
  obtain r where r: "Reallocate fill n len = Inr r" "node_max_len r = max (node_max_len n) len"
    using Reallocate_total [OF assms(1)] by blast
  then have "node_wf r" "len \<le> node_max_len r" using assms(1) Reallocate_wf by auto
  moreover have "\<exists>junk. node_data r = Some (d @ junk)" if "node_data n = Some d" for d
    using Reallocate_keeps(1) [OF assms(1) that r(1)] .
  ultimately show ?thesis
    using assms r(1) MsgNode_new_wf MsgNode_Clear_wf MsgNode_Zero_wf ResetCurPos_wf MsgNode_msg_wf
      MsgNode_assign_wf MsgNode_copy_wf SetTagField_wf SetContentLenField_wf UpdateContentLenField_wf
    by (intro conjI allI impI exI [of _ r]) blast+
qed

theorem node_size_invariant_witness:
  "let n = \<lparr>node_data = Some [1, 2, 3, 4, 5, 6, 7, 8], node_cur_pos = 0, node_ctx_len = 0, node_max_len = 8\<rparr> in
   node_wf (MsgNode_new (\<lambda>_. 0) 4) \<and> node_wf (MsgNode_Clear n) \<and> node_wf (MsgNode_Zero n) \<and> node_wf (ResetCurPos n) \<and>
    (\<forall>r. MsgNode_msg Little_Endian (\<lambda>_. 0) [7] 4 1 = Inr r \<longrightarrow> node_wf r) \<and>
    (\<forall>r. MsgNode_assign (\<lambda>_. 0) False n n = Inr r \<longrightarrow> node_wf r) \<and> (\<forall>r. MsgNode_copy (\<lambda>_. 0) n = Inr r \<longrightarrow> node_wf r) \<and>
    (\<forall>r. SetTagField Little_Endian n 1 = Inr r \<longrightarrow> node_wf r) \<and> (\<forall>r. SetContentLenField Little_Endian n 4 = Inr r \<longrightarrow> node_wf r) \<and>
    (\<forall>l r. UpdateContentLenField Little_Endian n = Inr (l, r) \<longrightarrow> node_wf r) \<and>
    (\<exists>r. Reallocate (\<lambda>_. 0) n 4 = Inr r \<and> node_wf r \<and> 4 \<le> node_max_len r \<and>
      (\<forall>d. node_data n = Some d \<longrightarrow> (\<exists>junk. node_data r = Some (d @ junk))))"
  unfolding Let_def by (rule node_size_invariant) (simp_all add: node_wf_def)

end
