(* ===== verification/Min_Heap.thy ===== *)
theory Min_Heap
  imports Prelude
begin

text \<open>
  The indexed binary heap \<open>MinHeapImpl\<close> of \<open>src/include/status/load_balancer.hpp\<close>. Its template
  parameters are arguments of every operation: \<open>gid\<close> is \<open>GetID()\<close> of the element a pointer refers
  to and \<open>gt\<close> the comparison object, true when the left element is greater. The lemmas are
  proved in a locale for the named requirement \<open>Compare\<close> (a strict weak order). They show that
  sifting repairs a single defect, that every operation keeps the order and the elements, and
  how the map from ids to slots follows the vector.
\<close>

section \<open>The heap\<close>

record 'p min_heap =
  heap_vec :: "'p list"
  heap_idx :: "u32 \<rightharpoonup> nat"

definition MinHeap_empty :: "'p min_heap" where
  "MinHeap_empty = \<lparr>heap_vec = [], heap_idx = Map.empty\<rparr>"

text \<open>\<open>idx_[k]\<close> of an \<open>unordered_map\<close> creates the entry 0 when \<open>k\<close> is missing.\<close>

definition idx_at :: "(u32 \<rightharpoonup> nat) \<Rightarrow> u32 \<Rightarrow> nat" where
  "idx_at m k = (case m k of None \<Rightarrow> 0 | Some i \<Rightarrow> i)"

definition swap_idx :: "(u32 \<rightharpoonup> nat) \<Rightarrow> u32 \<Rightarrow> u32 \<Rightarrow> (u32 \<rightharpoonup> nat)" where
  "swap_idx m a b = m(a \<mapsto> idx_at m b, b \<mapsto> idx_at m a)"

text \<open>The pair of \<open>std::swap\<close> calls of both sifting loops.\<close>

definition swap_slots :: "('p \<Rightarrow> u32) \<Rightarrow> 'p min_heap \<Rightarrow> nat \<Rightarrow> nat \<Rightarrow> 'p min_heap" where
  "swap_slots gid h i j =
    (let v = list_swap (heap_vec h) i j
     in h\<lparr>heap_vec := v, heap_idx := swap_idx (heap_idx h) (gid (v ! i)) (gid (v ! j))\<rparr>)"

definition heap_parent :: "nat \<Rightarrow> nat" where
  "heap_parent cur = (cur - 1) div 2"

function HeapUp :: "('p \<Rightarrow> u32) \<Rightarrow> ('p \<Rightarrow> 'p \<Rightarrow> bool) \<Rightarrow> 'p min_heap \<Rightarrow> nat \<Rightarrow> 'p min_heap" where
  "HeapUp gid gt h cur =
    (if cur > 0 then
       (let parent = heap_parent cur;
            h' = (if gt (heap_vec h ! parent) (heap_vec h ! cur) then swap_slots gid h parent cur else h)
        in HeapUp gid gt h' parent)
     else h)"
  by pat_completeness auto
termination
  by (relation "measure (\<lambda>(gid, gt, h, cur). cur)") (auto simp: heap_parent_def)

text \<open>The vector's size \<open>tot\<close> is read once, before the loop.\<close>

function HeapDown_loop ::
  "('p \<Rightarrow> u32) \<Rightarrow> ('p \<Rightarrow> 'p \<Rightarrow> bool) \<Rightarrow> nat \<Rightarrow> 'p min_heap \<Rightarrow> nat \<Rightarrow> 'p min_heap" where
  "HeapDown_loop gid gt tot h cur =
    (if cur * 2 + 1 < tot then
       (if cur * 2 + 2 < tot then
          (let c1 = cur * 2 + 1; c2 = cur * 2 + 2 in
           if gt (heap_vec h ! c1) (heap_vec h ! c2) then
             (if gt (heap_vec h ! c2) (heap_vec h ! cur) then h
              else HeapDown_loop gid gt tot (swap_slots gid h c2 cur) c2)
           else
             (if gt (heap_vec h ! c1) (heap_vec h ! cur) then h
              else HeapDown_loop gid gt tot (swap_slots gid h c1 cur) c1))
        else
          (let child = cur * 2 + 1 in
           if gt (heap_vec h ! cur) (heap_vec h ! child) then swap_slots gid h cur child else h))
     else h)"
  by pat_completeness auto
termination
  by (relation "measure (\<lambda>(gid, gt, tot, h, cur). tot - cur)") auto

definition HeapDown :: "('p \<Rightarrow> u32) \<Rightarrow> ('p \<Rightarrow> 'p \<Rightarrow> bool) \<Rightarrow> 'p min_heap \<Rightarrow> nat \<Rightarrow> 'p min_heap" where
  "HeapDown gid gt h cur = HeapDown_loop gid gt (length (heap_vec h)) h cur"

definition InsertOrUpdate ::
  "('p \<Rightarrow> u32) \<Rightarrow> ('p \<Rightarrow> 'p \<Rightarrow> bool) \<Rightarrow> 'p min_heap \<Rightarrow> u32 \<Rightarrow> 'p \<Rightarrow> int \<Rightarrow> 'p min_heap result" where
  "InsertOrUpdate gid gt h sid val hint =
    (case heap_idx h sid of
       Some idx \<Rightarrow>
         guardR (idx < length (heap_vec h)) Undefined_Behaviour
           (let h = h\<lparr>heap_vec := (heap_vec h)[idx := val]\<rparr> in
            if hint < 0 then Inr (HeapUp gid gt h idx)
            else if hint > 0 then Inr (HeapDown gid gt h idx)
            else Inr (HeapDown gid gt (HeapUp gid gt h idx) idx))
     | None \<Rightarrow>
         (let h = h\<lparr>heap_vec := heap_vec h @ [val]\<rparr>;
              h = h\<lparr>heap_idx := (heap_idx h)(sid \<mapsto> length (heap_vec h) - 1)\<rparr>
          in Inr (HeapUp gid gt h (length (heap_vec h) - 1))))"

definition MinHeap_Get :: "'p min_heap \<Rightarrow> 'p result" where
  "MinHeap_Get h =
    (if heap_vec h = [] then Inl (Runtime_Error ''MinHeap is empty'') else Inr (hd (heap_vec h)))"

definition MinHeap_Remove :: "('p \<Rightarrow> u32) \<Rightarrow> ('p \<Rightarrow> 'p \<Rightarrow> bool) \<Rightarrow> 'p min_heap \<Rightarrow> 'p min_heap result" where
  "MinHeap_Remove gid gt h =
    (if heap_vec h = [] then Inl (Runtime_Error ''MinHeap is empty'')
     else
       (let h = h\<lparr>heap_idx := (heap_idx h)(gid (hd (heap_vec h)) := None)\<rparr>;
            h = h\<lparr>heap_vec := (heap_vec h)[0 := last (heap_vec h)]\<rparr>;
            h = (if length (heap_vec h) > 1
                 then h\<lparr>heap_idx := (heap_idx h)(gid (hd (heap_vec h)) \<mapsto> 0)\<rparr> else h);
            h = h\<lparr>heap_vec := butlast (heap_vec h)\<rparr>
        in Inr (if heap_vec h \<noteq> [] then HeapDown gid gt h 0 else h)))"

definition AnyRemove :: "('p \<Rightarrow> u32) \<Rightarrow> ('p \<Rightarrow> 'p \<Rightarrow> bool) \<Rightarrow> 'p min_heap \<Rightarrow> u32 \<Rightarrow> 'p min_heap result" where
  "AnyRemove gid gt h by_id =
    (case heap_idx h by_id of
       None \<Rightarrow> Inl (Runtime_Error ''Element not found'')
     | Some idx \<Rightarrow>
         if heap_vec h = [] then Inl (Runtime_Error ''MinHeap is empty'')
         else guardR (idx < length (heap_vec h)) Undefined_Behaviour
           (let h = h\<lparr>heap_idx := (heap_idx h)(by_id := None)\<rparr>;
                h = h\<lparr>heap_vec := (heap_vec h)[idx := last (heap_vec h)]\<rparr>;
                h = (if length (heap_vec h) > 1
                     then h\<lparr>heap_idx := (heap_idx h)(gid (last (heap_vec h)) \<mapsto> idx)\<rparr> else h);
                h = h\<lparr>heap_vec := butlast (heap_vec h)\<rparr>
            in Inr (if idx < length (heap_vec h)
                    then HeapDown gid gt (HeapUp gid gt h idx) idx else h)))"

definition MinHeap_Empty :: "'p min_heap \<Rightarrow> bool" where
  "MinHeap_Empty h = (heap_vec h = [])"

definition MinHeap_Size :: "'p min_heap \<Rightarrow> nat" where
  "MinHeap_Size h = length (heap_vec h)"

definition MinHeap_Expose :: "'p min_heap \<Rightarrow> 'p list" where
  "MinHeap_Expose h = heap_vec h"

section \<open>Invariants\<close>

text \<open>No element is smaller than the element of the slot above it.\<close>

definition is_heap :: "('p \<Rightarrow> 'p \<Rightarrow> bool) \<Rightarrow> 'p list \<Rightarrow> bool" where
  "is_heap gt v = list_all (\<lambda>i. \<not> gt (v ! heap_parent i) (v ! i)) [1..<length v]"

text \<open>
  The map gives the slot of every element of the vector; it is exact when it holds no other ids.
  The two are separate because \<open>AnyRemove\<close> keeps only the first.
\<close>

definition idx_ok :: "('p \<Rightarrow> u32) \<Rightarrow> 'p min_heap \<Rightarrow> bool" where
  "idx_ok gid h = (\<forall>i<length (heap_vec h). heap_idx h (gid (heap_vec h ! i)) = Some i)"

definition idx_exact :: "('p \<Rightarrow> u32) \<Rightarrow> 'p min_heap \<Rightarrow> bool" where
  "idx_exact gid h = (dom (heap_idx h) = gid ` set (heap_vec h))"

definition heap_ok :: "('p \<Rightarrow> u32) \<Rightarrow> ('p \<Rightarrow> 'p \<Rightarrow> bool) \<Rightarrow> 'p min_heap \<Rightarrow> bool" where
  "heap_ok gid gt h = (is_heap gt (heap_vec h) \<and> idx_ok gid h)"

text \<open>
  A vector with one element out of place at \<open>k\<close>: the edges that do not touch \<open>k\<close> are in order, and
  so are the elements above and below \<open>k\<close>.
\<close>

definition defect_at :: "('p \<Rightarrow> 'p \<Rightarrow> bool) \<Rightarrow> 'p list \<Rightarrow> nat \<Rightarrow> bool" where
  "defect_at gt v k =
    ((\<forall>i. 0 < i \<longrightarrow> i < length v \<longrightarrow> i \<noteq> k \<longrightarrow> heap_parent i \<noteq> k \<longrightarrow> \<not> gt (v ! heap_parent i) (v ! i)) \<and>
     (\<forall>i. 0 < i \<longrightarrow> i < length v \<longrightarrow> heap_parent i = k \<longrightarrow> 0 < k \<longrightarrow> \<not> gt (v ! heap_parent k) (v ! i)))"

text \<open>The defect is only with the slot above (it can rise), or only with the slots below (it can sink).\<close>

definition up_defect :: "('p \<Rightarrow> 'p \<Rightarrow> bool) \<Rightarrow> 'p list \<Rightarrow> nat \<Rightarrow> bool" where
  "up_defect gt v k = (defect_at gt v k \<and>
    (\<forall>i. 0 < i \<longrightarrow> i < length v \<longrightarrow> heap_parent i = k \<longrightarrow> \<not> gt (v ! k) (v ! i)))"

definition down_defect :: "('p \<Rightarrow> 'p \<Rightarrow> bool) \<Rightarrow> 'p list \<Rightarrow> nat \<Rightarrow> bool" where
  "down_defect gt v k = (defect_at gt v k \<and> (0 < k \<longrightarrow> \<not> gt (v ! heap_parent k) (v ! k)))"


declare HeapUp.simps [simp del] HeapDown_loop.simps [simp del]

section \<open>Slots, parents and swaps\<close>

lemma heap_parent_less: "0 < i \<Longrightarrow> heap_parent i < i"
  by (auto simp: heap_parent_def)

lemma heap_parent_child: "0 < i \<Longrightarrow> heap_parent i = k \<longleftrightarrow> i = k * 2 + 1 \<or> i = k * 2 + 2"
  by (auto simp: heap_parent_def)

lemma heap_parent_children [simp]:
  "heap_parent (k * 2 + 1) = k" "heap_parent (k * 2 + 2) = k"
  "heap_parent (Suc (k * 2)) = k" "heap_parent (Suc (Suc (k * 2))) = k"
  by (simp_all add: heap_parent_def)

lemma is_heap_iff: "is_heap gt v \<longleftrightarrow> (\<forall>i. 0 < i \<longrightarrow> i < length v \<longrightarrow> \<not> gt (v ! heap_parent i) (v ! i))"
  by (auto simp: is_heap_def list_all_iff)

lemma heap_vec_swap_slots [simp]: "heap_vec (swap_slots gid h i j) = list_swap (heap_vec h) i j"
  by (simp add: swap_slots_def Let_def)

lemma idx_ok_inj:
  assumes "idx_ok gid h" and "i < length (heap_vec h)" and "j < length (heap_vec h)"
    and "gid (heap_vec h ! i) = gid (heap_vec h ! j)"
  shows "i = j"
  using assms unfolding idx_ok_def by (metis option.inject)

lemma idx_ok_distinct:
  assumes "idx_ok gid h"
  shows "distinct (map gid (heap_vec h))" and "distinct (heap_vec h)"
proof -
  show "distinct (map gid (heap_vec h))"
    using idx_ok_inj [OF assms] by (auto simp: distinct_conv_nth)
  then show "distinct (heap_vec h)" by (simp add: distinct_map)
qed

lemma idx_ok_dom: "idx_ok gid h \<Longrightarrow> gid ` set (heap_vec h) \<subseteq> dom (heap_idx h)"
  unfolding idx_ok_def by (auto simp: in_set_conv_nth)

lemma swap_slots_idx_ok:
  assumes ok: "idx_ok gid h" and i: "i < length (heap_vec h)" and j: "j < length (heap_vec h)"
  shows "idx_ok gid (swap_slots gid h i j)"
proof -
  let ?v = "heap_vec h" and ?m = "heap_idx h"
  have at: "list_swap ?v i j ! i = ?v ! j" "list_swap ?v i j ! j = ?v ! i"
    using i j by (auto simp: nth_list_swap)
  have m: "?m (gid (?v ! i)) = Some i" "?m (gid (?v ! j)) = Some j"
    using ok i j by (auto simp: idx_ok_def)
  show ?thesis
    unfolding idx_ok_def
  proof (intro allI impI)
    fix k assume "k < length (heap_vec (swap_slots gid h i j))"
    then show "heap_idx (swap_slots gid h i j) (gid (heap_vec (swap_slots gid h i j) ! k)) = Some k"
      using i j ok idx_ok_inj [OF ok, of k i] idx_ok_inj [OF ok, of k j]
      by (auto simp: swap_slots_def Let_def at swap_idx_def idx_at_def m nth_list_swap idx_ok_def)
  qed
qed

lemma swap_slots_dom:
  assumes "idx_ok gid h" and "i < length (heap_vec h)" and "j < length (heap_vec h)"
  shows "dom (heap_idx (swap_slots gid h i j)) = dom (heap_idx h)"
  using assms by (auto simp: swap_slots_def Let_def swap_idx_def nth_list_swap idx_ok_def)

section \<open>What sifting keeps\<close>

lemma HeapUp_length [simp]: "length (heap_vec (HeapUp gid gt h k)) = length (heap_vec h)"
proof (induction gid gt h k rule: HeapUp.induct)
  case (1 gid gt h cur)
  then show ?case by (subst HeapUp.simps) (simp add: Let_def)
qed

lemma HeapUp_mset: "k < length (heap_vec h) \<Longrightarrow> mset (heap_vec (HeapUp gid gt h k)) = mset (heap_vec h)"
proof (induction gid gt h k rule: HeapUp.induct)
  case (1 gid gt h cur)
  then show ?case
    using heap_parent_less [of cur] by (subst HeapUp.simps) (auto simp: Let_def)
qed

lemma HeapUp_idx_ok: "idx_ok gid h \<Longrightarrow> k < length (heap_vec h) \<Longrightarrow> idx_ok gid (HeapUp gid gt h k)"
proof (induction gid gt h k rule: HeapUp.induct)
  case (1 gid gt h cur)
  then show ?case
    using heap_parent_less [of cur] by (subst HeapUp.simps) (auto simp: Let_def swap_slots_idx_ok)
qed

lemma HeapUp_dom:
  "idx_ok gid h \<Longrightarrow> k < length (heap_vec h) \<Longrightarrow> dom (heap_idx (HeapUp gid gt h k)) = dom (heap_idx h)"
proof (induction gid gt h k rule: HeapUp.induct)
  case (1 gid gt h cur)
  show ?case
  proof (cases "0 < cur")
    case True
    with 1 heap_parent_less [of cur] show ?thesis
      by (subst HeapUp.simps) (simp add: Let_def swap_slots_idx_ok swap_slots_dom)
  next
    case False
    then show ?thesis by (subst HeapUp.simps) simp
  qed
qed

lemma HeapDown_loop_keeps:
  assumes "tot = length (heap_vec h)" and "k < tot"
  shows "length (heap_vec (HeapDown_loop gid gt tot h k)) = length (heap_vec h)"
    and "mset (heap_vec (HeapDown_loop gid gt tot h k)) = mset (heap_vec h)"
    and "idx_ok gid h \<Longrightarrow> idx_ok gid (HeapDown_loop gid gt tot h k)"
    and "idx_ok gid h \<Longrightarrow> dom (heap_idx (HeapDown_loop gid gt tot h k)) = dom (heap_idx h)"
  using assms
proof (induction gid gt tot h k rule: HeapDown_loop.induct)
  case (1 gid gt tot h cur)
  { case 1 with "1.IH"(1,5) show ?case by (subst HeapDown_loop.simps) (auto simp: Let_def) }
  { case 2 with "1.IH"(2,6) show ?case by (subst HeapDown_loop.simps) (auto simp: Let_def) }
  { case 3 with "1.IH"(3,7) show ?case by (subst HeapDown_loop.simps) (simp add: Let_def swap_slots_idx_ok) }
  { case 4 with "1.IH"(4,8) show ?case
      by (subst HeapDown_loop.simps) (simp add: Let_def swap_slots_idx_ok swap_slots_dom) }
qed

lemma HeapDown_keeps:
  assumes "k < length (heap_vec h)"
  shows "length (heap_vec (HeapDown gid gt h k)) = length (heap_vec h)"
    and "mset (heap_vec (HeapDown gid gt h k)) = mset (heap_vec h)"
    and "idx_ok gid h \<Longrightarrow> idx_ok gid (HeapDown gid gt h k)"
    and "idx_ok gid h \<Longrightarrow> dom (heap_idx (HeapDown gid gt h k)) = dom (heap_idx h)"
  using HeapDown_loop_keeps [OF refl assms] by (simp_all add: HeapDown_def)

section \<open>Sifting repairs a defect\<close>

locale heap_order =
  fixes gt :: "'p \<Rightarrow> 'p \<Rightarrow> bool"
  assumes gt_asym: "gt x y \<Longrightarrow> \<not> gt y x"
    and not_gt_trans: "\<not> gt x y \<Longrightarrow> \<not> gt y z \<Longrightarrow> \<not> gt x z"
begin

lemma gt_irrefl [simp]: "\<not> gt x x"
  using gt_asym by blast

lemma root_minimal:
  assumes "is_heap gt v" and "i < length v"
  shows "\<not> gt (v ! 0) (v ! i)"
  using assms(2)
proof (induction i rule: less_induct)
  case (less i)
  show ?case
  proof (cases "i = 0")
    case False
    then have "\<not> gt (v ! 0) (v ! heap_parent i)"
      using less heap_parent_less [of i] by simp
    moreover have "\<not> gt (v ! heap_parent i) (v ! i)"
      using assms(1) False less.prems by (simp add: is_heap_iff)
    ultimately show ?thesis by (rule not_gt_trans)
  qed simp
qed

lemma HeapUp_id:
  assumes "\<And>i. 0 < i \<Longrightarrow> i \<le> k \<Longrightarrow> \<not> gt (heap_vec h ! heap_parent i) (heap_vec h ! i)"
  shows "HeapUp gid gt h k = h"
  using assms
proof (induction k rule: less_induct)
  case (less k)
  then show ?case
    using heap_parent_less [of k] by (subst HeapUp.simps) (simp add: Let_def)
qed

lemma up_defect_swap:
  assumes d: "up_defect gt v k" and k: "0 < k" "k < length v" and gt: "gt (v ! heap_parent k) (v ! k)"
  shows "up_defect gt (list_swap v (heap_parent k) k) (heap_parent k)"
proof -
  let ?p = "heap_parent k"
  have p: "?p < k" using k(1) by (rule heap_parent_less)
  note nth = nth_list_swap [of ?p v k] and g = gt_asym [OF gt]
  have edge: "\<not> gt (v ! heap_parent i) (v ! i)" if "0 < i" "i < length v" "i \<noteq> k" for i
    using d that unfolding up_defect_def defect_at_def by metis
  have under: "\<not> gt (v ! ?p) (v ! i)" if "0 < i" "i < length v" "heap_parent i = k" for i
    using d that k unfolding up_defect_def defect_at_def by metis
  have mid: "\<not> gt (v ! k) (v ! i)" if "0 < i" "i < length v" "i \<noteq> k" "heap_parent i = ?p" for i
    using not_gt_trans [OF g, of "v ! i"] edge [of i] that by simp
  show ?thesis
    unfolding up_defect_def defect_at_def
  proof (intro conjI allI impI)
    fix i assume i: "0 < i" "i < length (list_swap v ?p k)" "i \<noteq> ?p" "heap_parent i \<noteq> ?p"
    then show "\<not> gt (list_swap v ?p k ! heap_parent i) (list_swap v ?p k ! i)"
      using p k heap_parent_less [of i] edge [of i] under [of i] by (auto simp: nth)
  next
    fix i assume i: "0 < i" "i < length (list_swap v ?p k)" "heap_parent i = ?p" "0 < ?p"
    have "\<not> gt (v ! heap_parent ?p) (v ! ?p)" using edge [of ?p] i p k by simp
    then show "\<not> gt (list_swap v ?p k ! heap_parent ?p) (list_swap v ?p k ! i)"
      using p k i heap_parent_less [of ?p] edge [of i] not_gt_trans by (auto simp: nth)
  next
    fix i assume i: "0 < i" "i < length (list_swap v ?p k)" "heap_parent i = ?p"
    then show "\<not> gt (list_swap v ?p k ! ?p) (list_swap v ?p k ! i)"
      using p k mid [of i] g by (auto simp: nth)
  qed
qed

lemma up_defect_done:
  assumes "up_defect gt v k" and "0 < k \<Longrightarrow> \<not> gt (v ! heap_parent k) (v ! k)"
  shows "is_heap gt v"
  using assms unfolding is_heap_iff up_defect_def defect_at_def by metis

lemma HeapUp_repairs:
  assumes "up_defect gt (heap_vec h) k" and "k < length (heap_vec h)"
  shows "is_heap gt (heap_vec (HeapUp gid gt h k))"
  using assms
proof (induction k arbitrary: h rule: less_induct)
  case (less k)
  show ?case
  proof (cases "0 < k \<and> gt (heap_vec h ! heap_parent k) (heap_vec h ! k)")
    case True
    then have "HeapUp gid gt h k = HeapUp gid gt (swap_slots gid h (heap_parent k) k) (heap_parent k)"
      by (subst HeapUp.simps) (simp add: Let_def)
    with True less.prems show ?thesis
      using heap_parent_less [of k]
      by (simp add: less.IH up_defect_swap)
  next
    case False
    then have heap: "is_heap gt (heap_vec h)" using up_defect_done less.prems(1) by blast
    moreover from heap have "HeapUp gid gt h k = h"
      using less.prems(2) by (intro HeapUp_id) (simp add: is_heap_iff)
    ultimately show ?thesis by simp
  qed
qed

lemma down_defect_swap:
  assumes d: "down_defect gt v k" and c: "0 < c" "c < length v" "heap_parent c = k"
    and least: "\<And>i. 0 < i \<Longrightarrow> i < length v \<Longrightarrow> heap_parent i = k \<Longrightarrow> \<not> gt (v ! c) (v ! i)"
    and le: "\<not> gt (v ! c) (v ! k)"
  shows "down_defect gt (list_swap v c k) c"
proof -
  have k: "k < c" "k < length v" using c heap_parent_less [of c] by auto
  note nth = nth_list_swap [of c v k]
  have edge: "\<not> gt (v ! heap_parent i) (v ! i)" if "0 < i" "i < length v" "heap_parent i \<noteq> k" for i
    using d that unfolding down_defect_def defect_at_def by metis
  have above: "\<not> gt (v ! heap_parent k) (v ! c)" if "0 < k"
    using d c that unfolding down_defect_def defect_at_def by metis
  show ?thesis
    unfolding down_defect_def defect_at_def
  proof (intro conjI allI impI)
    fix i assume i: "0 < i" "i < length (list_swap v c k)" "i \<noteq> c" "heap_parent i \<noteq> c"
    then show "\<not> gt (list_swap v c k ! heap_parent i) (list_swap v c k ! i)"
      using c k heap_parent_less [of i] edge [of i] least [of i] above by (auto simp: nth)
  next
    fix i assume i: "0 < i" "i < length (list_swap v c k)" "heap_parent i = c" "0 < c"
    then have "\<not> gt (v ! c) (v ! i)" using edge [of i] k by simp
    then show "\<not> gt (list_swap v c k ! heap_parent c) (list_swap v c k ! i)"
      using c k i heap_parent_less [of i] by (auto simp: nth)
  next
    show "\<not> gt (list_swap v c k ! heap_parent c) (list_swap v c k ! c)"
      using c k le by (simp add: nth)
  qed
qed

lemma down_defect_done:
  assumes "down_defect gt v k"
    and "\<And>i. 0 < i \<Longrightarrow> i < length v \<Longrightarrow> heap_parent i = k \<Longrightarrow> \<not> gt (v ! k) (v ! i)"
  shows "is_heap gt v"
  using assms unfolding is_heap_iff down_defect_def defect_at_def by metis

lemma down_defect_children_done:
  assumes "down_defect gt v k"
    and "k * 2 + 1 < length v \<Longrightarrow> \<not> gt (v ! k) (v ! (k * 2 + 1))"
    and "k * 2 + 2 < length v \<Longrightarrow> \<not> gt (v ! k) (v ! (k * 2 + 2))"
  shows "is_heap gt v"
proof (rule down_defect_done [OF assms(1)])
  fix i assume "0 < i" "i < length v" "heap_parent i = k"
  then show "\<not> gt (v ! k) (v ! i)"
    using assms(2,3) by (auto simp: heap_parent_child)
qed

lemma down_defect_children_swap:
  assumes "down_defect gt v k" and "c = k * 2 + 1 \<or> c = k * 2 + 2" and "c < length v"
    and "k * 2 + 1 < length v \<Longrightarrow> \<not> gt (v ! c) (v ! (k * 2 + 1))"
    and "k * 2 + 2 < length v \<Longrightarrow> \<not> gt (v ! c) (v ! (k * 2 + 2))"
    and "\<not> gt (v ! c) (v ! k)"
  shows "down_defect gt (list_swap v c k) c"
proof (rule down_defect_swap [OF assms(1)])
  show "0 < c" "heap_parent c = k" using assms(2) by auto
  fix i assume "0 < i" "i < length v" "heap_parent i = k"
  then show "\<not> gt (v ! c) (v ! i)"
    using assms(4,5) by (auto simp: heap_parent_child)
qed (use assms in auto)

text \<open>One iteration of the loop ends with a heap or moves the defect one slot down.\<close>

lemma HeapDown_iteration_one:
  assumes d: "down_defect gt (heap_vec h) k" and tot: "tot = length (heap_vec h)"
    and "k * 2 + 1 < tot" and "tot \<le> k * 2 + 2"
  shows "is_heap gt (heap_vec (HeapDown_loop gid gt tot h k))"
proof (cases "gt (heap_vec h ! k) (heap_vec h ! (k * 2 + 1))")
  case True
  have "down_defect gt (list_swap (heap_vec h) (k * 2 + 1) k) (k * 2 + 1)"
    using assms gt_asym [OF True] by (intro down_defect_children_swap) auto
  then have "is_heap gt (list_swap (heap_vec h) (k * 2 + 1) k)"
    using assms by (rule_tac down_defect_children_done) auto
  moreover have "list_swap (heap_vec h) (k * 2 + 1) k = list_swap (heap_vec h) k (k * 2 + 1)"
    by (auto simp: list_swap_def list_update_swap)
  ultimately show ?thesis
    using assms True by (subst HeapDown_loop.simps) (simp add: Let_def)
next
  case False
  then have "is_heap gt (heap_vec h)"
    using assms by (intro down_defect_children_done [OF d]) auto
  then show ?thesis using assms False by (subst HeapDown_loop.simps) (simp add: Let_def)
qed

lemma HeapDown_iteration_two:
  assumes d: "down_defect gt (heap_vec h) k" and tot: "tot = length (heap_vec h)" and two: "k * 2 + 2 < tot"
    and least: "c = (if gt (heap_vec h ! (k * 2 + 1)) (heap_vec h ! (k * 2 + 2)) then k * 2 + 2 else k * 2 + 1)"
  shows "if gt (heap_vec h ! c) (heap_vec h ! k) then is_heap gt (heap_vec (HeapDown_loop gid gt tot h k))
    else down_defect gt (list_swap (heap_vec h) c k) c \<and>
      HeapDown_loop gid gt tot h k = HeapDown_loop gid gt tot (swap_slots gid h c k) c"
proof -
  let ?v = "heap_vec h"
  have le: "\<not> gt (?v ! c) (?v ! (k * 2 + 1))" "\<not> gt (?v ! c) (?v ! (k * 2 + 2))"
    using least by (auto dest: gt_asym)
  show ?thesis
  proof (cases "gt (?v ! c) (?v ! k)")
    case True
    have "is_heap gt ?v"
      using not_gt_trans [OF gt_asym [OF True] le(1)] not_gt_trans [OF gt_asym [OF True] le(2)]
      by (intro down_defect_children_done [OF d])
    moreover have "HeapDown_loop gid gt tot h k = h"
      using two True least by (subst HeapDown_loop.simps) (auto simp: Let_def)
    ultimately show ?thesis using True by simp
  next
    case False
    have "down_defect gt (list_swap ?v c k) c"
      using two tot least False le by (intro down_defect_children_swap [OF d]) auto
    moreover have "HeapDown_loop gid gt tot h k = HeapDown_loop gid gt tot (swap_slots gid h c k) c"
      using two False least by (subst HeapDown_loop.simps) (auto simp: Let_def)
    ultimately show ?thesis using False by simp
  qed
qed

lemma HeapDown_loop_repairs:
  assumes "down_defect gt (heap_vec h) k" and "tot = length (heap_vec h)" and "k < tot"
  shows "is_heap gt (heap_vec (HeapDown_loop gid gt tot h k))"
  using assms
proof (induction "tot - k" arbitrary: h k rule: less_induct)
  case less
  consider (leaf) "tot \<le> k * 2 + 1" | (one) "k * 2 + 1 < tot" "tot \<le> k * 2 + 2" | (two) "k * 2 + 2 < tot"
    by linarith
  then show ?case
  proof cases
    case leaf
    then show ?thesis
      using less.prems down_defect_children_done [of "heap_vec h" k] by (subst HeapDown_loop.simps) auto
  next
    case one
    then show ?thesis using less.prems HeapDown_iteration_one by blast
  next
    case two
    define c where "c = (if gt (heap_vec h ! (k * 2 + 1)) (heap_vec h ! (k * 2 + 2)) then k * 2 + 2 else k * 2 + 1)"
    note step = HeapDown_iteration_two [OF less.prems(1,2) two c_def, of gid]
    have c: "k < c" "c < tot" using two by (auto simp: c_def)
    show ?thesis
    proof (cases "gt (heap_vec h ! c) (heap_vec h ! k)")
      case True
      then show ?thesis using step by simp
    next
      case False
      then show ?thesis
        using step c less.prems less.hyps [of c "swap_slots gid h c k"] by simp
    qed
  qed
qed

lemma HeapDown_repairs:
  "down_defect gt (heap_vec h) k \<Longrightarrow> k < length (heap_vec h) \<Longrightarrow> is_heap gt (heap_vec (HeapDown gid gt h k))"
  by (simp add: HeapDown_def HeapDown_loop_repairs)

lemma is_heap_down_defect: "is_heap gt v \<Longrightarrow> k < length v \<Longrightarrow> down_defect gt v k"
  unfolding is_heap_iff down_defect_def defect_at_def
  using heap_parent_less not_gt_trans by metis

lemma is_heap_defect_at:
  assumes heap: "is_heap gt v" and k: "k < length v"
  shows "defect_at gt (v[k := x]) k"
  unfolding defect_at_def
proof (intro conjI allI impI)
  fix i assume "0 < i" "i < length (v[k := x])" "i \<noteq> k" "heap_parent i \<noteq> k"
  then show "\<not> gt (v[k := x] ! heap_parent i) (v[k := x] ! i)"
    using heap by (simp add: is_heap_iff)
next
  fix i assume i: "0 < i" "i < length (v[k := x])" "heap_parent i = k" "0 < k"
  have "\<not> gt (v ! heap_parent k) (v ! k)" "\<not> gt (v ! k) (v ! i)"
    using heap i k by (auto simp: is_heap_iff)
  then have "\<not> gt (v ! heap_parent k) (v ! i)" by (rule not_gt_trans)
  moreover have "heap_parent k \<noteq> k" "i \<noteq> k"
    using i heap_parent_less [of i] heap_parent_less [of k] by auto
  ultimately show "\<not> gt (v[k := x] ! heap_parent k) (v[k := x] ! i)" by simp
qed

lemma HeapUp_HeapDown_repairs:
  assumes d: "defect_at gt (heap_vec h) k" and k: "k < length (heap_vec h)"
  shows "is_heap gt (heap_vec (HeapDown gid gt (HeapUp gid gt h k) k))"
proof (cases "0 < k \<and> gt (heap_vec h ! heap_parent k) (heap_vec h ! k)")
  case True
  have "up_defect gt (heap_vec h) k"
    using True d not_gt_trans [OF gt_asym] unfolding up_defect_def defect_at_def by blast
  then have "is_heap gt (heap_vec (HeapUp gid gt h k))" using k by (rule HeapUp_repairs)
  then show ?thesis using k by (simp add: HeapDown_repairs is_heap_down_defect)
next
  case False
  then have down: "down_defect gt (heap_vec h) k" using d by (auto simp: down_defect_def)
  have "HeapUp gid gt h k = h"
  proof (rule HeapUp_id)
    fix i assume i: "0 < i" "i \<le> k"
    then have "heap_parent i \<noteq> k" using heap_parent_less [of i] by simp
    then show "\<not> gt (heap_vec h ! heap_parent i) (heap_vec h ! i)"
      using down i k unfolding down_defect_def defect_at_def by (cases "i = k") auto
  qed
  then show ?thesis using down k by (simp add: HeapDown_repairs)
qed

end

lemma defect_at_butlast:
  assumes d: "defect_at gt v k" and k: "k < length v - 1"
  shows "defect_at gt (butlast v) k"
  unfolding defect_at_def
proof (intro conjI allI impI)
  fix i assume i: "0 < i" "i < length (butlast v)" "i \<noteq> k" "heap_parent i \<noteq> k"
  then show "\<not> gt (butlast v ! heap_parent i) (butlast v ! i)"
    using d heap_parent_less [of i] by (simp add: defect_at_def nth_butlast)
next
  fix i assume i: "0 < i" "i < length (butlast v)" "heap_parent i = k" "0 < k"
  then show "\<not> gt (butlast v ! heap_parent k) (butlast v ! i)"
    using d k heap_parent_less [of k] by (simp add: defect_at_def nth_butlast)
qed

section \<open>The operations\<close>

lemma up_defect_push:
  assumes "is_heap gt v"
  shows "up_defect gt (v @ [x]) (length v)"
proof -
  have below: "heap_parent i < length v" if "0 < i" "i < length (v @ [x])" for i
    using that heap_parent_less [of i] by simp
  have no_child: False if "0 < i" "i < length (v @ [x])" "heap_parent i = length v" for i
    using below [OF that(1,2)] that(3) by simp
  have "\<not> gt ((v @ [x]) ! heap_parent i) ((v @ [x]) ! i)"
    if "0 < i" "i < length (v @ [x])" "i \<noteq> length v" for i
    using assms that below [of i] by (simp add: is_heap_iff nth_append)
  with no_child show ?thesis
    unfolding up_defect_def defect_at_def by blast
qed

lemma is_heap_butlast:
  assumes "is_heap gt v"
  shows "is_heap gt (butlast v)"
  unfolding is_heap_iff
proof (intro allI impI)
  fix i assume "0 < i" "i < length (butlast v)"
  then show "\<not> gt (butlast v ! heap_parent i) (butlast v ! i)"
    using assms heap_parent_less [of i] by (simp add: is_heap_iff nth_butlast)
qed

lemma idx_ok_push:
  assumes "idx_ok gid h" and "heap_idx h sid = None" and "gid val = sid"
  shows "idx_ok gid \<lparr>heap_vec = heap_vec h @ [val], heap_idx = (heap_idx h)(sid \<mapsto> length (heap_vec h))\<rparr>"
proof -
  have "gid (heap_vec h ! i) \<noteq> sid" if "i < length (heap_vec h)" for i
    using assms that unfolding idx_ok_def by (metis option.distinct(1))
  then show ?thesis
    using assms by (auto simp: idx_ok_def nth_append less_Suc_eq)
qed

lemma idx_ok_update:
  "idx_ok gid h \<Longrightarrow> heap_idx h sid = Some i \<Longrightarrow> i < length (heap_vec h) \<Longrightarrow> gid val = sid \<Longrightarrow>
    idx_ok gid (h\<lparr>heap_vec := (heap_vec h)[i := val]\<rparr>)"
  by (auto simp: idx_ok_def nth_list_update)

text \<open>Moving the last element into slot \<open>i\<close> and dropping the last slot.\<close>

lemma last_move_last: "i < length v \<Longrightarrow> last (v[i := last v]) = last v"
  by (cases v rule: rev_cases) (auto simp: list_update_append)

lemma nth_move_last:
  "j < length v - 1 \<Longrightarrow> butlast (v[i := last v]) ! j = (if j = i then last v else v ! j)"
  by (auto simp: nth_butlast nth_list_update)

lemma mset_move_last:
  assumes "i < length v"
  shows "mset (butlast (v[i := last v])) = mset v - {#v ! i#}"
proof -
  have ne: "v[i := last v] \<noteq> []" using assms by auto
  have last: "last (v[i := last v]) = last v" using assms by (rule last_move_last)
  have "add_mset (last v) (mset (butlast (v[i := last v]))) = mset (v[i := last v])"
    using append_butlast_last_id [OF ne] last
    by (metis add_mset_add_single mset.simps(1) mset.simps(2) mset_append)
  also have "\<dots> = add_mset (last v) (mset v - {#v ! i#})" using assms by (simp add: mset_update)
  finally show ?thesis by simp
qed

lemma idx_ok_move_last:
  assumes ok: "idx_ok gid h" and i: "i < length (heap_vec h) - 1" and sid: "gid (heap_vec h ! i) = sid"
  shows "idx_ok gid \<lparr>heap_vec = butlast ((heap_vec h)[i := last (heap_vec h)]),
    heap_idx = (heap_idx h)(sid := None, gid (last (heap_vec h)) \<mapsto> i)\<rparr>"
proof -
  let ?v = "heap_vec h"
  have ne: "?v \<noteq> []" using i by auto
  have last: "last ?v = ?v ! (length ?v - 1)" using ne by (rule last_conv_nth)
  have "gid (?v ! j) \<noteq> gid (last ?v)" "gid (?v ! j) = sid \<Longrightarrow> j = i" if "j < length ?v - 1" for j
    using idx_ok_inj [OF ok, of j "length ?v - 1"] idx_ok_inj [OF ok, of j i] that i sid ne by (auto simp: last)
  then show ?thesis
    using ok by (auto simp: idx_ok_def nth_move_last)
qed

context heap_order
begin

lemma InsertOrUpdate_new:
  assumes ok: "heap_ok gid gt h" and new: "heap_idx h sid = None" and val: "gid val = sid"
  shows "\<exists>h'. InsertOrUpdate gid gt h sid val hint = Inr h' \<and> heap_ok gid gt h' \<and>
    mset (heap_vec h') = add_mset val (mset (heap_vec h)) \<and> dom (heap_idx h') = insert sid (dom (heap_idx h))"
proof -
  let ?h = "\<lparr>heap_vec = heap_vec h @ [val], heap_idx = (heap_idx h)(sid \<mapsto> length (heap_vec h))\<rparr>"
  have "InsertOrUpdate gid gt h sid val hint = Inr (HeapUp gid gt ?h (length (heap_vec h)))"
    using new by (cases h) (simp add: InsertOrUpdate_def Let_def)
  moreover have "up_defect gt (heap_vec ?h) (length (heap_vec h))"
    using ok by (simp add: heap_ok_def up_defect_push)
  then have "is_heap gt (heap_vec (HeapUp gid gt ?h (length (heap_vec h))))"
    by (rule HeapUp_repairs) simp
  moreover have "idx_ok gid ?h" using ok new val by (auto simp: heap_ok_def intro: idx_ok_push)
  ultimately show ?thesis
    by (simp add: heap_ok_def HeapUp_idx_ok HeapUp_mset HeapUp_dom)
qed

lemma InsertOrUpdate_known:
  assumes idx: "idx_ok gid h" and i: "heap_idx h sid = Some i" and len: "i < length (heap_vec h)"
    and val: "gid val = sid"
    and up: "hint < 0 \<Longrightarrow> up_defect gt ((heap_vec h)[i := val]) i"
    and down: "0 < hint \<Longrightarrow> down_defect gt ((heap_vec h)[i := val]) i"
    and both: "hint = 0 \<Longrightarrow> defect_at gt ((heap_vec h)[i := val]) i"
  shows "\<exists>h'. InsertOrUpdate gid gt h sid val hint = Inr h' \<and> heap_ok gid gt h' \<and>
    mset (heap_vec h') = mset ((heap_vec h)[i := val]) \<and> dom (heap_idx h') = dom (heap_idx h)"
proof -
  let ?h = "h\<lparr>heap_vec := (heap_vec h)[i := val]\<rparr>"
  have ok: "idx_ok gid ?h" using idx i len val by (rule idx_ok_update)
  consider "hint < 0" | "0 < hint" | "hint = 0" by linarith
  then show ?thesis
  proof cases
    case 1
    then show ?thesis
      using i len ok up HeapUp_repairs [of ?h i gid]
      by (auto simp: InsertOrUpdate_def Let_def heap_ok_def HeapUp_idx_ok HeapUp_mset HeapUp_dom)
  next
    case 2
    then show ?thesis
      using i len ok down HeapDown_repairs [of ?h i gid]
      by (auto simp: InsertOrUpdate_def Let_def heap_ok_def HeapDown_keeps)
  next
    case 3
    then show ?thesis
      using i len ok both HeapUp_HeapDown_repairs [of ?h i gid]
      by (auto simp: InsertOrUpdate_def Let_def heap_ok_def HeapDown_keeps HeapUp_idx_ok HeapUp_mset HeapUp_dom)
  qed
qed

lemma MinHeap_Get_least:
  assumes "heap_ok gid gt h" and "heap_vec h \<noteq> []"
  shows "MinHeap_Get h = Inr (hd (heap_vec h))" and "q \<in> set (heap_vec h) \<Longrightarrow> \<not> gt (hd (heap_vec h)) q"
  using assms root_minimal [of "heap_vec h"]
  by (auto simp: MinHeap_Get_def heap_ok_def hd_conv_nth in_set_conv_nth)

lemma MinHeap_Remove_ok:
  assumes ok: "heap_ok gid gt h" and ne: "heap_vec h \<noteq> []"
  shows "\<exists>h'. MinHeap_Remove gid gt h = Inr h' \<and> heap_ok gid gt h' \<and>
    mset (heap_vec h') = mset (heap_vec h) - {#hd (heap_vec h)#} \<and>
    dom (heap_idx h') = dom (heap_idx h) - {gid (hd (heap_vec h))}"
proof (cases "length (heap_vec h) = 1")
  case True
  then obtain p where p: "heap_vec h = [p]" by (cases "heap_vec h") auto
  show ?thesis
    using p by (auto simp: MinHeap_Remove_def Let_def heap_ok_def is_heap_def idx_ok_def)
next
  case False
  let ?v = "heap_vec h"
  let ?h = "\<lparr>heap_vec = butlast (?v[0 := last ?v]),
    heap_idx = (heap_idx h)(gid (hd ?v) := None, gid (last ?v) \<mapsto> 0)\<rparr>"
  have len: "1 < length ?v" using False ne by (cases ?v) auto
  have hd: "hd (?v[0 := last ?v]) = last ?v" "hd ?v = ?v ! 0" using ne by (cases ?v; simp)+
  have "butlast (?v[0 := last ?v]) \<noteq> []" using len by (auto simp flip: length_greater_0_conv)
  then have run: "MinHeap_Remove gid gt h = Inr (HeapDown gid gt ?h 0)"
    using len ne hd(1) by (cases h) (auto simp: MinHeap_Remove_def Let_def)
  have idx: "idx_ok gid h" using ok by (simp add: heap_ok_def)
  then have "idx_ok gid ?h" using len by (intro idx_ok_move_last) (auto simp: hd(2))
  moreover have "down_defect gt (heap_vec ?h) 0"
    using ok len ne is_heap_defect_at [of ?v 0 "last ?v"] defect_at_butlast [of gt "?v[0 := last ?v]" 0]
    by (simp add: down_defect_def heap_ok_def)
  moreover have "dom (heap_idx ?h) = dom (heap_idx h) - {gid (hd ?v)}"
    using idx idx_ok_inj [OF idx, of 0 "length ?v - 1"] len ne
    by (auto simp: hd(2) last_conv_nth idx_ok_def)
  ultimately show ?thesis
    using len run HeapDown_repairs [of ?h 0 gid] mset_move_last [of 0 ?v] ne
    by (auto simp: heap_ok_def HeapDown_keeps hd(2))
qed

text \<open>
  \<open>AnyRemove\<close> keeps the order and takes out the element in every case. When the element is in the
  last of several slots its id stays in the index, and maps to a slot behind the vector.
\<close>

lemma AnyRemove_ok:
  assumes ok: "heap_ok gid gt h" and len: "i < length (heap_vec h)" and sid: "gid (heap_vec h ! i) = sid"
  shows "\<exists>h'. AnyRemove gid gt h sid = Inr h' \<and> heap_ok gid gt h' \<and>
    mset (heap_vec h') = mset (heap_vec h) - {#heap_vec h ! i#} \<and>
    (if i < length (heap_vec h) - 1 \<or> length (heap_vec h) = 1 then dom (heap_idx h') = dom (heap_idx h) - {sid}
     else heap_idx h' = heap_idx h \<and> heap_idx h' sid = Some (length (heap_vec h')))"
proof -
  let ?v = "heap_vec h"
  have idx: "idx_ok gid h" and heap: "is_heap gt ?v" using ok by (auto simp: heap_ok_def)
  have i: "heap_idx h sid = Some i" using idx len sid by (auto simp: idx_ok_def)
  have last: "last (?v[i := last ?v]) = last ?v" using len by (rule last_move_last)
  consider (inner) "i < length ?v - 1" | (single) "length ?v = 1" | (at_end) "i = length ?v - 1" "1 < length ?v"
    using len by linarith
  then show ?thesis
  proof cases
    case inner
    let ?h = "\<lparr>heap_vec = butlast (?v[i := last ?v]), heap_idx = (heap_idx h)(sid := None, gid (last ?v) \<mapsto> i)\<rparr>"
    have run: "AnyRemove gid gt h sid = Inr (HeapDown gid gt (HeapUp gid gt ?h i) i)"
      using i len inner last by (cases h) (auto simp: AnyRemove_def Let_def)
    have "idx_ok gid ?h" using idx inner sid by (rule idx_ok_move_last)
    moreover have "is_heap gt (heap_vec (HeapDown gid gt (HeapUp gid gt ?h i) i))"
      using inner len heap by (intro HeapUp_HeapDown_repairs) (auto intro: defect_at_butlast is_heap_defect_at)
    moreover have "dom (heap_idx ?h) = dom (heap_idx h) - {sid}"
    proof -
      have "last ?v = ?v ! (length ?v - 1)" "length ?v - 1 < length ?v" using len last_conv_nth [of ?v] by (cases ?v; simp)+
      then show ?thesis using idx idx_ok_inj [OF idx, of i "length ?v - 1"] inner sid len by (auto simp: idx_ok_def)
    qed
    ultimately show ?thesis
      using run inner len by (simp add: heap_ok_def HeapDown_keeps HeapUp_mset HeapUp_idx_ok HeapUp_dom mset_move_last)
  next
    case single
    then obtain p where p: "?v = [p]" by (cases ?v) auto
    then show ?thesis
      using i len by (auto simp: AnyRemove_def Let_def heap_ok_def is_heap_def idx_ok_def)
  next
    case at_end
    have "butlast (?v[i := last ?v]) = butlast ?v"
      using at_end len by (simp add: butlast_list_update)
    moreover have "idx_ok gid (h\<lparr>heap_vec := butlast ?v\<rparr>)" using idx by (auto simp: idx_ok_def nth_butlast)
    ultimately show ?thesis
      using at_end i len sid heap mset_move_last [OF len] last
      by (auto simp: AnyRemove_def Let_def last_conv_nth fun_upd_idem heap_ok_def is_heap_butlast)
  qed
qed

end

text \<open>Taking an element out of the top makes the vector shorter, whatever its contents.\<close>

lemma MinHeap_Remove_shorter:
  assumes "MinHeap_Remove gid gt h = Inr h'"
  shows "length (heap_vec h') < length (heap_vec h)"
proof -
  have ne: "heap_vec h \<noteq> []" using assms by (auto simp: MinHeap_Remove_def)
  have "length (heap_vec (HeapDown gid gt k 0)) = length (heap_vec k)" if "heap_vec k \<noteq> []" for k
    using that by (simp add: HeapDown_keeps)
  then show ?thesis
    using assms ne by (auto simp: MinHeap_Remove_def Let_def split: if_splits)
qed

end
