(* ===== verification/Load_Balancer.thy ===== *)
theory Load_Balancer
  imports Min_Heap Simulation
begin

text \<open>
  The load balancer of the status server, \<open>src/include/status/load_balancer.hpp\<close> and
  \<open>src/status/load_balancer.cpp\<close>. Server records live in memory cells owned by \<open>hm_\<close>; the heap holds
  their addresses, so changing a record changes what the heap compares. Readings of the monotonic
  clock are arguments (\<open>now\<close>, or the sequence \<open>clk\<close> where the code reads it repeatedly), and so are
  the address the allocator returns and the order in which \<open>hm_\<close> is iterated. The lemmas show that
  the operations implement a finite map from ids to records, that the minimal load query answers
  with a least loaded server that is alive, and where the index of the heap goes wrong.
\<close>

section \<open>Server records\<close>

definition SERVER_TIMEOUT :: u32 where
  "SERVER_TIMEOUT = 40 * 1000"

record server_info =
  si_id :: u32
  si_addr :: string
  si_load :: u32
  si_last_ts :: u64

definition ServerInfo_new :: "u32 \<Rightarrow> string \<Rightarrow> u32 \<Rightarrow> u64 \<Rightarrow> server_info" where
  "ServerInfo_new field_id field_addr field_load now =
    \<lparr>si_id = field_id, si_addr = field_addr, si_load = field_load, si_last_ts = now\<rparr>"

text \<open>The memory cells that hold the records, by address.\<close>

type_synonym si_mem = "nat \<rightharpoonup> server_info"

definition GetID :: "si_mem \<Rightarrow> nat \<Rightarrow> u32" where
  "GetID mem p = si_id (the (mem p))"

definition SrvInfoComp :: "si_mem \<Rightarrow> nat \<Rightarrow> nat \<Rightarrow> bool" where
  "SrvInfoComp mem lhs rhs = (si_load (the (mem lhs)) > si_load (the (mem rhs)))"

section \<open>The balancer\<close>

record load_balancer =
  lb_heap :: "nat min_heap"
  lb_hm :: "u32 \<rightharpoonup> nat"
  lb_mem :: si_mem

definition LoadBalancer_new :: load_balancer where
  "LoadBalancer_new = \<lparr>lb_heap = MinHeap_empty, lb_hm = Map.empty, lb_mem = Map.empty\<rparr>"

text \<open>\<open>static_cast<int>(load) - static_cast<int>(prev_load)\<close>: a signed overflow is undefined.\<close>

definition load_hint :: "u32 \<Rightarrow> u32 \<Rightarrow> int result" where
  "load_hint load prev_load =
    (let d = sint load - sint prev_load
     in guardR (- (2 ^ 31) \<le> d \<and> d < 2 ^ 31) Undefined_Behaviour (Inr d))"

definition UpdateServerLoad :: "load_balancer \<Rightarrow> u32 \<Rightarrow> u32 \<Rightarrow> u64 \<Rightarrow> (bool \<times> load_balancer) result" where
  "UpdateServerLoad lb sid load now =
    (case lb_hm lb sid of
       None \<Rightarrow> Inr (False, lb)
     | Some si \<Rightarrow>
         (let prev_load = si_load (the (lb_mem lb si));
              mem = (lb_mem lb)(si \<mapsto> (the (lb_mem lb si))\<lparr>si_load := load, si_last_ts := now\<rparr>)
          in bindR (load_hint load prev_load) (\<lambda>hint.
             bindR (InsertOrUpdate (GetID mem) (SrvInfoComp mem) (lb_heap lb) sid si hint) (\<lambda>h.
               Inr (True, lb\<lparr>lb_heap := h, lb_mem := mem\<rparr>)))))"

text \<open>\<open>p\<close> is the address \<open>make_unique\<close> returns.\<close>

definition RegisterServerInfo ::
  "load_balancer \<Rightarrow> u32 \<Rightarrow> string \<Rightarrow> u32 \<Rightarrow> u64 \<Rightarrow> nat \<Rightarrow> (bool \<times> load_balancer) result" where
  "RegisterServerInfo lb sid addr load now p =
    (case lb_hm lb sid of
       None \<Rightarrow>
         (let mem = (lb_mem lb)(p \<mapsto> ServerInfo_new sid addr load now)
          in bindR (InsertOrUpdate (GetID mem) (SrvInfoComp mem) (lb_heap lb) sid p 0) (\<lambda>h.
               Inr (True, lb\<lparr>lb_heap := h, lb_hm := (lb_hm lb)(sid \<mapsto> p), lb_mem := mem\<rparr>)))
     | Some si \<Rightarrow>
         (let prev_load = si_load (the (lb_mem lb si));
              mem = (lb_mem lb)(si \<mapsto> (the (lb_mem lb si))
                \<lparr>si_load := load, si_last_ts := now, si_addr := addr\<rparr>)
          in bindR (load_hint load prev_load) (\<lambda>hint.
             bindR (InsertOrUpdate (GetID mem) (SrvInfoComp mem) (lb_heap lb) sid si hint) (\<lambda>h.
               Inr (True, lb\<lparr>lb_heap := h, lb_mem := mem\<rparr>)))))"

text \<open>\<open>hm_.erase\<close> drops the entry and frees the record its \<open>unique_ptr\<close> owns.\<close>

definition hm_erase :: "load_balancer \<Rightarrow> u32 \<Rightarrow> load_balancer" where
  "hm_erase lb sid =
    (case lb_hm lb sid of
       None \<Rightarrow> lb
     | Some p \<Rightarrow> lb\<lparr>lb_hm := (lb_hm lb)(sid := None), lb_mem := (lb_mem lb)(p := None)\<rparr>)"

definition RemoveServer :: "load_balancer \<Rightarrow> u32 \<Rightarrow> (bool \<times> load_balancer) result" where
  "RemoveServer lb sid =
    (case lb_hm lb sid of
       None \<Rightarrow> Inr (False, lb)
     | Some p \<Rightarrow>
         bindR (AnyRemove (GetID (lb_mem lb)) (SrvInfoComp (lb_mem lb)) (lb_heap lb) sid) (\<lambda>h.
           Inr (True, hm_erase (lb\<lparr>lb_heap := h\<rparr>) sid)))"

definition timed_out :: "u64 \<Rightarrow> server_info \<Rightarrow> bool" where
  "timed_out now si = (\<not> now - si_last_ts si < ucast SERVER_TIMEOUT)"

function GetMinimal_loop ::
  "(nat \<Rightarrow> u64) \<Rightarrow> nat \<Rightarrow> bool \<Rightarrow> load_balancer \<Rightarrow> ((server_info option \<times> bool) \<times> load_balancer) result" where
  "GetMinimal_loop clk n updated lb =
    (if MinHeap_Empty (lb_heap lb) then Inr ((None, updated), lb)
     else
       bindR (MinHeap_Get (lb_heap lb)) (\<lambda>si.
         if \<not> timed_out (clk n) (the (lb_mem lb si)) then Inr ((Some (the (lb_mem lb si)), updated), lb)
         else
           bindR (MinHeap_Remove (GetID (lb_mem lb)) (SrvInfoComp (lb_mem lb)) (lb_heap lb)) (\<lambda>h.
             GetMinimal_loop clk (Suc n) True (hm_erase (lb\<lparr>lb_heap := h\<rparr>) (GetID (lb_mem lb) si)))))"
  by pat_completeness auto
termination
  by (relation "measure (\<lambda>(clk, n, updated, lb). length (heap_vec (lb_heap lb)))")
    (auto simp: hm_erase_def dest: MinHeap_Remove_shorter split: option.splits)

definition GetMinimalLoadServerInfo ::
  "(nat \<Rightarrow> u64) \<Rightarrow> load_balancer \<Rightarrow> ((server_info option \<times> bool) \<times> load_balancer) result" where
  "GetMinimalLoadServerInfo clk lb = GetMinimal_loop clk 0 False lb"

text \<open>\<open>ord\<close> lists the keys of \<open>hm_\<close> in its iteration order.\<close>

definition CopyServerInfoList :: "u32 list \<Rightarrow> load_balancer \<Rightarrow> server_info list" where
  "CopyServerInfoList ord lb = map (\<lambda>sid. the (lb_mem lb (the (lb_hm lb sid)))) ord"

primrec CheckTTL_loop ::
  "(nat \<Rightarrow> u64) \<Rightarrow> u32 list \<Rightarrow> nat \<Rightarrow> u32 \<Rightarrow> load_balancer \<Rightarrow> (u32 \<times> load_balancer) result" where
  "CheckTTL_loop clk [] n removed lb = Inr (removed, lb)"
| "CheckTTL_loop clk (sid # ids) n removed lb =
    (let si = the (lb_mem lb (the (lb_hm lb sid))) in
     if timed_out (clk n) si then
       bindR (AnyRemove (GetID (lb_mem lb)) (SrvInfoComp (lb_mem lb)) (lb_heap lb) (si_id si)) (\<lambda>h.
         CheckTTL_loop clk ids (Suc n) (removed + 1) (hm_erase (lb\<lparr>lb_heap := h\<rparr>) sid))
     else CheckTTL_loop clk ids (Suc n) removed lb)"

definition CheckTTL :: "(nat \<Rightarrow> u64) \<Rightarrow> u32 list \<Rightarrow> load_balancer \<Rightarrow> (u32 \<times> load_balancer) result" where
  "CheckTTL clk ord lb = CheckTTL_loop clk ord 0 0 lb"

section \<open>Specification: a finite map of servers\<close>

definition registry :: "load_balancer \<Rightarrow> u32 \<rightharpoonup> server_info" where
  "registry lb sid = Option.bind (lb_hm lb sid) (lb_mem lb)"

text \<open>
  The invariant: the heap is ordered and indexed, \<open>hm_\<close> names the addresses in the heap by their
  ids, and the live memory cells are those in the heap, so no address in it dangles.
\<close>

definition lb_inv :: "load_balancer \<Rightarrow> bool" where
  "lb_inv lb =
    (heap_ok (GetID (lb_mem lb)) (SrvInfoComp (lb_mem lb)) (lb_heap lb) \<and>
     dom (lb_mem lb) = set (heap_vec (lb_heap lb)) \<and>
     (\<forall>sid p. lb_hm lb sid = Some p \<longleftrightarrow> p \<in> set (heap_vec (lb_heap lb)) \<and> GetID (lb_mem lb) p = sid))"

text \<open>Ids the index of the heap still holds although their server is gone.\<close>

definition stale_ids :: "load_balancer \<Rightarrow> u32 set" where
  "stale_ids lb = dom (heap_idx (lb_heap lb)) - dom (registry lb)"

text \<open>Removing by id: the last of several slots is the case that leaves the id in the index.\<close>

definition last_slot :: "load_balancer \<Rightarrow> u32 \<Rightarrow> bool" where
  "last_slot lb sid = (let v = heap_vec (lb_heap lb) in 1 < length v \<and> GetID (lb_mem lb) (last v) = sid)"

text \<open>Loads that a signed 32 bit integer can hold, as the hint of \<open>InsertOrUpdate\<close> needs.\<close>

definition small_load :: "u32 \<Rightarrow> bool" where
  "small_load l = (uint l < 2 ^ 31)"

definition small_loads :: "load_balancer \<Rightarrow> bool" where
  "small_loads lb = (\<forall>si\<in>ran (registry lb). small_load (si_load si))"

text \<open>
  What a run of the loop from clock reading \<open>n\<close> on promises: it only drops servers it saw timed out,
  it reports whether it dropped any, and it answers with a least loaded remaining server that was
  alive when looked at, or with none when no server is left.
\<close>

definition minimal_answer ::
  "(nat \<Rightarrow> u64) \<Rightarrow> nat \<Rightarrow> bool \<Rightarrow> load_balancer \<Rightarrow> server_info option \<Rightarrow> bool \<Rightarrow> load_balancer \<Rightarrow> bool" where
  "minimal_answer clk n u lb r upd lb' =
    (lb_inv lb' \<and> registry lb' \<subseteq>\<^sub>m registry lb \<and> stale_ids lb' = stale_ids lb \<and>
     (\<forall>sid s. registry lb sid = Some s \<and> registry lb' sid = None \<longrightarrow> (\<exists>k\<ge>n. timed_out (clk k) s)) \<and>
     (upd \<longleftrightarrow> u \<or> registry lb' \<noteq> registry lb) \<and>
     (case r of
        None \<Rightarrow> registry lb' = Map.empty
      | Some s \<Rightarrow> registry lb' (si_id s) = Some s \<and> (\<exists>k\<ge>n. \<not> timed_out (clk k) s) \<and>
          (\<forall>x\<in>ran (registry lb'). si_load s \<le> si_load x)))"

declare GetMinimal_loop.simps [simp del]

section \<open>The comparison orders addresses by load\<close>

interpretation si: heap_order "SrvInfoComp mem" for mem
  by unfold_locales (auto simp: SrvInfoComp_def)

lemma uint_small: "small_load l \<Longrightarrow> uint l < 2 ^ 31"
  by (simp only: small_load_def)

lemma sint_small:
  assumes "small_load l"
  shows "sint l = uint l"
proof -
  have "signed_take_bit 31 (uint l) = uint l"
    using uint_small [OF assms] uint_nonnegative [of l] by (intro signed_take_bit_int_eq_self) linarith+
  then show ?thesis by (simp add: sint_uint)
qed

lemma load_hint_small:
  assumes "small_load l" and "small_load prev"
  shows "load_hint l prev = Inr (uint l - uint prev)"
proof -
  have "- (2 ^ 31) \<le> uint l - uint prev \<and> uint l - uint prev < 2 ^ 31"
    using uint_small [OF assms(1)] uint_small [OF assms(2)] uint_nonnegative [of l] uint_nonnegative [of prev]
    by linarith
  then show ?thesis using assms by (simp add: load_hint_def Let_def sint_small)
qed

text \<open>Rewriting the record at address \<open>p\<close>: what it does to the order of a vector that holds \<open>p\<close>.\<close>

lemma SrvInfoComp_upd:
  "SrvInfoComp (mem(p \<mapsto> s)) x y \<longleftrightarrow>
    (if y = p then si_load s else si_load (the (mem y))) < (if x = p then si_load s else si_load (the (mem x)))"
  by (simp add: SrvInfoComp_def)

lemma defect_at_record_update:
  assumes heap: "is_heap (SrvInfoComp mem) v" and dist: "distinct v" and k: "k < length v" and p: "v ! k = p"
  shows "defect_at (SrvInfoComp (mem(p \<mapsto> s))) v k"
    and "si_load s \<le> si_load (the (mem p)) \<Longrightarrow> up_defect (SrvInfoComp (mem(p \<mapsto> s))) v k"
    and "si_load (the (mem p)) \<le> si_load s \<Longrightarrow> down_defect (SrvInfoComp (mem(p \<mapsto> s))) v k"
proof -
  have eq: "v ! i = p \<longleftrightarrow> i = k" if "i < length v" for i
    using dist k p that nth_eq_iff_index_eq by metis
  have edge: "si_load (the (mem (v ! heap_parent i))) \<le> si_load (the (mem (v ! i)))"
    if "0 < i" "i < length v" for i
    using heap that by (simp add: is_heap_iff SrvInfoComp_def not_less)
  have par: "heap_parent i < length v" "heap_parent i \<noteq> i" if "0 < i" "i < length v" for i
    using that heap_parent_less [of i] by auto
  show d: "defect_at (SrvInfoComp (mem(p \<mapsto> s))) v k"
    unfolding defect_at_def
  proof (intro conjI allI impI)
    fix i assume "0 < i" "i < length v" "i \<noteq> k" "heap_parent i \<noteq> k"
    then show "\<not> SrvInfoComp (mem(p \<mapsto> s)) (v ! heap_parent i) (v ! i)"
      using edge [of i] par [of i] by (simp add: SrvInfoComp_upd eq)
  next
    fix i assume i: "0 < i" "i < length v" "heap_parent i = k" "0 < k"
    then show "\<not> SrvInfoComp (mem(p \<mapsto> s)) (v ! heap_parent k) (v ! i)"
      using edge [of i] edge [of k] par [of i] par [of k] k by (simp add: SrvInfoComp_upd eq)
  qed
  show "up_defect (SrvInfoComp (mem(p \<mapsto> s))) v k" if le: "si_load s \<le> si_load (the (mem p))"
    unfolding up_defect_def
  proof (intro conjI allI impI)
    fix i assume i: "0 < i" "i < length v" "heap_parent i = k"
    then show "\<not> SrvInfoComp (mem(p \<mapsto> s)) (v ! k) (v ! i)"
      using order_trans [OF le] edge [of i] par [of i] p k by (simp add: SrvInfoComp_upd eq not_less)
  qed (rule d)
  show "down_defect (SrvInfoComp (mem(p \<mapsto> s))) v k" if ge: "si_load (the (mem p)) \<le> si_load s"
    using d order_trans [OF _ ge] edge [of k] par [of k] p k unfolding down_defect_def
    by (auto simp: SrvInfoComp_upd eq not_less)
qed

lemma GetID_upd: "si_id s = GetID mem p \<Longrightarrow> GetID (mem(p \<mapsto> s)) = GetID mem"
  by (auto simp: GetID_def)

lemma heap_ok_record_update:
  assumes ok: "heap_ok (GetID mem) (SrvInfoComp mem) h" and p: "p \<in> set (heap_vec h)"
    and sid: "GetID mem p = sid" "si_id s = sid"
    and small: "small_load (si_load s)" "small_load (si_load (the (mem p)))"
  shows "\<exists>h'. bindR (load_hint (si_load s) (si_load (the (mem p))))
      (InsertOrUpdate (GetID (mem(p \<mapsto> s))) (SrvInfoComp (mem(p \<mapsto> s))) h sid p) = Inr h' \<and>
    heap_ok (GetID (mem(p \<mapsto> s))) (SrvInfoComp (mem(p \<mapsto> s))) h' \<and> set (heap_vec h') = set (heap_vec h) \<and>
    dom (heap_idx h') = dom (heap_idx h)"
proof -
  let ?mem = "mem(p \<mapsto> s)"
  define hint where "hint = uint (si_load s) - uint (si_load (the (mem p)))"
  obtain k where k: "k < length (heap_vec h)" "heap_vec h ! k = p" using p by (auto simp: in_set_conv_nth)
  have idx: "idx_ok (GetID mem) h" and heap: "is_heap (SrvInfoComp mem) (heap_vec h)"
    using ok by (auto simp: heap_ok_def)
  have gid: "GetID ?mem = GetID mem" using sid by (intro GetID_upd) simp
  have at: "heap_idx h sid = Some k" using idx k sid by (auto simp: idx_ok_def)
  have id: "(heap_vec h)[k := p] = heap_vec h" using k by (simp flip: k(2))
  note d = defect_at_record_update [OF heap idx_ok_distinct(2) [OF idx] k, of s]
  have "\<exists>h'. InsertOrUpdate (GetID ?mem) (SrvInfoComp ?mem) h sid p hint = Inr h' \<and>
      heap_ok (GetID ?mem) (SrvInfoComp ?mem) h' \<and> mset (heap_vec h') = mset ((heap_vec h)[k := p]) \<and>
      dom (heap_idx h') = dom (heap_idx h)"
    using idx at k sid d
    by (intro si.InsertOrUpdate_known) (auto simp: gid id hint_def word_le_def)
  moreover have "load_hint (si_load s) (si_load (the (mem p))) = Inr hint"
    unfolding hint_def using small by (rule load_hint_small)
  ultimately show ?thesis by (auto simp: id dest: mset_eq_setD)
qed

section \<open>The balancer implements the map of servers\<close>

lemma lb_hm_iff:
  "lb_inv lb \<Longrightarrow> lb_hm lb sid = Some p \<longleftrightarrow> p \<in> set (heap_vec (lb_heap lb)) \<and> GetID (lb_mem lb) p = sid"
  by (simp add: lb_inv_def)

lemma lb_cell: "lb_inv lb \<Longrightarrow> p \<in> set (heap_vec (lb_heap lb)) \<Longrightarrow> \<exists>s. lb_mem lb p = Some s"
  unfolding lb_inv_def by blast

lemma lb_hm_None_iff: "lb_inv lb \<Longrightarrow> lb_hm lb sid = None \<longleftrightarrow> registry lb sid = None"
  using lb_cell [of lb] lb_hm_iff [of lb sid] by (cases "lb_hm lb sid") (force simp: registry_def)+

lemma registry_SomeE:
  assumes "lb_inv lb" and "registry lb sid = Some s"
  obtains p where "lb_hm lb sid = Some p" and "lb_mem lb p = Some s" and "p \<in> set (heap_vec (lb_heap lb))"
    and "GetID (lb_mem lb) p = sid" and "si_id s = sid"
  using assms by (auto simp: lb_inv_def registry_def bind_eq_Some_conv GetID_def)

lemma registry_id: "lb_inv lb \<Longrightarrow> registry lb sid = Some s \<Longrightarrow> si_id s = sid"
  by (blast elim: registry_SomeE)

lemma registry_of_cell:
  "lb_inv lb \<Longrightarrow> p \<in> set (heap_vec (lb_heap lb)) \<Longrightarrow>
    lb_mem lb p = Some (the (lb_mem lb p)) \<and> registry lb (GetID (lb_mem lb) p) = Some (the (lb_mem lb p))"
  using lb_cell [of lb p] lb_hm_iff [of lb "GetID (lb_mem lb) p" p] by (auto simp: registry_def)

lemma registry_rewrite:
  assumes inv: "lb_inv lb" and sid: "lb_hm lb sid = Some p"
  shows "registry (lb\<lparr>lb_heap := h, lb_mem := (lb_mem lb)(p \<mapsto> s)\<rparr>) = (registry lb)(sid \<mapsto> s)"
proof
  fix x
  have "lb_hm lb x = Some p \<longleftrightarrow> x = sid" using inv sid by (auto simp: lb_inv_def)
  then show "registry (lb\<lparr>lb_heap := h, lb_mem := (lb_mem lb)(p \<mapsto> s)\<rparr>) x = ((registry lb)(sid \<mapsto> s)) x"
    using sid by (cases "lb_hm lb x") (auto simp: registry_def)
qed

lemma lb_rewrite:
  assumes inv: "lb_inv lb" and s0: "registry lb sid = Some s0" and p: "lb_hm lb sid = Some p"
    and s: "si_id s = sid" and small: "small_load (si_load s)" "small_load (si_load s0)"
  shows "\<exists>h'. bindR (load_hint (si_load s) (si_load s0))
      (InsertOrUpdate (GetID ((lb_mem lb)(p \<mapsto> s))) (SrvInfoComp ((lb_mem lb)(p \<mapsto> s))) (lb_heap lb) sid p)
        = Inr h' \<and>
    lb_inv (lb\<lparr>lb_heap := h', lb_mem := (lb_mem lb)(p \<mapsto> s)\<rparr>) \<and> dom (heap_idx h') = dom (heap_idx (lb_heap lb))"
proof -
  obtain mem_p: "lb_mem lb p = Some s0" and v: "p \<in> set (heap_vec (lb_heap lb))" "GetID (lb_mem lb) p = sid"
    using inv s0 p by (auto elim: registry_SomeE)
  have "heap_ok (GetID (lb_mem lb)) (SrvInfoComp (lb_mem lb)) (lb_heap lb)" using inv by (simp add: lb_inv_def)
  from heap_ok_record_update [OF this v s] small
  obtain h' where run: "bindR (load_hint (si_load s) (si_load s0))
        (InsertOrUpdate (GetID ((lb_mem lb)(p \<mapsto> s))) (SrvInfoComp ((lb_mem lb)(p \<mapsto> s))) (lb_heap lb) sid p)
          = Inr h'"
      and ok: "heap_ok (GetID ((lb_mem lb)(p \<mapsto> s))) (SrvInfoComp ((lb_mem lb)(p \<mapsto> s))) h'"
      and set: "set (heap_vec h') = set (heap_vec (lb_heap lb))"
      and dom: "dom (heap_idx h') = dom (heap_idx (lb_heap lb))"
    using mem_p by auto
  have gid: "GetID ((lb_mem lb)(p \<mapsto> s)) = GetID (lb_mem lb)" using s v by (intro GetID_upd) simp
  have "lb_inv (lb\<lparr>lb_heap := h', lb_mem := (lb_mem lb)(p \<mapsto> s)\<rparr>)"
    using inv ok set v unfolding lb_inv_def by (simp add: gid insert_absorb)
  with run dom show ?thesis by (intro exI [of _ h'] conjI)
qed

lemma UpdateServerLoad_ok:
  assumes inv: "lb_inv lb" and s0: "registry lb sid = Some s0"
    and small: "small_load load" "small_load (si_load s0)"
  shows "\<exists>lb'. UpdateServerLoad lb sid load now = Inr (True, lb') \<and> lb_inv lb' \<and>
    registry lb' = (registry lb)(sid \<mapsto> s0\<lparr>si_load := load, si_last_ts := now\<rparr>) \<and> stale_ids lb' = stale_ids lb"
proof -
  obtain p where p: "lb_hm lb sid = Some p" "lb_mem lb p = Some s0" "si_id s0 = sid"
    using inv s0 by (rule registry_SomeE)
  define s where "s = s0\<lparr>si_load := load, si_last_ts := now\<rparr>"
  have "si_id s = sid" "small_load (si_load s)" using p(3) small by (simp_all add: s_def)
  from lb_rewrite [OF inv s0 p(1) this small(2)] show ?thesis
    using p registry_rewrite [OF inv p(1), where s = s] s0
    by (auto simp: UpdateServerLoad_def Let_def s_def stale_ids_def)
qed

lemma RegisterServerInfo_known:
  assumes inv: "lb_inv lb" and s0: "registry lb sid = Some s0"
    and small: "small_load load" "small_load (si_load s0)"
  shows "\<exists>lb'. RegisterServerInfo lb sid addr load now q = Inr (True, lb') \<and> lb_inv lb' \<and>
    registry lb' = (registry lb)(sid \<mapsto> ServerInfo_new sid addr load now) \<and> stale_ids lb' = stale_ids lb"
proof -
  obtain p where p: "lb_hm lb sid = Some p" "lb_mem lb p = Some s0" "si_id s0 = sid"
    using inv s0 by (rule registry_SomeE)
  define s where "s = s0\<lparr>si_load := load, si_last_ts := now, si_addr := addr\<rparr>"
  have new: "s = ServerInfo_new sid addr load now"
    using p(3) by (cases s0) (simp add: s_def ServerInfo_new_def)
  have "si_id s = sid" "small_load (si_load s)" using p(3) small by (simp_all add: s_def)
  from lb_rewrite [OF inv s0 p(1) this small(2)] show ?thesis
    using p registry_rewrite [OF inv p(1), where s = s] s0 unfolding new [symmetric]
    by (auto simp: RegisterServerInfo_def Let_def s_def stale_ids_def)
qed

lemma heap_ok_cong:
  assumes "\<And>p. p \<in> set (heap_vec h) \<Longrightarrow> mem' p = mem p"
  shows "heap_ok (GetID mem') (SrvInfoComp mem') h = heap_ok (GetID mem) (SrvInfoComp mem) h"
proof -
  have "mem' (heap_vec h ! i) = mem (heap_vec h ! i)" if "i < length (heap_vec h)" for i
    using assms that by simp
  moreover have "heap_parent i < length (heap_vec h)" if "0 < i" "i < length (heap_vec h)" for i
    using that heap_parent_less [of i] by linarith
  ultimately show ?thesis
    by (auto simp: heap_ok_def idx_ok_def is_heap_iff GetID_def SrvInfoComp_def)
qed

lemma RegisterServerInfo_fresh:
  assumes inv: "lb_inv lb" and new: "registry lb sid = None" "sid \<notin> stale_ids lb" and q: "lb_mem lb q = None"
  shows "\<exists>lb'. RegisterServerInfo lb sid addr load now q = Inr (True, lb') \<and> lb_inv lb' \<and>
    registry lb' = (registry lb)(sid \<mapsto> ServerInfo_new sid addr load now) \<and> stale_ids lb' = stale_ids lb"
proof -
  let ?s = "ServerInfo_new sid addr load now"
  let ?mem = "(lb_mem lb)(q \<mapsto> ?s)"
  have dom: "dom (lb_mem lb) = set (heap_vec (lb_heap lb))" using inv by (simp add: lb_inv_def)
  then have qv: "q \<notin> set (heap_vec (lb_heap lb))" using q by auto
  have hm: "lb_hm lb sid = None" using new inv by (simp add: lb_hm_None_iff)
  have "heap_ok (GetID ?mem) (SrvInfoComp ?mem) (lb_heap lb)"
    using inv qv by (subst heap_ok_cong [of _ _ "lb_mem lb"]) (auto simp: lb_inv_def)
  moreover have "heap_idx (lb_heap lb) sid = None" using new by (auto simp: stale_ids_def)
  moreover have "GetID ?mem q = sid" by (simp add: GetID_def ServerInfo_new_def)
  ultimately obtain h' where h': "InsertOrUpdate (GetID ?mem) (SrvInfoComp ?mem) (lb_heap lb) sid q 0 = Inr h'"
      "heap_ok (GetID ?mem) (SrvInfoComp ?mem) h'"
      "mset (heap_vec h') = add_mset q (mset (heap_vec (lb_heap lb)))"
      "dom (heap_idx h') = insert sid (dom (heap_idx (lb_heap lb)))"
    using si.InsertOrUpdate_new by blast
  have set: "set (heap_vec h') = insert q (set (heap_vec (lb_heap lb)))"
    using h'(3) by (metis set_mset_add_mset_insert set_mset_mset)
  let ?lb = "lb\<lparr>lb_heap := h', lb_hm := (lb_hm lb)(sid \<mapsto> q), lb_mem := ?mem\<rparr>"
  have gid: "GetID ?mem p = (if p = q then sid else GetID (lb_mem lb) p)" for p
    by (simp add: GetID_def ServerInfo_new_def)
  have "lb_inv ?lb"
    using dom h'(2) set qv hm lb_hm_iff [OF inv, of sid] by (auto simp: lb_inv_def gid lb_hm_iff [OF inv])
  moreover have reg: "registry ?lb = (registry lb)(sid \<mapsto> ?s)"
  proof
    fix x
    show "registry ?lb x = ((registry lb)(sid \<mapsto> ?s)) x"
      using qv lb_hm_iff [OF inv, of x] by (cases "lb_hm lb x") (auto simp: registry_def)
  qed
  moreover have "stale_ids ?lb = stale_ids lb" using h'(4) reg new by (auto simp: stale_ids_def)
  moreover have "RegisterServerInfo lb sid addr load now q = Inr (True, ?lb)"
    using hm h'(1) by (simp add: RegisterServerInfo_def)
  ultimately show ?thesis by blast
qed

lemma lb_drop:
  assumes inv: "lb_inv lb" and p: "p \<in> set (heap_vec (lb_heap lb))" and sid: "GetID (lb_mem lb) p = sid"
    and ok: "heap_ok (GetID (lb_mem lb)) (SrvInfoComp (lb_mem lb)) h'"
    and vec: "mset (heap_vec h') = mset (heap_vec (lb_heap lb)) - {#p#}"
  shows "lb_inv (hm_erase (lb\<lparr>lb_heap := h'\<rparr>) sid)"
    and "registry (hm_erase (lb\<lparr>lb_heap := h'\<rparr>) sid) = (registry lb)(sid := None)"
    and "lb_heap (hm_erase (lb\<lparr>lb_heap := h'\<rparr>) sid) = h'"
proof -
  let ?lb = "lb\<lparr>lb_heap := h', lb_hm := (lb_hm lb)(sid := None), lb_mem := (lb_mem lb)(p := None)\<rparr>"
  have hm: "lb_hm lb sid = Some p" using inv p sid by (simp add: lb_hm_iff)
  then have er: "hm_erase (lb\<lparr>lb_heap := h'\<rparr>) sid = ?lb" by (simp add: hm_erase_def)
  have "distinct (heap_vec (lb_heap lb))" using inv by (auto simp: lb_inv_def heap_ok_def intro: idx_ok_distinct)
  then have set: "set (heap_vec h') = set (heap_vec (lb_heap lb)) - {p}"
    using vec mset_eq_setD [of "heap_vec h'" "remove1 p (heap_vec (lb_heap lb))"] by simp
  have inj: "q = p" if "q \<in> set (heap_vec (lb_heap lb))" "GetID (lb_mem lb) q = sid" for q
    using hm lb_hm_iff [OF inv, of sid q] that by simp
  have gid: "GetID ((lb_mem lb)(p := None)) q = GetID (lb_mem lb) q" if "q \<noteq> p" for q
    using that by (simp add: GetID_def)
  have "heap_ok (GetID (lb_mem ?lb)) (SrvInfoComp (lb_mem ?lb)) h'"
    using ok set by (subst heap_ok_cong [of _ _ "lb_mem lb"]) auto
  moreover have "dom (lb_mem ?lb) = set (heap_vec h')" using inv set by (auto simp: lb_inv_def)
  moreover have "lb_hm ?lb x = Some q \<longleftrightarrow> q \<in> set (heap_vec h') \<and> GetID (lb_mem ?lb) q = x" for x q
    using set gid sid inj lb_hm_iff [OF inv, of x q] by auto
  ultimately show "lb_inv (hm_erase (lb\<lparr>lb_heap := h'\<rparr>) sid)" unfolding er by (simp add: lb_inv_def)
  show "registry (hm_erase (lb\<lparr>lb_heap := h'\<rparr>) sid) = (registry lb)(sid := None)"
    unfolding er
  proof
    fix x
    show "registry ?lb x = ((registry lb)(sid := None)) x"
      using sid lb_hm_iff [OF inv, of x] by (cases "lb_hm lb x") (auto simp: registry_def)
  qed
  show "lb_heap (hm_erase (lb\<lparr>lb_heap := h'\<rparr>) sid) = h'" unfolding er by simp
qed

lemma AnyRemove_hm_erase:
  assumes inv: "lb_inv lb" and s: "registry lb sid = Some s"
  shows "\<exists>h'. AnyRemove (GetID (lb_mem lb)) (SrvInfoComp (lb_mem lb)) (lb_heap lb) sid = Inr h' \<and>
    lb_inv (hm_erase (lb\<lparr>lb_heap := h'\<rparr>) sid) \<and>
    registry (hm_erase (lb\<lparr>lb_heap := h'\<rparr>) sid) = (registry lb)(sid := None) \<and>
    stale_ids (hm_erase (lb\<lparr>lb_heap := h'\<rparr>) sid) = stale_ids lb \<union> (if last_slot lb sid then {sid} else {}) \<and>
    (last_slot lb sid \<longrightarrow> heap_idx h' sid = Some (length (heap_vec h')))"
proof -
  let ?v = "heap_vec (lb_heap lb)"
  let ?gid = "GetID (lb_mem lb)"
  have ok: "heap_ok ?gid (SrvInfoComp (lb_mem lb)) (lb_heap lb)" using inv by (simp add: lb_inv_def)
  then have idx: "idx_ok ?gid (lb_heap lb)" by (simp add: heap_ok_def)
  obtain p where p: "p \<in> set ?v" "?gid p = sid" using inv s by (rule registry_SomeE)
  then obtain i where i: "i < length ?v" "?v ! i = p" by (auto simp: in_set_conv_nth)
  have "last ?v = ?v ! (length ?v - 1)" using i by (intro last_conv_nth) auto
  moreover have "length ?v - 1 < length ?v" "i = length ?v - 1 \<longleftrightarrow> \<not> i < length ?v - 1" using i by auto
  ultimately have slot: "last_slot lb sid \<longleftrightarrow> \<not> (i < length ?v - 1 \<or> length ?v = 1)"
    using i p idx_ok_inj [OF idx, of i "length ?v - 1"] by (auto simp: last_slot_def Let_def)
  obtain h' where h': "AnyRemove ?gid (SrvInfoComp (lb_mem lb)) (lb_heap lb) sid = Inr h'"
      "heap_ok ?gid (SrvInfoComp (lb_mem lb)) h'" "mset (heap_vec h') = mset ?v - {#p#}"
      "if last_slot lb sid then heap_idx h' = heap_idx (lb_heap lb) \<and> heap_idx h' sid = Some (length (heap_vec h'))
       else dom (heap_idx h') = dom (heap_idx (lb_heap lb)) - {sid}"
    using si.AnyRemove_ok [OF ok i(1), of sid] i p unfolding slot by (auto split: if_splits)
  note d = lb_drop [OF inv p h'(2,3)]
  have "sid \<in> dom (heap_idx (lb_heap lb))" using idx_ok_dom [OF idx] p by blast
  then have "stale_ids (hm_erase (lb\<lparr>lb_heap := h'\<rparr>) sid) = stale_ids lb \<union> (if last_slot lb sid then {sid} else {})"
    using h'(4) s unfolding stale_ids_def d(2,3) by (auto split: if_splits)
  then show ?thesis using h' d by (intro exI [of _ h'] conjI) auto
qed

lemma RemoveServer_ok:
  assumes "lb_inv lb" and "registry lb sid = Some s"
  shows "\<exists>lb'. RemoveServer lb sid = Inr (True, lb') \<and> lb_inv lb' \<and> registry lb' = (registry lb)(sid := None) \<and>
    stale_ids lb' = stale_ids lb \<union> (if last_slot lb sid then {sid} else {}) \<and>
    (last_slot lb sid \<longrightarrow> heap_idx (lb_heap lb') sid = Some (length (heap_vec (lb_heap lb'))))"
proof -
  obtain p where p: "lb_hm lb sid = Some p" using assms by (rule registry_SomeE)
  have "lb_heap (hm_erase lb' x) = lb_heap lb'" for lb' x by (simp add: hm_erase_def split: option.split)
  with AnyRemove_hm_erase [OF assms] p show ?thesis by (auto simp: RemoveServer_def)
qed

section \<open>The least loaded live server\<close>

lemma MinHeap_Remove_hm_erase:
  assumes inv: "lb_inv lb" and ne: "heap_vec (lb_heap lb) \<noteq> []"
  shows "\<exists>h' s. MinHeap_Remove (GetID (lb_mem lb)) (SrvInfoComp (lb_mem lb)) (lb_heap lb) = Inr h' \<and>
    lb_mem lb (hd (heap_vec (lb_heap lb))) = Some s \<and> registry lb (si_id s) = Some s \<and>
    GetID (lb_mem lb) (hd (heap_vec (lb_heap lb))) = si_id s \<and>
    (\<forall>x\<in>ran (registry lb). si_load s \<le> si_load x) \<and>
    lb_inv (hm_erase (lb\<lparr>lb_heap := h'\<rparr>) (si_id s)) \<and>
    registry (hm_erase (lb\<lparr>lb_heap := h'\<rparr>) (si_id s)) = (registry lb)(si_id s := None) \<and>
    stale_ids (hm_erase (lb\<lparr>lb_heap := h'\<rparr>) (si_id s)) = stale_ids lb"
proof -
  let ?v = "heap_vec (lb_heap lb)"
  have ok: "heap_ok (GetID (lb_mem lb)) (SrvInfoComp (lb_mem lb)) (lb_heap lb)" using inv by (simp add: lb_inv_def)
  have p: "hd ?v \<in> set ?v" using ne by simp
  obtain s where s: "lb_mem lb (hd ?v) = Some s" using inv p lb_cell by blast
  then have gid: "GetID (lb_mem lb) (hd ?v) = si_id s" by (simp add: GetID_def)
  obtain h' where h': "MinHeap_Remove (GetID (lb_mem lb)) (SrvInfoComp (lb_mem lb)) (lb_heap lb) = Inr h'"
      "heap_ok (GetID (lb_mem lb)) (SrvInfoComp (lb_mem lb)) h'" "mset (heap_vec h') = mset ?v - {#hd ?v#}"
      "dom (heap_idx h') = dom (heap_idx (lb_heap lb)) - {si_id s}"
    using si.MinHeap_Remove_ok [OF ok ne] gid by auto
  note d = lb_drop [OF inv p gid h'(2,3)]
  have least: "si_load s \<le> si_load x" if x: "registry lb sid = Some x" for sid x
  proof -
    obtain q where "q \<in> set ?v" "lb_mem lb q = Some x" using inv x by (rule registry_SomeE)
    then show ?thesis using si.MinHeap_Get_least(2) [OF ok ne] s by (force simp: SrvInfoComp_def)
  qed
  have "stale_ids (hm_erase (lb\<lparr>lb_heap := h'\<rparr>) (si_id s)) = stale_ids lb"
    using h'(4) registry_of_cell [OF inv p] s gid unfolding stale_ids_def d(2,3) by auto
  then show ?thesis
    using h'(1) s gid d registry_of_cell [OF inv p] least
    by (intro exI [of _ h'] exI [of _ s] conjI) (auto simp: ran_def)
qed

lemma minimal_answer_drop:
  assumes s: "registry lb (si_id s) = Some s" "timed_out (clk n) s"
    and reg: "registry lb1 = (registry lb)(si_id s := None)" "stale_ids lb1 = stale_ids lb"
    and rest: "minimal_answer clk (Suc n) True lb1 r upd lb'"
  shows "minimal_answer clk n u lb r upd lb'"
proof -
  have lb': "lb_inv lb'" "registry lb' \<subseteq>\<^sub>m registry lb1" "stale_ids lb' = stale_ids lb1" upd
    and old: "\<And>sid x. registry lb1 sid = Some x \<Longrightarrow> registry lb' sid = None \<Longrightarrow> \<exists>k\<ge>Suc n. timed_out (clk k) x"
    and ans: "case r of None \<Rightarrow> registry lb' = Map.empty
      | Some s \<Rightarrow> registry lb' (si_id s) = Some s \<and> (\<exists>k\<ge>Suc n. \<not> timed_out (clk k) s) \<and>
          (\<forall>x\<in>ran (registry lb'). si_load s \<le> si_load x)"
    using rest unfolding minimal_answer_def by auto
  have sub: "registry lb' \<subseteq>\<^sub>m registry lb" using lb'(2) reg by (auto simp: map_le_def split: if_splits)
  have gone: "registry lb' (si_id s) = None" using lb'(2) reg by (auto simp: map_le_def dom_def)
  then have "registry lb' \<noteq> registry lb" using s(1) by (metis option.distinct(1))
  moreover have "\<exists>k\<ge>n. timed_out (clk k) x" if "registry lb sid = Some x" "registry lb' sid = None" for sid x
    using old [of sid x] that s reg by (cases "sid = si_id s") (auto dest: Suc_leD)
  ultimately show ?thesis
    using lb' sub reg ans unfolding minimal_answer_def
    by (auto dest: Suc_leD split: option.splits)
qed

lemma GetMinimal_loop_ok:
  "lb_inv lb \<Longrightarrow> \<exists>r upd lb'. GetMinimal_loop clk n u lb = Inr ((r, upd), lb') \<and> minimal_answer clk n u lb r upd lb'"
proof (induction clk n u lb rule: GetMinimal_loop.induct)
  case (1 clk n u lb)
  let ?v = "heap_vec (lb_heap lb)"
  show ?case
  proof (cases "?v = []")
    case True
    then have "registry lb = Map.empty" using lb_hm_iff [OF 1(2)] by (force simp: registry_def fun_eq_iff bind_eq_None_conv)
    with True 1(2) show ?thesis
      by (subst GetMinimal_loop.simps) (auto simp: MinHeap_Empty_def minimal_answer_def)
  next
    case False
    obtain h' s where s: "MinHeap_Remove (GetID (lb_mem lb)) (SrvInfoComp (lb_mem lb)) (lb_heap lb) = Inr h'"
        "lb_mem lb (hd ?v) = Some s" "registry lb (si_id s) = Some s" "GetID (lb_mem lb) (hd ?v) = si_id s"
        "\<forall>x\<in>ran (registry lb). si_load s \<le> si_load x"
      and lb1: "lb_inv (hm_erase (lb\<lparr>lb_heap := h'\<rparr>) (si_id s))"
        "registry (hm_erase (lb\<lparr>lb_heap := h'\<rparr>) (si_id s)) = (registry lb)(si_id s := None)"
        "stale_ids (hm_erase (lb\<lparr>lb_heap := h'\<rparr>) (si_id s)) = stale_ids lb"
      using MinHeap_Remove_hm_erase [OF 1(2) False] by metis
    have get: "MinHeap_Get (lb_heap lb) = Inr (hd ?v)" using False by (simp add: MinHeap_Get_def)
    show ?thesis
    proof (cases "timed_out (clk n) s")
      case True
      obtain r upd lb' where rec: "GetMinimal_loop clk (Suc n) True (hm_erase (lb\<lparr>lb_heap := h'\<rparr>) (si_id s)) = Inr ((r, upd), lb')"
          "minimal_answer clk (Suc n) True (hm_erase (lb\<lparr>lb_heap := h'\<rparr>) (si_id s)) r upd lb'"
        using 1(1) [OF _ get, of h'] False True s lb1(1) by (auto simp: MinHeap_Empty_def)
      have "minimal_answer clk n u lb r upd lb'"
        using s(3) True lb1(2,3) rec(2) by (rule minimal_answer_drop)
      with rec(1) show ?thesis
        using False True s get by (subst GetMinimal_loop.simps) (auto simp: MinHeap_Empty_def)
    next
      case alive: False
      with False s get 1(2) show ?thesis
        by (subst GetMinimal_loop.simps) (auto simp: MinHeap_Empty_def minimal_answer_def)
    qed
  qed
qed

section \<open>Expiry sweep\<close>

lemma CheckTTL_loop_ok:
  assumes "lb_inv lb" and "distinct ids" and "set ids \<subseteq> dom (registry lb)"
  shows "\<exists>lb'. CheckTTL_loop (\<lambda>_. now) ids n k lb =
      Inr (k + of_nat (length (filter (\<lambda>sid. timed_out now (the (registry lb sid))) ids)), lb') \<and> lb_inv lb' \<and>
    registry lb' = (\<lambda>sid. if sid \<in> set ids \<and> timed_out now (the (registry lb sid)) then None else registry lb sid) \<and>
    stale_ids lb' \<subseteq> stale_ids lb \<union> (dom (registry lb) - dom (registry lb'))"
  using assms
proof (induction ids arbitrary: lb n k)
  case Nil
  then show ?case by simp
next
  case (Cons sid ids)
  then obtain s where s: "registry lb sid = Some s" by auto
  obtain p where p: "lb_hm lb sid = Some p" "lb_mem lb p = Some s" "si_id s = sid"
    using Cons.prems(1) s by (rule registry_SomeE)
  show ?case
  proof (cases "timed_out now s")
    case False
    with Cons.IH [OF Cons.prems(1), of "Suc n" k] Cons.prems p s
    show ?thesis by (auto simp: fun_eq_iff)
  next
    case True
    obtain h' where h': "AnyRemove (GetID (lb_mem lb)) (SrvInfoComp (lb_mem lb)) (lb_heap lb) sid = Inr h'"
      and lb1: "lb_inv (hm_erase (lb\<lparr>lb_heap := h'\<rparr>) sid)"
        "registry (hm_erase (lb\<lparr>lb_heap := h'\<rparr>) sid) = (registry lb)(sid := None)"
        "stale_ids (hm_erase (lb\<lparr>lb_heap := h'\<rparr>) sid) \<subseteq> insert sid (stale_ids lb)"
      using AnyRemove_hm_erase [OF Cons.prems(1) s] by (auto split: if_splits)
    have same: "filter (\<lambda>x. timed_out now (the (((registry lb)(sid := None)) x))) ids =
        filter (\<lambda>x. timed_out now (the (registry lb x))) ids"
      using Cons.prems(2) by (intro filter_cong) auto
    have "set ids \<subseteq> dom (registry (hm_erase (lb\<lparr>lb_heap := h'\<rparr>) sid))" using Cons.prems lb1(2) by auto
    moreover have "distinct ids" using Cons.prems(2) by simp
    ultimately
    obtain lb' where lb': "CheckTTL_loop (\<lambda>_. now) ids (Suc n) (k + 1) (hm_erase (lb\<lparr>lb_heap := h'\<rparr>) sid) =
          Inr (k + 1 + of_nat (length (filter (\<lambda>x. timed_out now (the (registry lb x))) ids)), lb')" "lb_inv lb'"
        "registry lb' = (\<lambda>x. if x \<in> set ids \<and> timed_out now (the (((registry lb)(sid := None)) x)) then None
          else ((registry lb)(sid := None)) x)"
        "stale_ids lb' \<subseteq> stale_ids (hm_erase (lb\<lparr>lb_heap := h'\<rparr>) sid) \<union>
          (dom ((registry lb)(sid := None)) - dom (registry lb'))"
      using Cons.IH [OF lb1(1), of "Suc n" "k + 1"] unfolding lb1(2) same by blast
    have reg: "registry lb' = (\<lambda>x. if x \<in> set (sid # ids) \<and> timed_out now (the (registry lb x)) then None
        else registry lb x)"
      unfolding lb'(3) using True s by (auto simp: fun_eq_iff)
    have "sid \<in> dom (registry lb) - dom (registry lb')" using True s by (auto simp: reg)
    moreover have "dom ((registry lb)(sid := None)) \<subseteq> dom (registry lb)" by auto
    ultimately have "stale_ids lb' \<subseteq> stale_ids lb \<union> (dom (registry lb) - dom (registry lb'))"
      using lb'(4) lb1(3) by blast
    then show ?thesis
      using lb'(1,2) reg h' p s True by (intro exI [of _ lb'] conjI) (auto simp: add.assoc)
  qed
qed

section \<open>Registering an id the index still holds\<close>

lemma RegisterServerInfo_stale:
  assumes "lb_inv lb" and "registry lb sid = None"
    and "heap_idx (lb_heap lb) sid = Some i" and "length (heap_vec (lb_heap lb)) \<le> i"
  shows "RegisterServerInfo lb sid addr load now q = Inl Undefined_Behaviour"
  using assms lb_hm_None_iff [of lb sid] by (auto simp: RegisterServerInfo_def InsertOrUpdate_def Let_def)

section \<open>Properties\<close>

text \<open>
  C9: the query for the least loaded server always returns. It removes only servers it saw timed
  out, reports a removal if and only if it made one, and answers with a server that was alive when
  looked at and has the least load of all servers that remain, or with none when none remains.
\<close>

theorem GetMinimalLoadServerInfo_correct:
  assumes "lb_inv lb"
  shows "\<exists>r upd lb'. GetMinimalLoadServerInfo clk lb = Inr ((r, upd), lb') \<and> minimal_answer clk 0 False lb r upd lb'"
  using GetMinimal_loop_ok [OF assms] by (simp add: GetMinimalLoadServerInfo_def)

definition two_servers :: load_balancer where
  "two_servers = \<lparr>lb_heap = \<lparr>heap_vec = [1, 2], heap_idx = [7 \<mapsto> 0, 8 \<mapsto> 1]\<rparr>, lb_hm = [7 \<mapsto> 1, 8 \<mapsto> 2],
    lb_mem = [1 \<mapsto> \<lparr>si_id = 7, si_addr = ''h1'', si_load = 4, si_last_ts = 100\<rparr>,
              2 \<mapsto> \<lparr>si_id = 8, si_addr = ''h2'', si_load = 9, si_last_ts = 100\<rparr>]\<rparr>"

lemma two_servers_inv: "lb_inv two_servers"
  by (auto simp: two_servers_def lb_inv_def heap_ok_def is_heap_def idx_ok_def GetID_def SrvInfoComp_def less_Suc_eq
      heap_parent_def split: if_splits)

theorem GetMinimalLoadServerInfo_correct_witness:
  "\<exists>r upd lb'. GetMinimalLoadServerInfo (\<lambda>_. 200) two_servers = Inr ((r, upd), lb') \<and>
    minimal_answer (\<lambda>_. 200) 0 False two_servers r upd lb'"
  by (rule GetMinimalLoadServerInfo_correct [OF two_servers_inv])

text \<open>
  C13: removing the server in the last of several heap slots leaves its id in the index of the heap,
  and when a server registers under that id again the heap is written out of bounds.
\<close>

theorem reregister_after_removal_undefined:
  assumes "lb_inv lb" and "registry lb sid = Some s" and "last_slot lb sid"
  shows "\<exists>lb'. RemoveServer lb sid = Inr (True, lb') \<and>
    RegisterServerInfo lb' sid addr load now q = Inl Undefined_Behaviour"
proof -
  obtain lb' where lb': "RemoveServer lb sid = Inr (True, lb')" "lb_inv lb'" "registry lb' = (registry lb)(sid := None)"
      "heap_idx (lb_heap lb') sid = Some (length (heap_vec (lb_heap lb')))"
    using RemoveServer_ok [OF assms(1,2)] assms(3) by blast
  then show ?thesis using RegisterServerInfo_stale [OF lb'(2) _ lb'(4)] by auto
qed

theorem reregister_after_removal_undefined_witness:
  "\<exists>lb'. RemoveServer two_servers 8 = Inr (True, lb') \<and>
    RegisterServerInfo lb' 8 ''h2'' 0 300 2 = Inl Undefined_Behaviour"
  by (rule reregister_after_removal_undefined [OF two_servers_inv])
    (simp_all add: two_servers_def registry_def last_slot_def GetID_def)

text \<open>
  A load of \<open>2 ^ 31\<close> or more turns the hint negative. Coming from load 4 the subtraction overflows,
  which is undefined; coming from load 0 the server is moved towards the root although its load
  grew, and the query then answers with it instead of the one with load 9.
\<close>

lemma large_load_answered_first:
  "UpdateServerLoad two_servers 7 (2 ^ 31) 100 = Inl Undefined_Behaviour \<and>
   (\<exists>lb' s x. bindR (UpdateServerLoad two_servers 7 0 100) (\<lambda>(ret, lb).
        bindR (UpdateServerLoad lb 7 (2 ^ 31) 100) (\<lambda>(ret, lb). GetMinimalLoadServerInfo (\<lambda>_. 200) lb)) =
      Inr ((Some s, False), lb') \<and>
    si_id s = 7 \<and> si_load s = 2 ^ 31 \<and> registry lb' 8 = Some x \<and> si_load x = 9)"
  by (simp add: two_servers_def UpdateServerLoad_def load_hint_def Let_def InsertOrUpdate_def HeapUp.simps
      GetMinimalLoadServerInfo_def GetMinimal_loop.simps MinHeap_Empty_def MinHeap_Get_def timed_out_def
      SERVER_TIMEOUT_def registry_def)

end
