(* ===== verification/Status_Server.thy ===== *)
theory Status_Server
  imports Load_Balancer Cpp_Text
begin

text \<open>
  The status server around the balancer: the gRPC handlers of \<open>src/include/status/status_service_impl.hpp\<close>,
  the uploader thread of \<open>src/status/status_uploader.cpp\<close> with the Redis command it issues
  (\<open>src/status/redis/status_redis.cpp\<close>), and the life cycle of \<open>src/status/status_class.cpp\<close>. The worker
  thread is a machine whose phases are the points at which it holds no lock, so that calls of other
  threads interleave between its steps; wake-up reasons, clock readings, iteration orders and the
  answers of Redis are inputs of the steps. The lemmas show that the handlers refine a map of servers,
  that an upload publishes exactly the live servers, and that a request for an update which arrives
  during an upload is dropped.
\<close>

section \<open>Remote procedure calls\<close>

datatype grpc_code = GRPC_OK | NOT_FOUND | UNIMPLEMENTED | UNKNOWN

type_synonym grpc_status = "grpc_code \<times> string"

record server_addr_resp =
  sar_ret :: u32
  sar_server_id :: u32
  sar_server_addr :: string

record server_item =
  item_id :: u32
  item_addr :: string
  item_load :: u32
  item_last_ts :: u64

section \<open>The uploader\<close>

record timed_uploader =
  up_running :: bool
  up_pending :: bool
  up_err_count :: u32
  up_err_count_max :: u32

definition TimedUploader_new :: timed_uploader where
  "TimedUploader_new = \<lparr>up_running = False, up_pending = False, up_err_count = 0, up_err_count_max = 3\<rparr>"

definition UpdateNow :: "timed_uploader \<Rightarrow> timed_uploader" where
  "UpdateNow u = u\<lparr>up_pending := True\<rparr>"

text \<open>
  The worker thread between two of its steps. \<open>Waiting\<close> is inside \<open>cv_.wait_for\<close>; \<open>Unlocked\<close>, \<open>Swept\<close> and
  \<open>Copied\<close> lie in the stretch where it gave up the lock; \<open>Relocking\<close> is before \<open>lock.lock()\<close>;
  \<open>Terminated\<close> is an exception that left the thread function.
\<close>

datatype up_worker =
    Not_Started | Starting | Waiting | Unlocked | Swept | Copied "(string \<times> string) list" | Relocking
  | Returned | Terminated

datatype redis_cmd = Ping | Hsetex string "(string \<times> string) list" nat

record status_server =
  ss_lb :: load_balancer
  ss_up :: timed_uploader
  ss_pc :: up_worker
  ss_cmds :: "redis_cmd list"

definition up_Start :: "status_server \<Rightarrow> status_server" where
  "up_Start st = st\<lparr>ss_up := (ss_up st)\<lparr>up_running := True\<rparr>, ss_pc := Starting\<rparr>"

text \<open>\<open>Stop\<close> up to the \<open>join\<close>, which waits for \<open>Returned\<close>.\<close>

definition up_Stop :: "status_server \<Rightarrow> status_server" where
  "up_Stop st = st\<lparr>ss_up := (ss_up st)\<lparr>up_running := False\<rparr>\<rparr>"

text \<open>\<open>while (running_) { while (running_ && !pending_) wait; if (!running_) break; unlock; ...\<close>\<close>

definition loop_head :: "timed_uploader \<Rightarrow> up_worker" where
  "loop_head u = (if \<not> up_running u then Returned else if up_pending u then Unlocked else Waiting)"

text \<open>\<open>serv_list.emplace\<close> keeps the value of a key that is already there.\<close>

definition emplace :: "('k \<times> 'v) list \<Rightarrow> 'k \<Rightarrow> 'v \<Rightarrow> ('k \<times> 'v) list" where
  "emplace m k v = (case map_of m k of None \<Rightarrow> m @ [(k, v)] | Some _ \<Rightarrow> m)"

definition serv_list_of :: "server_info list \<Rightarrow> (string \<times> string) list" where
  "serv_list_of out = foldl (\<lambda>m item. emplace m (to_string (unat (si_id item))) (si_addr item)) [] out"

text \<open>\<open>pong\<close> and \<open>ans\<close> are what Redis answers to \<open>PING\<close> and \<open>HSETEX\<close>.\<close>

definition UpdateServerList :: "string \<Rightarrow> int \<Rightarrow> (string \<times> string) list \<Rightarrow> bool \<times> redis_cmd" where
  "UpdateServerList pong ans serv_list =
    (if serv_list = [] then (pong \<noteq> '''', Ping)
     else (ans \<noteq> 0, Hsetex ''server_list'' serv_list 40000))"

definition up_result :: "bool \<Rightarrow> timed_uploader \<Rightarrow> up_worker \<times> timed_uploader" where
  "up_result ret u =
    (if \<not> ret then
       (let u' = u\<lparr>up_err_count := up_err_count u + 1\<rparr>
        in if up_err_count u' > up_err_count_max u' then (Terminated, u') else (Relocking, u'))
     else (Relocking, u\<lparr>up_err_count := 0, up_pending := False\<rparr>))"

datatype up_event =
    Ev_Lock
  | Ev_Wake bool
  | Ev_Sweep "nat \<Rightarrow> u64" "u32 list"
  | Ev_Copy "u32 list"
  | Ev_Upload string int
  | Ev_UpdateNow
  | Ev_Stop
  | Ev_Register u32 string u32 u64 nat
  | Ev_Report u32 u32 u64

text \<open>
  A step of the worker, or of another thread that calls in between. An event of the worker that
  does not fit its phase changes nothing.
\<close>

definition up_step :: "up_event \<Rightarrow> status_server \<Rightarrow> (unit \<times> status_server) result" where
  "up_step ev st =
    (case ev of
       Ev_Lock \<Rightarrow>
         Inr ((), if ss_pc st = Starting \<or> ss_pc st = Relocking then st\<lparr>ss_pc := loop_head (ss_up st)\<rparr> else st)
     | Ev_Wake timeout \<Rightarrow>
         Inr ((), if ss_pc st = Waiting
                  then (let u = (if timeout then (ss_up st)\<lparr>up_pending := True\<rparr> else ss_up st)
                        in st\<lparr>ss_up := u, ss_pc := loop_head u\<rparr>)
                  else st)
     | Ev_Sweep clk ord \<Rightarrow>
         (if ss_pc st = Unlocked
          then bindR (CheckTTL clk ord (ss_lb st)) (\<lambda>(removed, lb). Inr ((), st\<lparr>ss_lb := lb, ss_pc := Swept\<rparr>))
          else Inr ((), st))
     | Ev_Copy ord \<Rightarrow>
         Inr ((), if ss_pc st = Swept
                  then st\<lparr>ss_pc := Copied (serv_list_of (CopyServerInfoList ord (ss_lb st)))\<rparr> else st)
     | Ev_Upload pong ans \<Rightarrow>
         Inr ((), case ss_pc st of
                    Copied l \<Rightarrow>
                      (let (ret, cmd) = UpdateServerList pong ans l; (pc, u) = up_result ret (ss_up st)
                       in st\<lparr>ss_up := u, ss_pc := pc, ss_cmds := ss_cmds st @ [cmd]\<rparr>)
                  | _ \<Rightarrow> st)
     | Ev_UpdateNow \<Rightarrow> Inr ((), st\<lparr>ss_up := UpdateNow (ss_up st)\<rparr>)
     | Ev_Stop \<Rightarrow> Inr ((), up_Stop st)
     | Ev_Register sid addr load now p \<Rightarrow>
         bindR (RegisterServerInfo (ss_lb st) sid addr load now p) (\<lambda>(ret, lb). Inr ((), st\<lparr>ss_lb := lb\<rparr>))
     | Ev_Report sid load now \<Rightarrow>
         bindR (UpdateServerLoad (ss_lb st) sid load now) (\<lambda>(ret, lb). Inr ((), st\<lparr>ss_lb := lb\<rparr>)))"

section \<open>Handlers of the service\<close>

definition ReportServerLoad ::
  "u32 \<Rightarrow> u32 \<Rightarrow> u64 \<Rightarrow> status_server \<Rightarrow> ((grpc_status \<times> u32) \<times> status_server) result" where
  "ReportServerLoad srv load now st =
    bindR (UpdateServerLoad (ss_lb st) srv load now) (\<lambda>(ret, lb).
      if ret then Inr (((GRPC_OK, ''''), 0), st\<lparr>ss_lb := lb\<rparr>)
      else Inr (((NOT_FOUND, ''Couldn't found server with that ID.''), 1), st\<lparr>ss_lb := lb\<rparr>))"

definition CheckUserOnline :: "status_server \<Rightarrow> grpc_status \<times> status_server" where
  "CheckUserOnline st = ((UNIMPLEMENTED, ''CheckUserOnline not implemented yet.''), st)"

definition CheckMinimalLoadServer ::
  "(nat \<Rightarrow> u64) \<Rightarrow> status_server \<Rightarrow> ((grpc_status \<times> server_addr_resp) \<times> status_server) result" where
  "CheckMinimalLoadServer clk st =
    bindR (GetMinimalLoadServerInfo clk (ss_lb st)) (\<lambda>((si, updated), lb).
      case si of
        None \<Rightarrow>
          Inr (((NOT_FOUND, ''No server currently available.''),
                \<lparr>sar_ret = 1, sar_server_id = 0, sar_server_addr = ''''\<rparr>), st\<lparr>ss_lb := lb\<rparr>)
      | Some s \<Rightarrow>
          (let st' = st\<lparr>ss_lb := lb\<rparr>;
               st'' = (if updated then st'\<lparr>ss_up := UpdateNow (ss_up st')\<rparr> else st')
           in Inr (((GRPC_OK, ''''), \<lparr>sar_ret = 0, sar_server_id = si_id s, sar_server_addr = si_addr s\<rparr>), st'')))"

definition RegisterServer ::
  "u32 \<Rightarrow> string \<Rightarrow> u32 \<Rightarrow> u64 \<Rightarrow> nat \<Rightarrow> status_server \<Rightarrow> ((grpc_status \<times> u32) \<times> status_server) result" where
  "RegisterServer srv addr load now p st =
    bindR (RegisterServerInfo (ss_lb st) srv addr load now p) (\<lambda>(ret, lb).
      if ret then Inr (((GRPC_OK, ''''), 0), st\<lparr>ss_lb := lb, ss_up := UpdateNow (ss_up st)\<rparr>)
      else Inr (((UNKNOWN, ''Unknown error in register.''), 1), st\<lparr>ss_lb := lb\<rparr>))"

definition KickOnlineUser :: "status_server \<Rightarrow> grpc_status \<times> status_server" where
  "KickOnlineUser st = ((UNIMPLEMENTED, ''KickOnlineUser not implemented yet.''), st)"

definition DumpServerList :: "u32 list \<Rightarrow> status_server \<Rightarrow> (grpc_status \<times> u32 \<times> server_item list) \<times> status_server" where
  "DumpServerList ord st =
    (let out = CopyServerInfoList ord (ss_lb st)
     in (((GRPC_OK, ''''), 0,
          map (\<lambda>item. \<lparr>item_id = si_id item, item_addr = si_addr item, item_load = si_load item,
                       item_last_ts = si_last_ts item\<rparr>) out), st))"

section \<open>Specification: a map of servers and the ids that must not come back\<close>

datatype status_op =
    Op_Report u32 u32 u64
  | Op_Register u32 string u32 u64
  | Op_Minimal u64
  | Op_Sweep u64

type_synonym status_out = "grpc_status \<times> server_addr_resp option"

text \<open>
  One call into the server. \<open>alloc\<close> picks the address of a new record and \<open>enum\<close> the iteration order
  of \<open>hm_\<close>; the clock stands still during a call.
\<close>

definition status_call ::
  "(si_mem \<Rightarrow> nat) \<Rightarrow> (load_balancer \<Rightarrow> u32 list) \<Rightarrow> status_op \<Rightarrow> status_server \<Rightarrow> (status_out \<times> status_server) result" where
  "status_call alloc enum op st =
    (case op of
       Op_Report sid load now \<Rightarrow>
         bindR (ReportServerLoad sid load now st) (\<lambda>((s, ret), st'). Inr ((s, None), st'))
     | Op_Register sid addr load now \<Rightarrow>
         bindR (RegisterServer sid addr load now (alloc (lb_mem (ss_lb st))) st) (\<lambda>((s, ret), st'). Inr ((s, None), st'))
     | Op_Minimal now \<Rightarrow>
         bindR (CheckMinimalLoadServer (\<lambda>_. now) st) (\<lambda>((s, resp), st'). Inr ((s, Some resp), st'))
     | Op_Sweep now \<Rightarrow>
         bindR (CheckTTL (\<lambda>_. now) (enum (ss_lb st)) (ss_lb st)) (\<lambda>(removed, lb).
           Inr (((GRPC_OK, ''''), None), st\<lparr>ss_lb := lb\<rparr>)))"

definition fresh_alloc :: "(si_mem \<Rightarrow> nat) \<Rightarrow> bool" where
  "fresh_alloc alloc = (\<forall>mem. finite (dom mem) \<longrightarrow> mem (alloc mem) = None)"

definition iter_order :: "(load_balancer \<Rightarrow> u32 list) \<Rightarrow> bool" where
  "iter_order enum = (\<forall>lb. distinct (enum lb) \<and> set (enum lb) = dom (lb_hm lb))"

type_synonym status_abs = "(u32 \<rightharpoonup> server_info) \<times> u32 set"

definition alive :: "u64 \<Rightarrow> (u32 \<rightharpoonup> server_info) \<Rightarrow> server_info set" where
  "alive now m = {s \<in> ran m. \<not> timed_out now s}"

text \<open>
  The second component of an abstract state collects the ids a sweep removed; such an id must not
  register again while it is gone.
\<close>

definition status_pre :: "status_op \<Rightarrow> status_abs \<Rightarrow> bool" where
  "status_pre op a =
    (case op of
       Op_Report sid load now \<Rightarrow> small_load load
     | Op_Register sid addr load now \<Rightarrow> small_load load \<and> (sid \<in> dom (fst a) \<or> sid \<notin> snd a)
     | Op_Minimal now \<Rightarrow> True
     | Op_Sweep now \<Rightarrow> True)"

definition minimal_spec :: "u64 \<Rightarrow> (u32 \<rightharpoonup> server_info) \<Rightarrow> status_out \<Rightarrow> (u32 \<rightharpoonup> server_info) \<Rightarrow> bool" where
  "minimal_spec now m out m' =
    (m' \<subseteq>\<^sub>m m \<and> alive now m' = alive now m \<and>
     (if alive now m = {} then fst (fst out) = NOT_FOUND \<and> m' = Map.empty
      else fst (fst out) = GRPC_OK \<and>
        (\<exists>s\<in>alive now m. (\<forall>x\<in>alive now m. si_load s \<le> si_load x) \<and>
           snd out = Some \<lparr>sar_ret = 0, sar_server_id = si_id s, sar_server_addr = si_addr s\<rparr>)))"

definition status_spec :: "status_op \<Rightarrow> status_abs \<Rightarrow> status_out \<Rightarrow> status_abs \<Rightarrow> bool" where
  "status_spec op a out a' =
    (case op of
       Op_Report sid load now \<Rightarrow>
         (case fst a sid of
            None \<Rightarrow> fst (fst out) = NOT_FOUND \<and> a' = a
          | Some s \<Rightarrow> fst (fst out) = GRPC_OK \<and> a' = ((fst a)(sid \<mapsto> s\<lparr>si_load := load, si_last_ts := now\<rparr>), snd a))
     | Op_Register sid addr load now \<Rightarrow>
         fst (fst out) = GRPC_OK \<and> a' = ((fst a)(sid \<mapsto> ServerInfo_new sid addr load now), snd a)
     | Op_Minimal now \<Rightarrow> minimal_spec now (fst a) out (fst a') \<and> snd a' = snd a
     | Op_Sweep now \<Rightarrow>
         fst a' = (\<lambda>sid. case fst a sid of None \<Rightarrow> None | Some s \<Rightarrow> if timed_out now s then None else Some s) \<and>
         snd a' = snd a \<union> (dom (fst a) - dom (fst a')))"

definition status_sim ::
  "(si_mem \<Rightarrow> nat) \<Rightarrow> (load_balancer \<Rightarrow> u32 list) \<Rightarrow> status_server \<Rightarrow> status_abs \<Rightarrow> bool" where
  "status_sim alloc enum st a =
    (fresh_alloc alloc \<and> iter_order enum \<and> lb_inv (ss_lb st) \<and> registry (ss_lb st) = fst a \<and>
     stale_ids (ss_lb st) \<subseteq> snd a \<and> small_loads (ss_lb st))"

definition StatusServer_new :: status_server where
  "StatusServer_new = \<lparr>ss_lb = LoadBalancer_new, ss_up = TimedUploader_new, ss_pc = Not_Started, ss_cmds = []\<rparr>"

section \<open>The handlers refine the map\<close>

lemma lb_inv_new: "lb_inv LoadBalancer_new" "registry LoadBalancer_new = Map.empty" "stale_ids LoadBalancer_new = {}"
  by (auto simp: lb_inv_def LoadBalancer_new_def MinHeap_empty_def heap_ok_def is_heap_def idx_ok_def
      registry_def stale_ids_def)

lemma UpdateServerLoad_unknown:
  "lb_inv lb \<Longrightarrow> registry lb sid = None \<Longrightarrow> UpdateServerLoad lb sid load now = Inr (False, lb)"
  using lb_hm_None_iff [of lb sid] by (simp add: UpdateServerLoad_def)

lemma small_loads_upd:
  "small_loads lb \<Longrightarrow> registry lb' = (registry lb)(sid \<mapsto> s) \<Longrightarrow> small_load (si_load s) \<Longrightarrow> small_loads lb'"
  by (auto simp: small_loads_def ran_def split: if_splits)

lemma small_loadsD: "small_loads lb \<Longrightarrow> registry lb sid = Some s \<Longrightarrow> small_load (si_load s)"
  by (auto simp: small_loads_def ran_def)

lemma dom_lb_hm: "lb_inv lb \<Longrightarrow> dom (lb_hm lb) = dom (registry lb)"
  using lb_hm_None_iff by (auto simp: dom_def)

lemma small_loads_sub: "small_loads lb \<Longrightarrow> registry lb' \<subseteq>\<^sub>m registry lb \<Longrightarrow> small_loads lb'"
  unfolding small_loads_def ran_def map_le_def dom_def by fastforce

lemma RegisterServerInfo_ok:
  assumes inv: "lb_inv lb" and small: "small_loads lb" "small_load load"
    and stale: "sid \<in> dom (registry lb) \<or> sid \<notin> stale_ids lb" and q: "lb_mem lb q = None"
  shows "\<exists>lb'. RegisterServerInfo lb sid addr load now q = Inr (True, lb') \<and> lb_inv lb' \<and>
    registry lb' = (registry lb)(sid \<mapsto> ServerInfo_new sid addr load now) \<and> stale_ids lb' = stale_ids lb"
proof (cases "registry lb sid")
  case None
  with assms show ?thesis by (intro RegisterServerInfo_fresh) auto
next
  case (Some s0)
  moreover have "small_load (si_load s0)" using small(1) Some by (auto simp: small_loads_def ran_def)
  ultimately show ?thesis using inv small(2) by (intro RegisterServerInfo_known) auto
qed

lemma lb_inv_finite: "lb_inv lb \<Longrightarrow> finite (dom (lb_mem lb))"
  by (simp add: lb_inv_def)

text \<open>With the clock standing still the loop answers for the servers alive in the state before it.\<close>

lemma minimal_answer_still:
  assumes "minimal_answer (\<lambda>_. now) n False lb r upd lb'"
  shows "registry lb' \<subseteq>\<^sub>m registry lb" and "alive now (registry lb') = alive now (registry lb)"
    and "r = None \<Longrightarrow> alive now (registry lb) = {} \<and> registry lb' = Map.empty"
    and "r = Some s \<Longrightarrow> s \<in> alive now (registry lb) \<and> (\<forall>x\<in>alive now (registry lb). si_load s \<le> si_load x)"
proof -
  show sub: "registry lb' \<subseteq>\<^sub>m registry lb" using assms by (simp add: minimal_answer_def)
  have gone: "registry lb sid = Some x \<Longrightarrow> registry lb' sid = None \<Longrightarrow> timed_out now x" for sid x
    using assms by (auto simp: minimal_answer_def)
  show eq: "alive now (registry lb') = alive now (registry lb)"
  proof (intro set_eqI iffI)
    fix x assume "x \<in> alive now (registry lb')"
    then show "x \<in> alive now (registry lb)" using sub by (force simp: alive_def ran_def map_le_def)
  next
    fix x assume "x \<in> alive now (registry lb)"
    then obtain sid where x: "registry lb sid = Some x" "\<not> timed_out now x" by (auto simp: alive_def ran_def)
    with gone obtain y where y: "registry lb' sid = Some y" by (cases "registry lb' sid") auto
    then have "y = x" using sub x by (force simp: map_le_def)
    with x y show "x \<in> alive now (registry lb')" by (auto simp: alive_def ran_def)
  qed
  show "alive now (registry lb) = {} \<and> registry lb' = Map.empty" if "r = None"
  proof -
    have "registry lb' = Map.empty" using assms that by (simp add: minimal_answer_def)
    then show ?thesis using eq by (simp add: alive_def)
  qed
  show "s \<in> alive now (registry lb) \<and> (\<forall>x\<in>alive now (registry lb). si_load s \<le> si_load x)" if "r = Some s"
    unfolding eq [symmetric] using assms that by (auto simp: minimal_answer_def alive_def ran_def)
qed

lemma CheckMinimalLoadServer_ok:
  assumes "lb_inv (ss_lb st)"
  shows "\<exists>out st'. CheckMinimalLoadServer (\<lambda>_. now) st = Inr (out, st') \<and> lb_inv (ss_lb st') \<and>
    minimal_spec now (registry (ss_lb st)) (fst out, Some (snd out)) (registry (ss_lb st')) \<and>
    stale_ids (ss_lb st') = stale_ids (ss_lb st)"
proof -
  obtain r upd lb' where lb': "GetMinimal_loop (\<lambda>_. now) 0 False (ss_lb st) = Inr ((r, upd), lb')"
      "minimal_answer (\<lambda>_. now) 0 False (ss_lb st) r upd lb'"
    using GetMinimal_loop_ok [OF assms] by blast
  note still = minimal_answer_still [OF lb'(2)]
  have "lb_inv lb'" "stale_ids lb' = stale_ids (ss_lb st)" using lb'(2) by (auto simp: minimal_answer_def)
  with still lb'(1) show ?thesis
    by (cases r) (auto simp: CheckMinimalLoadServer_def GetMinimalLoadServerInfo_def minimal_spec_def Let_def)
qed

lemma status_step_report:
  assumes sim: "status_sim alloc enum st a" and small: "small_load load"
  shows "\<exists>out st' a'. status_call alloc enum (Op_Report sid load now) st = Inr (out, st') \<and>
    status_spec (Op_Report sid load now) a out a' \<and> status_sim alloc enum st' a'"
proof (cases "registry (ss_lb st) sid")
  case None
  then show ?thesis
    using sim UpdateServerLoad_unknown [of "ss_lb st" sid load now]
    by (auto simp: status_call_def status_spec_def ReportServerLoad_def status_sim_def)
next
  case (Some s)
  let ?s = "s\<lparr>si_load := load, si_last_ts := now\<rparr>"
  have "small_load (si_load s)" using sim Some by (auto simp: status_sim_def dest: small_loadsD)
  then obtain lb' where lb': "UpdateServerLoad (ss_lb st) sid load now = Inr (True, lb')" "lb_inv lb'"
      "registry lb' = (registry (ss_lb st))(sid \<mapsto> ?s)" "stale_ids lb' = stale_ids (ss_lb st)"
    using sim small Some UpdateServerLoad_ok [of "ss_lb st" sid s load now] by (auto simp: status_sim_def)
  have "small_loads lb'" using sim small lb'(3) by (auto simp: status_sim_def intro: small_loads_upd)
  with lb' Some sim show ?thesis
    by (auto simp: status_call_def status_spec_def ReportServerLoad_def status_sim_def)
qed

lemma status_step_register:
  assumes sim: "status_sim alloc enum st a" and pre: "status_pre (Op_Register sid addr load now) a"
  shows "\<exists>out st' a'. status_call alloc enum (Op_Register sid addr load now) st = Inr (out, st') \<and>
    status_spec (Op_Register sid addr load now) a out a' \<and> status_sim alloc enum st' a'"
proof -
  let ?lb = "ss_lb st" and ?s = "ServerInfo_new sid addr load now"
  have small: "small_loads ?lb" "small_load load" and inv: "lb_inv ?lb"
    using sim pre by (auto simp: status_sim_def status_pre_def)
  have fresh: "lb_mem ?lb (alloc (lb_mem ?lb)) = None"
    using sim lb_inv_finite [OF inv] by (auto simp: fresh_alloc_def status_sim_def)
  have stl: "sid \<in> dom (registry ?lb) \<or> sid \<notin> stale_ids ?lb"
    using sim pre by (auto simp: status_pre_def status_sim_def)
  obtain lb' where lb': "RegisterServerInfo ?lb sid addr load now (alloc (lb_mem ?lb)) = Inr (True, lb')"
      "lb_inv lb'" "registry lb' = (registry ?lb)(sid \<mapsto> ?s)" "stale_ids lb' = stale_ids ?lb"
    using RegisterServerInfo_ok [OF inv small stl fresh, of addr now] by blast
  have "small_loads lb'" using small(2) by (intro small_loads_upd [OF small(1) lb'(3)]) (simp add: ServerInfo_new_def)
  with lb' sim show ?thesis
    by (auto simp: status_call_def status_spec_def RegisterServer_def status_sim_def)
qed

lemma status_step_minimal:
  assumes sim: "status_sim alloc enum st a"
  shows "\<exists>out st' a'. status_call alloc enum (Op_Minimal now) st = Inr (out, st') \<and>
    status_spec (Op_Minimal now) a out a' \<and> status_sim alloc enum st' a'"
proof -
  have "lb_inv (ss_lb st)" using sim by (simp add: status_sim_def)
  from CheckMinimalLoadServer_ok [OF this] obtain out resp st' where
    st': "CheckMinimalLoadServer (\<lambda>_. now) st = Inr ((out, resp), st')" "lb_inv (ss_lb st')"
      "minimal_spec now (registry (ss_lb st)) (out, Some resp) (registry (ss_lb st'))"
      "stale_ids (ss_lb st') = stale_ids (ss_lb st)"
    by (metis prod.collapse)
  have "small_loads (ss_lb st')"
    using sim st'(3) by (auto simp: status_sim_def minimal_spec_def intro: small_loads_sub)
  then have "status_sim alloc enum st' (registry (ss_lb st'), snd a)"
    using sim st' by (auto simp: status_sim_def)
  moreover have "status_spec (Op_Minimal now) a (out, Some resp) (registry (ss_lb st'), snd a)"
    using sim st'(3) by (auto simp: status_spec_def status_sim_def)
  moreover have "status_call alloc enum (Op_Minimal now) st = Inr ((out, Some resp), st')"
    using st'(1) by (simp add: status_call_def)
  ultimately show ?thesis by blast
qed

lemma status_step_sweep:
  assumes sim: "status_sim alloc enum st a"
  shows "\<exists>out st' a'. status_call alloc enum (Op_Sweep now) st = Inr (out, st') \<and>
    status_spec (Op_Sweep now) a out a' \<and> status_sim alloc enum st' a'"
proof -
  let ?lb = "ss_lb st"
  have inv: "lb_inv ?lb" using sim by (simp add: status_sim_def)
  have ord: "distinct (enum ?lb)" "set (enum ?lb) = dom (registry ?lb)"
    using sim dom_lb_hm [OF inv] by (auto simp: iter_order_def status_sim_def)
  then obtain n lb' where lb': "CheckTTL_loop (\<lambda>_. now) (enum ?lb) 0 0 ?lb = Inr (n, lb')" "lb_inv lb'"
      "registry lb' = (\<lambda>sid. if sid \<in> set (enum ?lb) \<and> timed_out now (the (registry ?lb sid)) then None else registry ?lb sid)"
      "stale_ids lb' \<subseteq> stale_ids ?lb \<union> (dom (registry ?lb) - dom (registry lb'))"
    using CheckTTL_loop_ok [OF inv ord(1) equalityD1 [OF ord(2)], of now 0 0] by blast
  let ?m = "\<lambda>sid. case fst a sid of None \<Rightarrow> None | Some s \<Rightarrow> if timed_out now s then None else Some s"
  let ?a = "(?m, snd a \<union> (dom (fst a) - dom ?m))"
  have reg: "registry ?lb = fst a" "registry lb' = ?m"
    using sim unfolding lb'(3) by (auto simp: status_sim_def ord(2) fun_eq_iff split: option.splits)
  then have "registry lb' \<subseteq>\<^sub>m registry ?lb" by (auto simp: map_le_def split: option.splits if_splits)
  then have "small_loads lb'" using sim by (auto simp: status_sim_def intro: small_loads_sub)
  moreover have "stale_ids lb' \<subseteq> snd ?a" using lb'(4) sim unfolding reg by (auto simp: status_sim_def)
  ultimately have "status_sim alloc enum (st\<lparr>ss_lb := lb'\<rparr>) ?a"
    using lb'(2) sim reg by (simp add: status_sim_def)
  moreover have "status_spec (Op_Sweep now) a ((GRPC_OK, ''''), None) ?a" by (simp add: status_spec_def)
  moreover have "status_call alloc enum (Op_Sweep now) st = Inr (((GRPC_OK, ''''), None), st\<lparr>ss_lb := lb'\<rparr>)"
    using lb'(1) by (simp add: status_call_def CheckTTL_def)
  ultimately show ?thesis by blast
qed

interpretation status: refinement "status_sim alloc enum" "status_call alloc enum" status_pre status_spec
  for alloc enum
proof
  fix st a op
  assume "status_sim alloc enum st a" and "status_pre op a"
  then show "\<exists>out st' a'. status_call alloc enum op st = Inr (out, st') \<and> status_spec op a out a' \<and>
    status_sim alloc enum st' a'"
    using status_step_report [of alloc enum st a] status_step_register [of alloc enum st a]
      status_step_minimal [of alloc enum st a] status_step_sweep [of alloc enum st a]
    by (cases op) (simp_all add: status_pre_def)
qed

section \<open>The uploader\<close>

lemma map_of_emplace: "map_of (emplace m k v) x = (case map_of m x of None \<Rightarrow> if x = k then Some v else None | Some w \<Rightarrow> Some w)"
  by (auto simp: emplace_def map_add_def split: option.splits)

lemma map_of_emplace_all:
  "map_of (foldl (\<lambda>m i. emplace m (f i) (g i)) m out) x =
    (case map_of m x of None \<Rightarrow> map_of (map (\<lambda>i. (f i, g i)) out) x | Some w \<Rightarrow> Some w)"
  by (induction out arbitrary: m) (auto simp: map_of_emplace split: option.splits)

lemma map_of_serv_list:
  assumes inv: "lb_inv lb" and ord: "set ord \<subseteq> dom (registry lb)"
  shows "map_of (serv_list_of (CopyServerInfoList ord lb)) (to_string (unat sid)) =
    (if sid \<in> set ord then map_option si_addr (registry lb sid) else None)"
proof -
  let ?rec = "\<lambda>x. the (lb_mem lb (the (lb_hm lb x)))"
  have rec: "registry lb x = Some (?rec x)" "si_id (?rec x) = x" if x: "x \<in> set ord" for x
  proof -
    obtain s where s: "registry lb x = Some s" using ord x by blast
    obtain p where "lb_hm lb x = Some p" "lb_mem lb p = Some s" "si_id s = x" using inv s by (rule registry_SomeE)
    with s show "registry lb x = Some (?rec x)" "si_id (?rec x) = x" by simp_all
  qed
  have "map_of (map (\<lambda>x. (to_string (unat (si_id (?rec x))), si_addr (?rec x))) ord) (to_string (unat sid)) =
      (if sid \<in> set ord then map_option si_addr (registry lb sid) else None)"
    using rec by (induction ord) (auto simp flip: word_unat_eq_iff)
  then show ?thesis
    by (simp add: serv_list_of_def CopyServerInfoList_def map_of_emplace_all comp_def)
qed

lemma up_step_sweep:
  assumes inv: "lb_inv (ss_lb st)" and pc: "ss_pc st = Unlocked"
    and ord: "distinct ord" "set ord = dom (registry (ss_lb st))"
  shows "\<exists>lb'. up_step (Ev_Sweep (\<lambda>_. now) ord) st = Inr ((), st\<lparr>ss_lb := lb', ss_pc := Swept\<rparr>) \<and> lb_inv lb' \<and>
    registry lb' = (\<lambda>sid. case registry (ss_lb st) sid of None \<Rightarrow> None | Some s \<Rightarrow> if timed_out now s then None else Some s)"
proof -
  obtain n lb' where lb': "CheckTTL_loop (\<lambda>_. now) ord 0 0 (ss_lb st) = Inr (n, lb')" "lb_inv lb'"
      "registry lb' = (\<lambda>sid. if sid \<in> set ord \<and> timed_out now (the (registry (ss_lb st) sid)) then None
        else registry (ss_lb st) sid)"
    using CheckTTL_loop_ok [OF inv ord(1) equalityD1 [OF ord(2)], of now 0 0] by blast
  have "registry lb' = (\<lambda>sid. case registry (ss_lb st) sid of None \<Rightarrow> None | Some s \<Rightarrow> if timed_out now s then None else Some s)"
    unfolding lb'(3) ord(2) by (auto simp: fun_eq_iff split: option.splits)
  with lb' pc show ?thesis by (auto simp: up_step_def CheckTTL_def)
qed

lemma up_step_copy:
  "ss_pc st = Swept \<Longrightarrow> up_step (Ev_Copy ord) st =
    Inr ((), st\<lparr>ss_pc := Copied (serv_list_of (CopyServerInfoList ord (ss_lb st)))\<rparr>)"
  by (simp add: up_step_def)

lemma up_step_upload:
  "ss_pc st = Copied l \<Longrightarrow> up_step (Ev_Upload pong ans) st =
    (let (ret, cmd) = UpdateServerList pong ans l
     in Inr ((), st\<lparr>ss_up := snd (up_result ret (ss_up st)), ss_pc := fst (up_result ret (ss_up st)),
                     ss_cmds := ss_cmds st @ [cmd]\<rparr>))"
  by (simp add: up_step_def split_def Let_def)

text \<open>The failure counter: at most three while the thread lives, four when it terminated.\<close>

definition up_ok :: "status_server \<Rightarrow> bool" where
  "up_ok st = (up_err_count_max (ss_up st) = 3 \<and>
    (if ss_pc st = Terminated then up_err_count (ss_up st) = 4 else up_err_count (ss_up st) \<le> 3))"

lemma up_result_ok:
  assumes "up_err_count u \<le> 3" and "up_err_count_max u = 3" and "up_result ret u = (pc, u')"
  shows "up_err_count_max u' = 3 \<and> (if pc = Terminated then up_err_count u' = 4 else up_err_count u' \<le> 3)"
proof (cases ret)
  case False
  have "up_err_count u + 1 = 4 \<or> up_err_count u + 1 \<le> 3"
  proof -
    have "unat (up_err_count u) \<le> 3" using assms(1) by (simp add: word_le_nat_alt)
    then have "unat (up_err_count u + 1) = unat (up_err_count u) + 1" by (simp add: unat_word_ariths)
    then show ?thesis using \<open>unat (up_err_count u) \<le> 3\<close>
      by (auto simp: word_le_nat_alt word_unat_eq_iff)
  qed
  with False assms show ?thesis by (auto simp: up_result_def Let_def split: if_splits)
qed (use assms in \<open>auto simp: up_result_def\<close>)

lemma up_step_ok: "up_ok st \<Longrightarrow> up_step ev st = Inr (out, st') \<Longrightarrow> up_ok st'"
proof (cases ev)
  case (Ev_Upload pong ans)
  assume ok: "up_ok st" and step: "up_step ev st = Inr (out, st')"
  show ?thesis
  proof (cases "ss_pc st")
    case (Copied l)
    obtain ret cmd where c: "UpdateServerList pong ans l = (ret, cmd)" by (metis surj_pair)
    obtain pc u where u: "up_result ret (ss_up st) = (pc, u)" by (metis surj_pair)
    have "st' = st\<lparr>ss_up := u, ss_pc := pc, ss_cmds := ss_cmds st @ [cmd]\<rparr>"
      using step Ev_Upload Copied c u by (simp add: up_step_def)
    then show ?thesis using ok Copied up_result_ok [OF _ _ u] by (auto simp: up_ok_def)
  qed (use ok step Ev_Upload in \<open>auto simp: up_step_def\<close>)
qed (auto simp: up_step_def up_ok_def loop_head_def UpdateNow_def up_Stop_def Let_def split: if_splits)

lemma up_run_ok: "up_ok st \<Longrightarrow> run_steps up_step evs st = Inr (outs, st') \<Longrightarrow> up_ok st'"
proof (induction evs arbitrary: st outs)
  case (Cons ev evs)
  then show ?case by (auto dest: up_step_ok)
qed simp

lemma up_step_skip [simp]:
  "ss_pc st \<noteq> Unlocked \<Longrightarrow> up_step (Ev_Sweep clk ord) st = Inr ((), st)"
  "ss_pc st \<noteq> Swept \<Longrightarrow> up_step (Ev_Copy ord) st = Inr ((), st)"
  "(\<And>l. ss_pc st \<noteq> Copied l) \<Longrightarrow> up_step (Ev_Upload pong ans) st = Inr ((), st)"
  by (auto simp: up_step_def split: up_worker.split)

lemma up_result_relocks:
  assumes "\<not> 3 < up_err_count u + 1" and "up_err_count_max u = 3"
  shows "fst (up_result ret u) = Relocking" and "up_running (snd (up_result ret u)) = up_running u"
  using assms by (auto simp: up_result_def Let_def)

lemma up_stopped_returns:
  assumes "\<not> up_running (ss_up st)" and "ss_pc st \<in> {Starting, Waiting, Relocking, Returned}"
  shows "\<exists>outs st'. run_steps up_step [Ev_Lock, Ev_Wake timeout] st = Inr (outs, st') \<and> ss_pc st' = Returned"
  using assms by (auto simp: up_step_def loop_head_def Let_def)

lemma up_stopped_upload_returns:
  assumes "\<not> up_running (ss_up st)" and "ss_pc st \<in> {Starting, Waiting, Relocking, Returned} \<or> ss_pc st = Copied l"
    and err: "\<not> 3 < up_err_count (ss_up st) + 1" "up_err_count_max (ss_up st) = 3"
  shows "\<exists>outs st'. run_steps up_step [Ev_Upload pong ans, Ev_Lock, Ev_Wake timeout] st = Inr (outs, st') \<and>
    ss_pc st' = Returned"
proof -
  have "\<exists>st1. up_step (Ev_Upload pong ans) st = Inr ((), st1) \<and> \<not> up_running (ss_up st1) \<and>
      ss_pc st1 \<in> {Starting, Waiting, Relocking, Returned}"
  proof (cases "ss_pc st = Copied l")
    case True
    with assms(1) show ?thesis by (simp add: up_step_upload split_def Let_def up_result_relocks [OF err])
  next
    case False
    with assms(1,2) show ?thesis by auto
  qed
  then obtain st1 where st1: "up_step (Ev_Upload pong ans) st = Inr ((), st1)" "\<not> up_running (ss_up st1)"
      "ss_pc st1 \<in> {Starting, Waiting, Relocking, Returned}" by blast
  obtain outs st' where "run_steps up_step [Ev_Lock, Ev_Wake timeout] st1 = Inr (outs, st')" "ss_pc st' = Returned"
    using up_stopped_returns [OF st1(2,3)] by blast
  with st1(1) show ?thesis by (auto split: prod.splits)
qed

section \<open>Properties\<close>

text \<open>
  C8: every sequence of calls (load reports, registrations, queries for the least loaded server and
  expiry sweeps) that stays within the preconditions runs without a fault, its answers are those
  of the specification, and the records the balancer holds at the end are the map of the
  specification. The preconditions are that reported loads fit a signed 32 bit integer and that an id
  removed by a sweep does not register again.
\<close>

theorem status_server_refines:
  assumes "fresh_alloc alloc" and "iter_order enum"
    and "admissible status_pre status_spec ops (Map.empty, {})"
  shows "\<exists>outs st' a'. run_steps (status_call alloc enum) ops StatusServer_new = Inr (outs, st') \<and>
    spec_run status_spec ops (Map.empty, {}) outs a' \<and> registry (ss_lb st') = fst a' \<and> lb_inv (ss_lb st')"
proof -
  have "status_sim alloc enum StatusServer_new (Map.empty, {})"
    using assms(1,2) by (simp add: status_sim_def StatusServer_new_def lb_inv_new small_loads_def)
  from status.run_refines [OF this assms(3)] show ?thesis by (auto simp: status_sim_def)
qed

definition some_alloc :: "si_mem \<Rightarrow> nat" where
  "some_alloc mem = Suc (Max (insert 0 (dom mem)))"

definition some_order :: "load_balancer \<Rightarrow> u32 list" where
  "some_order lb = sorted_list_of_set (dom (lb_hm lb))"

lemma some_alloc_fresh: "fresh_alloc some_alloc"
proof -
  have "mem (some_alloc mem) = None" if "finite (dom mem)" for mem
  proof -
    have "x \<le> Max (insert 0 (dom mem))" if "x \<in> dom mem" for x
      using that \<open>finite (dom mem)\<close> by (intro Max_ge) auto
    then have "some_alloc mem \<notin> dom mem" unfolding some_alloc_def by (metis Suc_n_not_le_n)
    then show ?thesis by auto
  qed
  then show ?thesis by (simp add: fresh_alloc_def)
qed

lemma some_order_iter: "iter_order some_order"
  by (simp add: iter_order_def some_order_def)

theorem status_server_refines_witness:
  "\<exists>outs st' a'. run_steps (status_call some_alloc some_order)
      [Op_Register 1 ''a'' 5 0, Op_Register 2 ''b'' 3 0, Op_Report 1 2 10, Op_Minimal 20] StatusServer_new
      = Inr (outs, st') \<and>
    spec_run status_spec [Op_Register 1 ''a'' 5 0, Op_Register 2 ''b'' 3 0, Op_Report 1 2 10, Op_Minimal 20]
      (Map.empty, {}) outs a' \<and> registry (ss_lb st') = fst a' \<and> lb_inv (ss_lb st')"
  by (rule status_server_refines [OF some_alloc_fresh some_order_iter])
    (simp add: status_pre_def status_spec_def small_load_def)


definition one_server :: status_server where
  "one_server = \<lparr>ss_lb = \<lparr>lb_heap = \<lparr>heap_vec = [1], heap_idx = [7 \<mapsto> 0]\<rparr>, lb_hm = [7 \<mapsto> 1],
      lb_mem = [1 \<mapsto> \<lparr>si_id = 7, si_addr = ''h'', si_load = 4, si_last_ts = 100\<rparr>]\<rparr>,
    ss_up = \<lparr>up_running = True, up_pending = True, up_err_count = 1, up_err_count_max = 3\<rparr>,
    ss_pc = Unlocked, ss_cmds = []\<rparr>"

lemma one_server_registry:
  "registry (ss_lb one_server) = [7 \<mapsto> \<lparr>si_id = 7, si_addr = ''h'', si_load = 4, si_last_ts = 100\<rparr>]"
  by (auto simp: one_server_def registry_def fun_eq_iff)

lemma one_server_simps:
  "ss_pc one_server = Unlocked" "up_err_count (ss_up one_server) = 1" "up_err_count_max (ss_up one_server) = 3"
  by (simp_all add: one_server_def)

lemma one_server_inv: "lb_inv (ss_lb one_server)"
  by (auto simp: one_server_def lb_inv_def heap_ok_def is_heap_def idx_ok_def GetID_def)


text \<open>
  A request for an update that arrives after the worker copied the server list and before it
  noted the success of the upload leaves no trace: the state is the one without the request. The
  list just published was read before the request, so what the caller changed is not published
  until the next timeout.
\<close>

lemma UpdateNow_during_upload_lost:
  assumes "ss_pc st = Copied l" and "pong \<noteq> ''''" and "ans \<noteq> 0"
  shows "map_sum id snd (run_steps up_step [Ev_UpdateNow, Ev_Upload pong ans] st) =
    map_sum id snd (run_steps up_step [Ev_Upload pong ans] st)"
  using assms by (simp add: up_step_upload UpdateServerList_def up_result_def)
    (simp add: up_step_def UpdateNow_def up_result_def UpdateServerList_def)


lemma failed_round_run:
  "run_steps up_step [Ev_Lock, Ev_Wake True, Ev_Sweep (\<lambda>_. 0) [], Ev_Copy [], Ev_Upload '''' 0]
      (up_Start StatusServer_new) =
    Inr ([(), (), (), (), ()], StatusServer_new\<lparr>ss_up := \<lparr>up_running = True, up_pending = True, up_err_count = 1,
      up_err_count_max = 3\<rparr>, ss_pc := Relocking, ss_cmds := [Ping]\<rparr>)"
  by (simp add: up_step_def CheckTTL_def loop_head_def up_result_def UpdateServerList_def
      serv_list_of_def CopyServerInfoList_def up_Start_def StatusServer_new_def TimedUploader_new_def)




end
