(* ===== verification/Session.thy ===== *)
theory Session
  imports Msg_Node Simulation
begin

text \<open>
  A client connection of the backend, \<open>src/server/session.cpp\<close> and \<open>src/include/server/session.hpp\<close>. The
  socket is the environment: a read or write the session starts is outstanding until the completion
  handler runs with its outcome. Calls into the message handler and the session manager are recorded
  in order in \<open>ses_out\<close>. The lemmas show that receiving splits the byte stream into frames however it
  arrives in pieces, that a frame longer than the limit closes the session, that no queued message is
  left behind while the session is up, and that two writes can be outstanding at the same time.
\<close>

section \<open>State\<close>

definition INITIAL_NODE_SIZE :: u32 where
  "INITIAL_NODE_SIZE = 1024"

datatype read_phase = Read_Head | Read_Content

datatype session_effect = Post_Message "msg_node option" | Remove_Session u64 | Remove_Temp_Session

text \<open>
  \<open>ses_reading\<close> is the outstanding read, \<open>ses_writes\<close> the outstanding writes with the bytes they send,
  \<open>ses_calls\<close> the calls of \<open>QueueSend\<close> some thread is about to make. \<open>ses_handler\<close> and \<open>ses_mgr\<close> tell whether
  the weak pointers can still be locked.
\<close>

record session =
  ses_user_id :: u64
  ses_verified :: bool
  ses_recv :: msg_node
  ses_reading :: "read_phase option"
  ses_send_q :: "msg_node list"
  ses_sending :: "msg_node option"
  ses_writes :: "byte list list"
  ses_calls :: nat
  ses_down :: bool
  ses_handler :: bool
  ses_mgr :: bool
  ses_out :: "session_effect list"

definition Session_new :: "(nat \<Rightarrow> byte) \<Rightarrow> bool \<Rightarrow> bool \<Rightarrow> session" where
  "Session_new fill handler mgr =
    \<lparr>ses_user_id = 0, ses_verified = False, ses_recv = MsgNode_new fill INITIAL_NODE_SIZE, ses_reading = None,
     ses_send_q = [], ses_sending = None, ses_writes = [], ses_calls = 0, ses_down = False,
     ses_handler = handler, ses_mgr = mgr, ses_out = []\<rparr>"

definition emit :: "session_effect \<Rightarrow> session \<Rightarrow> session" where
  "emit ef s = s\<lparr>ses_out := ses_out s @ [ef]\<rparr>"

definition SetVerified :: "u64 \<Rightarrow> session \<Rightarrow> session" where
  "SetVerified user_id s = (if \<not> ses_verified s then s\<lparr>ses_user_id := user_id, ses_verified := True\<rparr> else s)"

definition Close :: "session \<Rightarrow> session" where
  "Close s =
    (if ses_down s then s
     else
       (let s1 = s\<lparr>ses_down := True\<rparr>;
            s2 = (if ses_handler s1 then emit (Post_Message None) s1 else s1)
        in if ses_mgr s2
           then (if ses_verified s2 then emit (Remove_Session (ses_user_id s2)) s2 else emit Remove_Temp_Session s2)
           else s2))"

section \<open>Receiving\<close>

definition ReceiveHead :: "session \<Rightarrow> session" where
  "ReceiveHead s = s\<lparr>ses_reading := Some Read_Head\<rparr>"

definition ReceiveContent :: "session \<Rightarrow> session" where
  "ReceiveContent s = s\<lparr>ses_reading := Some Read_Content\<rparr>"

text \<open>The size of the buffer the outstanding read fills.\<close>

definition read_want :: "session \<Rightarrow> u32" where
  "read_want s =
    (case ses_reading s of
       None \<Rightarrow> 0
     | Some Read_Head \<Rightarrow> of_nat HEAD_LEN - node_cur_pos (ses_recv s)
     | Some Read_Content \<Rightarrow> node_ctx_len (ses_recv s) + of_nat HEAD_LEN - node_cur_pos (ses_recv s))"

definition Start :: "session \<Rightarrow> session" where
  "Start s = ReceiveHead s"

definition ReceiveHandler :: "(nat \<Rightarrow> byte) \<Rightarrow> session \<Rightarrow> session" where
  "ReceiveHandler fill s =
    (if \<not> ses_handler s then Close s
     else (emit (Post_Message (Some (ses_recv s))) s)\<lparr>ses_recv := MsgNode_new fill INITIAL_NODE_SIZE\<rparr>)"

text \<open>The outcome of a read: an error (end of file included), or the bytes it put into the buffer.\<close>

datatype read_result = Read_Error | Read_Done "byte list"

definition store_bytes :: "msg_node \<Rightarrow> byte list \<Rightarrow> msg_node result" where
  "store_bytes n bs =
    (case node_data n of
       None \<Rightarrow> guardR (bs = []) Undefined_Behaviour (Inr n)
     | Some d \<Rightarrow> bindR (memcpy_to d (unat (node_cur_pos n)) bs) (\<lambda>d. Inr (n\<lparr>node_data := Some d\<rparr>)))"

definition ReceiveHead_cb :: "endian \<Rightarrow> (nat \<Rightarrow> byte) \<Rightarrow> session \<Rightarrow> read_result \<Rightarrow> session result" where
  "ReceiveHead_cb e fill s0 r =
    (let s = s0\<lparr>ses_reading := None\<rparr> in
     case r of
       Read_Error \<Rightarrow> Inr (Close s)
     | Read_Done bs \<Rightarrow>
         bindR (store_bytes (ses_recv s) bs) (\<lambda>n.
           if ses_down s then Inr (s\<lparr>ses_recv := n\<rparr>)
           else
             (let n = n\<lparr>node_cur_pos := node_cur_pos n + of_nat (length bs)\<rparr> in
              if node_cur_pos n \<ge> of_nat HEAD_LEN then
                bindR (UpdateContentLenField e n) (\<lambda>(content_len, n).
                  if content_len > MAX_CTX_LEN then Inr (Close (s\<lparr>ses_recv := n\<rparr>))
                  else
                    bindR (if content_len + of_nat HEAD_LEN > node_max_len n
                           then Reallocate fill n (content_len + of_nat HEAD_LEN) else Inr n) (\<lambda>n.
                      Inr (ReceiveContent (s\<lparr>ses_recv := n\<rparr>))))
              else Inr (ReceiveHead (s\<lparr>ses_recv := n\<rparr>)))))"

definition ReceiveContent_cb :: "endian \<Rightarrow> (nat \<Rightarrow> byte) \<Rightarrow> session \<Rightarrow> read_result \<Rightarrow> session result" where
  "ReceiveContent_cb e fill s0 r =
    (let s = s0\<lparr>ses_reading := None\<rparr> in
     case r of
       Read_Error \<Rightarrow> Inr (Close s)
     | Read_Done bs \<Rightarrow>
         bindR (store_bytes (ses_recv s) bs) (\<lambda>n.
           if ses_down s then Inr (s\<lparr>ses_recv := n\<rparr>)
           else
             (let n = n\<lparr>node_cur_pos := node_cur_pos n + of_nat (length bs)\<rparr> in
              if node_cur_pos n \<ge> node_ctx_len n + of_nat HEAD_LEN then
                bindR (GetTagField e n) (\<lambda>tag.
                  (let s = ReceiveHandler fill (s\<lparr>ses_recv := n\<rparr>);
                       s = s\<lparr>ses_recv := MsgNode_Zero (ses_recv s)\<rparr>
                   in Inr (ReceiveHead s)))
              else Inr (ReceiveContent (s\<lparr>ses_recv := n\<rparr>)))))"

text \<open>Completion of the outstanding read.\<close>

definition read_complete :: "endian \<Rightarrow> (nat \<Rightarrow> byte) \<Rightarrow> session \<Rightarrow> read_result \<Rightarrow> session result" where
  "read_complete e fill s r =
    (case ses_reading s of
       None \<Rightarrow> Inr s
     | Some Read_Head \<Rightarrow> ReceiveHead_cb e fill s r
     | Some Read_Content \<Rightarrow> ReceiveContent_cb e fill s r)"

section \<open>Sending\<close>

text \<open>
  \<open>Send\<close> up to the end of its critical section; the call of \<open>QueueSend\<close> that may follow is counted and
  runs as a step of its own, since other threads can take the lock in between.
\<close>

definition Send_node :: "msg_node \<Rightarrow> session \<Rightarrow> session" where
  "Send_node ptr s =
    (let start_send = (ses_send_q s = []);
         s = s\<lparr>ses_send_q := ses_send_q s @ [ptr]\<rparr>
     in if start_send then s\<lparr>ses_calls := Suc (ses_calls s)\<rparr> else s)"

definition Send_msg :: "endian \<Rightarrow> (nat \<Rightarrow> byte) \<Rightarrow> byte list \<Rightarrow> u32 \<Rightarrow> u32 \<Rightarrow> session \<Rightarrow> session result" where
  "Send_msg e fill content send_len tag s =
    bindR (MsgNode_msg e fill content send_len tag) (\<lambda>ptr. Inr (Send_node ptr s))"

text \<open>The bytes of the buffer handed to \<open>async_write\<close>.\<close>

definition write_bytes :: "msg_node \<Rightarrow> byte list result" where
  "write_bytes n =
    (case node_data n of
       None \<Rightarrow> Inl Undefined_Behaviour
     | Some d \<Rightarrow> memcpy_from d (unat (node_cur_pos n)) (unat (node_ctx_len n + of_nat HEAD_LEN - node_cur_pos n)))"

definition QueueSend :: "session \<Rightarrow> session result" where
  "QueueSend s =
    (case ses_send_q s of
       [] \<Rightarrow> Inr s
     | ptr # q \<Rightarrow>
         bindR (write_bytes ptr) (\<lambda>bs.
           Inr (s\<lparr>ses_send_q := q, ses_sending := Some ptr, ses_writes := ses_writes s @ [bs]\<rparr>)))"

text \<open>The completion handler of the outstanding write at position \<open>i\<close>.\<close>

definition QueueSend_cb :: "nat \<Rightarrow> bool \<Rightarrow> session \<Rightarrow> session result" where
  "QueueSend_cb i err s0 =
    (let s = s0\<lparr>ses_writes := take i (ses_writes s0) @ drop (Suc i) (ses_writes s0)\<rparr>
     in if err then Inr (Close s) else if \<not> ses_down s then QueueSend s else Inr s)"

datatype send_event = Snd_Send msg_node | Snd_Call | Snd_Done nat bool

text \<open>The bytes a step started to write.\<close>

definition started :: "session \<Rightarrow> session \<Rightarrow> byte list list" where
  "started s s' = (if length (ses_send_q s') < length (ses_send_q s) then [last (ses_writes s')] else [])"

definition send_step :: "send_event \<Rightarrow> session \<Rightarrow> (byte list list \<times> session) result" where
  "send_step ev s =
    bindR
      (case ev of
         Snd_Send n \<Rightarrow> Inr (Send_node n s)
       | Snd_Call \<Rightarrow> if ses_calls s = 0 then Inr s else QueueSend (s\<lparr>ses_calls := ses_calls s - 1\<rparr>)
       | Snd_Done i err \<Rightarrow> if i < length (ses_writes s) then QueueSend_cb i err s else Inr s)
      (\<lambda>s'. Inr (started s s', s'))"

section \<open>Specification of receiving\<close>

text \<open>
  The receiver as a splitter of a byte stream. Its state is the part of the current frame it has, or
  \<open>None\<close> once it gave up; a header is complete with eight bytes.
\<close>

definition frame_len :: "byte list \<Rightarrow> nat" where
  "frame_len b = unat (be_word (take 4 (drop 4 b)) :: u32)"

definition want :: "byte list \<Rightarrow> nat" where
  "want b = (if length b < 8 then 8 - length b else 8 + frame_len b - length b)"

definition split_step :: "byte list \<Rightarrow> byte list option \<Rightarrow> byte list list \<Rightarrow> byte list option \<Rightarrow> bool" where
  "split_step c a outs a' =
    (case a of
       None \<Rightarrow> False
     | Some b \<Rightarrow>
         (if length b < 8 \<and> 8 \<le> length (b @ c) \<and> frame_len (b @ c) > unat MAX_CTX_LEN then outs = [] \<and> a' = None
          else if 8 \<le> length b \<and> length (b @ c) = 8 + frame_len b then outs = [b @ c] \<and> a' = Some []
          else outs = [] \<and> a' = Some (b @ c)))"

definition split_pre :: "byte list \<Rightarrow> byte list option \<Rightarrow> bool" where
  "split_pre c a = (case a of None \<Rightarrow> False | Some b \<Rightarrow> length c \<le> want b)"

text \<open>The frames a session has passed to its handler.\<close>

definition posted :: "session_effect list \<Rightarrow> byte list list" where
  "posted out = concat (map (\<lambda>ef. case ef of Post_Message (Some n) \<Rightarrow> [node_wire n] | _ \<Rightarrow> []) out)"

text \<open>Completing the outstanding read with \<open>c\<close>, with the frames posted by it as the output.\<close>

definition recv_step :: "endian \<Rightarrow> (nat \<Rightarrow> byte) \<Rightarrow> byte list \<Rightarrow> session \<Rightarrow> (byte list list \<times> session) result" where
  "recv_step e fill c s =
    bindR (read_complete e fill s (Read_Done c)) (\<lambda>s'.
      Inr (posted (drop (length (ses_out s)) (ses_out s')), s'))"

definition recv_sim :: "session \<Rightarrow> byte list option \<Rightarrow> bool" where
  "recv_sim s a =
    (case a of
       None \<Rightarrow> ses_down s
     | Some b \<Rightarrow>
         \<not> ses_down s \<and> ses_handler s \<and> node_wf (ses_recv s) \<and>
         ses_reading s = Some (if length b < 8 then Read_Head else Read_Content) \<and>
         (\<exists>junk. node_data (ses_recv s) = Some (b @ junk)) \<and> unat (node_cur_pos (ses_recv s)) = length b \<and>
         8 \<le> unat (node_max_len (ses_recv s)) \<and>
         (8 \<le> length b \<longrightarrow>
           unat (node_ctx_len (ses_recv s)) = frame_len b \<and> frame_len b \<le> unat MAX_CTX_LEN \<and>
           8 + frame_len b \<le> unat (node_max_len (ses_recv s)) \<and> length b \<le> 8 + frame_len b))"

section \<open>Receiving refines the splitter\<close>

lemma store_bytes_append:
  assumes "node_data n = Some (b @ junk)" and "unat (node_cur_pos n) = length b" and "length c \<le> length junk"
  shows "store_bytes n c = Inr (n\<lparr>node_data := Some ((b @ c) @ drop (length c) junk)\<rparr>)"
  using assms by (simp add: store_bytes_def memcpy_to_Inr overwrite_def)

lemma unat_advance:
  fixes p m :: u32
  assumes "unat p = length b" and "length (b @ c) \<le> unat m"
  shows "unat (p + of_nat (length c)) = length (b @ c)"
proof -
  have "length c < 2 ^ 32" and "unat p + length c < 2 ^ 32" using assms unat_u32_less [of m] by auto
  then show ?thesis using assms(1) by (simp add: unat_word_ariths unat_of_nat)
qed

lemma posted_append [simp]: "posted (xs @ ys) = posted xs @ posted ys"
  by (simp add: posted_def)

lemma frame_len_prefix: "8 \<le> length b \<Longrightarrow> frame_len (b @ junk) = frame_len b"
  by (simp add: frame_len_def)

lemma Close_out:
  "ses_down (Close s)" "\<exists>efs. ses_out (Close s) = ses_out s @ efs \<and> posted efs = []"
  by (auto simp: Close_def Let_def emit_def posted_def)

lemma of_nat_HEAD_LEN: "of_nat HEAD_LEN = (8 :: u32)"
  by simp

lemma word_ge_8_iff: "8 \<le> w \<longleftrightarrow> 8 \<le> unat w" for w :: u32
  by (simp add: word_le_nat_alt)

lemma unat_len_add_head: "unat (len :: u32) \<le> unat MAX_CTX_LEN \<Longrightarrow> unat (len + 8) = 8 + unat len"
  by (subst add.commute, subst unat_add_head_less) (simp_all add: MAX_CTX_LEN_def)

text \<open>Room for the content behind a complete header.\<close>

lemma make_room:
  assumes wf: "node_wf n" and d: "node_data n = Some (b @ junk)" and len: "unat len \<le> unat MAX_CTX_LEN"
  shows "\<exists>n' junk'. (if len + 8 > node_max_len n then Reallocate fill n (len + 8) else Inr n) = Inr n' \<and>
    node_wf n' \<and> node_data n' = Some (b @ junk') \<and> node_cur_pos n' = node_cur_pos n \<and>
    node_ctx_len n' = node_ctx_len n \<and> 8 + unat len \<le> unat (node_max_len n') \<and> node_max_len n \<le> node_max_len n'"
proof (cases "len + 8 > node_max_len n")
  case True
  obtain n' where n': "Reallocate fill n (len + 8) = Inr n'" "node_max_len n' = max (node_max_len n) (len + 8)"
    using Reallocate_total [OF wf] by blast
  note keeps = Reallocate_keeps [OF wf d n'(1)]
  obtain more where "node_data n' = Some ((b @ junk) @ more)" using keeps(1) by blast
  moreover have "8 + unat len \<le> unat (node_max_len n')"
    using n'(2) True unat_len_add_head [OF len] by (simp add: max_def word_less_nat_alt word_le_nat_alt split: if_splits)
  ultimately show ?thesis
    using True n' keeps(2,3) Reallocate_wf [OF wf n'(1)]
    by (intro exI [of _ n'] exI [of _ "junk @ more"]) simp
next
  case False
  then show ?thesis
    using wf d unat_len_add_head [OF len] by (auto simp: word_less_nat_alt not_less)
qed

lemma recv_step_head:
  assumes sim: "recv_sim s (Some b)" and b: "length b < 8" and c: "length c \<le> want b"
  shows "\<exists>outs s' a'. recv_step e fill c s = Inr (outs, s') \<and> split_step c (Some b) outs a' \<and> recv_sim s' a'"
proof -
  let ?n = "ses_recv s"
  obtain junk where d: "node_data ?n = Some (b @ junk)" and up: "\<not> ses_down s" "ses_handler s"
    and rd: "ses_reading s = Some Read_Head" and wf: "node_wf ?n" and pos: "unat (node_cur_pos ?n) = length b"
    and max: "8 \<le> unat (node_max_len ?n)"
    using sim b by (auto simp: recv_sim_def)
  have room: "length b + length junk = unat (node_max_len ?n)" using wf d by (simp add: node_wf_def)
  have bc: "length (b @ c) \<le> 8" using b c by (simp add: want_def)
  define junk' where "junk' = drop (length c) junk"
  define n where "n = ?n\<lparr>node_data := Some ((b @ c) @ junk'), node_cur_pos := node_cur_pos ?n + of_nat (length c)\<rparr>"
  have store: "store_bytes ?n c = Inr (?n\<lparr>node_data := Some ((b @ c) @ junk')\<rparr>)"
    unfolding junk'_def using d pos max bc room by (intro store_bytes_append) auto
  have cur: "unat (node_cur_pos n) = length (b @ c)"
    using pos bc max unat_advance [of "node_cur_pos ?n" b c "node_max_len ?n"] by (simp add: n_def)
  have wf_n: "node_wf n" using room max bc by (simp add: node_wf_def n_def junk'_def)
  have run: "read_complete e fill s (Read_Done c) =
      (if 8 \<le> node_cur_pos n then
         bindR (UpdateContentLenField e n) (\<lambda>(len, n).
           if len > MAX_CTX_LEN then Inr (Close (s\<lparr>ses_reading := None, ses_recv := n\<rparr>))
           else bindR (if len + 8 > node_max_len n then Reallocate fill n (len + 8) else Inr n) (\<lambda>n.
             Inr (ReceiveContent (s\<lparr>ses_reading := None, ses_recv := n\<rparr>))))
       else Inr (ReceiveHead (s\<lparr>ses_reading := None, ses_recv := n\<rparr>)))"
    using rd up store unfolding read_complete_def ReceiveHead_cb_def of_nat_HEAD_LEN by (simp add: Let_def n_def)
  show ?thesis
  proof (cases "length (b @ c) = 8")
    case False
    then have "split_step c (Some b) [] (Some (b @ c))" "length (b @ c) < 8" using bc by (auto simp: split_step_def)
    moreover have "recv_sim (ReceiveHead (s\<lparr>ses_reading := None, ses_recv := n\<rparr>)) (Some (b @ c))"
      using \<open>length (b @ c) < 8\<close> up wf_n cur max by (auto simp: recv_sim_def ReceiveHead_def n_def)
    moreover have "recv_step e fill c s = Inr ([], ReceiveHead (s\<lparr>ses_reading := None, ses_recv := n\<rparr>))"
      using False bc cur run by (simp add: recv_step_def word_ge_8_iff ReceiveHead_def posted_def)
    ultimately show ?thesis by blast
  next
    case True
    define len :: u32 where "len = be_word (take 4 (drop 4 (b @ c)))"
    have flen: "frame_len (b @ c) = unat len" by (simp add: frame_len_def len_def)
    have upd: "UpdateContentLenField e n = Inr (len, n\<lparr>node_ctx_len := len\<rparr>)"
      using True by (subst UpdateContentLenField_Some [of n "(b @ c) @ junk'"]) (simp_all add: n_def len_def)
    show ?thesis
    proof (cases "len > MAX_CTX_LEN")
      case big: True
      let ?s = "Close (s\<lparr>ses_reading := None, ses_recv := n\<lparr>node_ctx_len := len\<rparr>\<rparr>)"
      have "split_step c (Some b) [] None" using big True b flen by (simp add: split_step_def word_less_nat_alt)
      moreover have "recv_sim ?s None" by (simp add: recv_sim_def Close_out)
      moreover have "recv_step e fill c s = Inr ([], ?s)"
        using Close_out(2) [of "s\<lparr>ses_reading := None, ses_recv := n\<lparr>node_ctx_len := len\<rparr>\<rparr>"] cur True run upd big
        by (auto simp: recv_step_def word_ge_8_iff)
      ultimately show ?thesis by blast
    next
      case False
      then have small: "unat len \<le> unat MAX_CTX_LEN" by (simp add: word_less_nat_alt)
      obtain n' jk where n': "(if len + 8 > node_max_len n then Reallocate fill (n\<lparr>node_ctx_len := len\<rparr>) (len + 8)
            else Inr (n\<lparr>node_ctx_len := len\<rparr>)) = Inr n'" "node_wf n'" "node_data n' = Some ((b @ c) @ jk)"
          "node_cur_pos n' = node_cur_pos n" "node_ctx_len n' = len" "8 + unat len \<le> unat (node_max_len n')"
          "node_max_len n \<le> node_max_len n'"
        using make_room [of "n\<lparr>node_ctx_len := len\<rparr>" "b @ c" junk' len fill] wf_n small
        by (auto simp: n_def node_wf_def)
      let ?s = "ReceiveContent (s\<lparr>ses_reading := None, ses_recv := n'\<rparr>)"
      have "split_step c (Some b) [] (Some (b @ c))" using small True b flen by (auto simp: split_step_def)
      moreover have "recv_sim ?s (Some (b @ c))"
        using up n' cur True flen small max by (auto simp: recv_sim_def ReceiveContent_def n_def word_le_nat_alt)
      moreover have "recv_step e fill c s = Inr ([], ?s)"
        using cur True run upd False n'(1) by (simp add: recv_step_def word_ge_8_iff ReceiveContent_def posted_def)
      ultimately show ?thesis by blast
    qed
  qed
qed

text \<open>The bytes of a content, put behind the part of the frame that is there.\<close>

lemma content_advance:
  assumes sim: "recv_sim s (Some b)" and b: "8 \<le> length b" and c: "length c \<le> want b"
  obtains n junk where "store_bytes (ses_recv s) c = Inr (n\<lparr>node_cur_pos := node_cur_pos (ses_recv s)\<rparr>)"
    "n = (ses_recv s)\<lparr>node_data := Some ((b @ c) @ junk), node_cur_pos := node_cur_pos (ses_recv s) + of_nat (length c)\<rparr>"
    "node_wf n" "unat (node_cur_pos n) = length (b @ c)" "unat (node_ctx_len n) = frame_len b"
    "node_ctx_len n + 8 \<le> node_cur_pos n \<longleftrightarrow> length (b @ c) = 8 + frame_len b"
    "length (b @ c) \<le> 8 + frame_len b"
proof -
  let ?n = "ses_recv s"
  obtain junk where d: "node_data ?n = Some (b @ junk)"
    and wf: "node_wf ?n" and pos: "unat (node_cur_pos ?n) = length b"
    and len: "unat (node_ctx_len ?n) = frame_len b" "frame_len b \<le> unat MAX_CTX_LEN"
    and max: "8 + frame_len b \<le> unat (node_max_len ?n)" and le: "length b \<le> 8 + frame_len b"
    using sim b by (auto simp: recv_sim_def)
  have room: "length b + length junk = unat (node_max_len ?n)" using wf d by (simp add: node_wf_def)
  have bc: "length (b @ c) \<le> 8 + frame_len b" using b c le by (simp add: want_def)
  define n where "n = ?n\<lparr>node_data := Some ((b @ c) @ drop (length c) junk), node_cur_pos := node_cur_pos ?n + of_nat (length c)\<rparr>"
  have "store_bytes ?n c = Inr (?n\<lparr>node_data := Some ((b @ c) @ drop (length c) junk)\<rparr>)"
    using d pos max bc room by (intro store_bytes_append) auto
  then have store: "store_bytes ?n c = Inr (n\<lparr>node_cur_pos := node_cur_pos ?n\<rparr>)" by (simp add: n_def)
  have cur: "unat (node_cur_pos n) = length (b @ c)"
    using pos bc max unat_advance [of "node_cur_pos ?n" b c "node_max_len ?n"] by (simp add: n_def)
  have wf_n: "node_wf n" using room max bc by (simp add: node_wf_def n_def)
  have full: "node_ctx_len n + 8 \<le> node_cur_pos n \<longleftrightarrow> length (b @ c) = 8 + frame_len b"
    using len cur bc unat_len_add_head [of "node_ctx_len ?n"] by (auto simp: word_le_nat_alt n_def)
  show ?thesis using store n_def wf_n cur _ full bc by (rule that) (simp add: n_def len(1))
qed

lemma recv_step_content:
  assumes sim: "recv_sim s (Some b)" and b: "8 \<le> length b" and c: "length c \<le> want b"
  shows "\<exists>outs s' a'. recv_step e fill c s = Inr (outs, s') \<and> split_step c (Some b) outs a' \<and> recv_sim s' a'"
proof -
  let ?n = "ses_recv s"
  have up: "\<not> ses_down s" "ses_handler s" and rd: "ses_reading s = Some Read_Content"
    and len: "frame_len b \<le> unat MAX_CTX_LEN" and max: "8 + frame_len b \<le> unat (node_max_len ?n)"
    using sim b by (auto simp: recv_sim_def)
  obtain n junk where store: "store_bytes ?n c = Inr (n\<lparr>node_cur_pos := node_cur_pos ?n\<rparr>)"
    and n: "n = ?n\<lparr>node_data := Some ((b @ c) @ junk), node_cur_pos := node_cur_pos ?n + of_nat (length c)\<rparr>"
    and wf_n: "node_wf n" and cur: "unat (node_cur_pos n) = length (b @ c)" and ctx: "unat (node_ctx_len n) = frame_len b"
    and full: "node_ctx_len n + 8 \<le> node_cur_pos n \<longleftrightarrow> length (b @ c) = 8 + frame_len b" and bc: "length (b @ c) \<le> 8 + frame_len b"
    using content_advance [OF sim b c] by blast
  have flen: "frame_len (b @ c) = frame_len b" using b by (rule frame_len_prefix)
  have n': "n\<lparr>node_cur_pos := node_cur_pos ?n + of_nat (length c)\<rparr> = n"
    "node_cur_pos ?n + of_nat (length c) = node_cur_pos n" by (simp_all add: n)
  have run: "read_complete e fill s (Read_Done c) =
      (if node_ctx_len n + 8 \<le> node_cur_pos n then
         bindR (GetTagField e n) (\<lambda>tag.
           (let s = ReceiveHandler fill (s\<lparr>ses_reading := None, ses_recv := n\<rparr>)
            in Inr (ReceiveHead (s\<lparr>ses_recv := MsgNode_Zero (ses_recv s)\<rparr>))))
       else Inr (ReceiveContent (s\<lparr>ses_reading := None, ses_recv := n\<rparr>)))"
    using rd up store n' unfolding read_complete_def ReceiveContent_cb_def of_nat_HEAD_LEN by (simp add: Let_def)
  show ?thesis
  proof (cases "length (b @ c) = 8 + frame_len b")
    case True
    define s' where "s' = ReceiveHead ((emit (Post_Message (Some n)) (s\<lparr>ses_reading := None, ses_recv := n\<rparr>))
      \<lparr>ses_recv := MsgNode_Zero (MsgNode_new fill INITIAL_NODE_SIZE)\<rparr>)"
    have "GetTagField e n = Inr (be_word (take 4 ((b @ c) @ junk)))"
      using b by (intro GetTagField_Some) (simp_all add: n)
    then have "read_complete e fill s (Read_Done c) = Inr s'"
      using True run up full by (simp add: ReceiveHandler_def Let_def s'_def emit_def)
    moreover have "node_wire n = b @ c" using True ctx by (simp add: node_wire_def n)
    ultimately have "recv_step e fill c s = Inr ([b @ c], s')"
      by (simp add: recv_step_def s'_def emit_def ReceiveHead_def posted_def)
    moreover have "split_step c (Some b) [b @ c] (Some [])" using True b by (simp add: split_step_def)
    moreover have "recv_sim s' (Some [])"
      using up MsgNode_Zero_wf [OF MsgNode_new_wf, of fill INITIAL_NODE_SIZE]
      by (simp add: recv_sim_def s'_def ReceiveHead_def emit_def MsgNode_Zero_def MsgNode_new_def INITIAL_NODE_SIZE_def)
    ultimately show ?thesis by blast
  next
    case False
    let ?s = "ReceiveContent (s\<lparr>ses_reading := None, ses_recv := n\<rparr>)"
    have "split_step c (Some b) [] (Some (b @ c))" using False b by (simp add: split_step_def)
    moreover have "recv_sim ?s (Some (b @ c))"
      using up wf_n cur ctx b len max bc flen by (auto simp: recv_sim_def ReceiveContent_def n)
    moreover have "recv_step e fill c s = Inr ([], ?s)"
      using False full run by (simp add: recv_step_def ReceiveContent_def posted_def)
    ultimately show ?thesis by blast
  qed
qed

interpretation recv: refinement recv_sim "recv_step e fill" split_pre split_step
  for e fill
proof
  fix s a c
  assume sim: "recv_sim s a" and pre: "split_pre c a"
  then obtain b where "a = Some b" "length c \<le> want b" by (auto simp: split_pre_def split: option.splits)
  then show "\<exists>outs s' a'. recv_step e fill c s = Inr (outs, s') \<and> split_step c a outs a' \<and> recv_sim s' a'"
    using sim recv_step_head recv_step_content by (cases "length b < 8") auto
qed

section \<open>The splitter loses and reorders nothing\<close>

definition whole_frame :: "byte list \<Rightarrow> bool" where
  "whole_frame b = (8 \<le> length b \<and> length b = 8 + frame_len b \<and> frame_len b \<le> unat MAX_CTX_LEN)"

lemma whole_frame_frame:
  assumes "whole_frame b"
  shows "b = frame (be_word (take 4 b)) (drop 8 b)"
proof -
  have len: "8 \<le> length b" "length (drop 8 b) = frame_len b" using assms by (auto simp: whole_frame_def)
  then have "be_bytes 4 (of_nat (length (drop 8 b)) :: u32) = take 4 (drop 4 b)"
    by (simp add: frame_len_def be_bytes_be_word)
  moreover have "be_bytes 4 (be_word (take 4 b) :: u32) = take 4 b" using len by (simp add: be_bytes_be_word)
  moreover have "b = take 4 b @ take 4 (drop 4 b) @ drop 8 b"
    by (metis add_numeral_left append_take_drop_id drop_drop numeral_Bit0)
  ultimately show ?thesis by (simp add: frame_def)
qed

text \<open>A partial frame the splitter can hold.\<close>

definition partial_frame :: "byte list \<Rightarrow> bool" where
  "partial_frame b = (8 \<le> length b \<longrightarrow> frame_len b \<le> unat MAX_CTX_LEN \<and> length b \<le> 8 + frame_len b)"

lemma split_step_stream:
  assumes "split_step c (Some b) outs a'" and "length c \<le> want b" and "partial_frame b"
  shows "case a' of
      None \<Rightarrow> outs = []
    | Some b' \<Rightarrow> concat outs @ b' = b @ c \<and> list_all whole_frame outs \<and> partial_frame b'"
  using assms frame_len_prefix [of b c]
  by (auto simp: split_step_def partial_frame_def whole_frame_def want_def split: if_splits option.splits)

lemma split_run_stream:
  assumes "spec_run split_step cs (Some b) outs (Some b')" and "admissible split_pre split_step cs (Some b)"
    and "partial_frame b"
  shows "concat (concat outs) @ b' = b @ concat cs \<and> list_all whole_frame (concat outs) \<and> partial_frame b'"
  using assms
proof (induction cs arbitrary: b outs)
  case Nil
  then show ?case by simp
next
  case (Cons c cs)
  then obtain out a1 outs' where o: "outs = out # outs'" "split_step c (Some b) out a1"
      "spec_run split_step cs a1 outs' (Some b')" by auto
  have pre: "length c \<le> want b" using Cons.prems(2) by (simp add: split_pre_def)
  obtain b1 where b1: "a1 = Some b1"
    using o(3) by (cases cs; cases a1) (auto simp: split_step_def)
  have out: "concat out @ b1 = b @ c" "list_all whole_frame out" "partial_frame b1"
    using split_step_stream [OF o(2) pre Cons.prems(3)] b1 by auto
  have "admissible split_pre split_step cs (Some b1)" using Cons.prems(2) o(2) b1 by auto
  then have rest: "concat (concat outs') @ b' = b1 @ concat cs" "list_all whole_frame (concat outs')" "partial_frame b'"
    using Cons.IH [of b1 outs'] o(3) b1 out(3) by auto
  have "concat out @ concat (concat outs') @ b' = (b @ c) @ concat cs"
    unfolding rest(1) out(1) [symmetric] by simp
  with rest out(2) show ?case by (simp add: o(1))
qed

section \<open>Sending leaves nothing behind\<close>

text \<open>
  While the session is up, a queued message has an outstanding write or a call of \<open>QueueSend\<close> that
  will fetch it. Nodes handed to \<open>Send\<close> hold a frame.
\<close>

definition sendable :: "msg_node \<Rightarrow> bool" where
  "sendable n = (\<exists>d. node_data n = Some d \<and> node_cur_pos n = 0 \<and> unat (node_ctx_len n) + 8 < 2 ^ 32 \<and>
    unat (node_ctx_len n) + 8 \<le> length d)"

lemma write_bytes_sendable:
  assumes "sendable n"
  shows "write_bytes n = Inr (node_wire n)"
proof -
  have "unat (node_ctx_len n + 8) = 8 + unat (node_ctx_len n)"
    using assms by (subst add.commute, subst unat_add_head_less) (auto simp: sendable_def)
  with assms show ?thesis by (auto simp: sendable_def write_bytes_def node_wire_def memcpy_from_Inr)
qed

definition send_inv :: "session \<Rightarrow> bool" where
  "send_inv s =
    (list_all sendable (ses_send_q s) \<and>
     (ses_down s \<or> ses_send_q s = [] \<or> 0 < ses_calls s + length (ses_writes s)))"

lemma QueueSend_ok:
  assumes "list_all sendable (ses_send_q s)"
  shows "QueueSend s = Inr (case ses_send_q s of [] \<Rightarrow> s | n # q \<Rightarrow>
    s\<lparr>ses_send_q := q, ses_sending := Some n, ses_writes := ses_writes s @ [node_wire n]\<rparr>)"
  using assms by (auto simp: QueueSend_def write_bytes_sendable split: list.split)

lemma Close_send: "ses_send_q (Close s) = ses_send_q s" "ses_writes (Close s) = ses_writes s"
  by (auto simp: Close_def Let_def emit_def)

text \<open>The specification is a queue: messages leave it, to be written, in the order they came.\<close>

definition fifo_pre :: "send_event \<Rightarrow> byte list list \<Rightarrow> bool" where
  "fifo_pre ev q = (case ev of Snd_Send n \<Rightarrow> sendable n | _ \<Rightarrow> True)"

definition fifo_spec :: "send_event \<Rightarrow> byte list list \<Rightarrow> byte list list \<Rightarrow> byte list list \<Rightarrow> bool" where
  "fifo_spec ev q out q' =
    (case ev of Snd_Send n \<Rightarrow> out = [] \<and> q' = q @ [node_wire n] | _ \<Rightarrow> out @ q' = q)"

definition fifo_sim :: "session \<Rightarrow> byte list list \<Rightarrow> bool" where
  "fifo_sim s q = (send_inv s \<and> map node_wire (ses_send_q s) = q)"

lemma send_step_ok:
  assumes "fifo_sim s q" and "fifo_pre ev q"
  shows "\<exists>out s' q'. send_step ev s = Inr (out, s') \<and> fifo_spec ev q out q' \<and> fifo_sim s' q'"
proof (cases ev)
  case (Snd_Send n)
  with assms show ?thesis
    by (auto simp: send_step_def Send_node_def Let_def send_inv_def started_def fifo_pre_def fifo_spec_def fifo_sim_def)
next
  case Snd_Call
  with assms show ?thesis
    by (cases "ses_send_q s") (auto simp: send_step_def QueueSend_ok send_inv_def started_def fifo_spec_def fifo_sim_def)
next
  case (Snd_Done i err)
  with assms show ?thesis
    by (cases "ses_send_q s")
      (auto simp: send_step_def QueueSend_cb_def Let_def QueueSend_ok send_inv_def started_def fifo_spec_def fifo_sim_def
        Close_send Close_out)
qed

interpretation snd_queue: refinement fifo_sim send_step fifo_pre fifo_spec
  by unfold_locales (rule send_step_ok)

lemma fifo_run_order:
  "spec_run fifo_spec evs q outs q' \<Longrightarrow>
    concat outs @ q' = q @ concat (map (\<lambda>ev. case ev of Snd_Send n \<Rightarrow> [node_wire n] | _ \<Rightarrow> []) evs)"
proof (induction evs arbitrary: q outs)
  case (Cons ev evs)
  then obtain out q1 outs' where o: "outs = out # outs'" "fifo_spec ev q out q1"
    "spec_run fifo_spec evs q1 outs' q'" by auto
  from o(2) have "out @ q1 = q @ (case ev of Snd_Send n \<Rightarrow> [node_wire n] | _ \<Rightarrow> [])"
    by (auto simp: fifo_spec_def split: send_event.splits)
  then show ?case using Cons.IH [OF o(3)] by (simp add: o(1))
qed simp

lemma fifo_admissible: "list_all (\<lambda>ev. case ev of Snd_Send n \<Rightarrow> sendable n | _ \<Rightarrow> True) evs \<Longrightarrow>
    admissible fifo_pre fifo_spec evs q"
  by (induction evs arbitrary: q) (auto simp: fifo_pre_def split: send_event.splits)

section \<open>A whole frame\<close>

lemma whole_frame_of_frame:
  assumes "length content \<le> unat MAX_CTX_LEN"
  shows "whole_frame (frame tag content)" "frame_len (frame tag content @ rest) = length content"
proof -
  have "length content < 2 ^ 32" using assms by (simp add: MAX_CTX_LEN_def)
  then have "unat (of_nat (length content) :: u32) = length content" by (simp add: unat_of_nat)
  then show "whole_frame (frame tag content)" "frame_len (frame tag content @ rest) = length content"
    using assms frame_fields(2) [of tag content rest] frame_fields(2) [of tag content "[]"]
    by (simp_all add: whole_frame_def frame_len_def)
qed

text \<open>A session that waits for a frame gets it as its header and then its content, and posts it.\<close>

lemma session_reads_header:
  assumes sim: "recv_sim s (Some [])" and d: "node_data (ses_recv s) = Some d"
    and len: "length content \<le> unat MAX_CTX_LEN"
  obtains n junk where "read_complete e fill s (Read_Done (take 8 (frame tag content))) =
      Inr (s\<lparr>ses_recv := n, ses_reading := Some Read_Content\<rparr>)"
    "node_data n = Some (take 8 (frame tag content) @ junk)" "node_ctx_len n = of_nat (length content)"
    "recv_sim (s\<lparr>ses_recv := n, ses_reading := Some Read_Content\<rparr>) (Some (take 8 (frame tag content)))"
    "8 + length content \<le> length d \<Longrightarrow> junk = drop 8 d"
proof -
  let ?n = "ses_recv s" and ?h = "take 8 (frame tag content)" and ?len = "of_nat (length content) :: u32"
  have up: "\<not> ses_down s" "ses_handler s" "ses_reading s = Some Read_Head" "node_wf ?n" "node_cur_pos ?n = 0"
      "8 \<le> unat (node_max_len ?n)"
    using sim by (auto simp: recv_sim_def word_unat_eq_iff)
  have room: "length d = unat (node_max_len ?n)" using up(4) d by (simp add: node_wf_def)
  have ulen: "unat ?len = length content"
    using len whole_frame_of_frame(2) [OF len, of tag "[]"] frame_fields(2) [of tag content "[]"] by (simp add: frame_len_def)
  have flen: "frame_len ?h = length content" using whole_frame_of_frame(2) [OF len, of tag "[]"] by (simp add: frame_len_def drop_take)
  define n where "n = ?n\<lparr>node_data := Some (?h @ drop 8 d), node_cur_pos := 8\<rparr>"
  have store: "store_bytes ?n ?h = Inr (n\<lparr>node_cur_pos := 0\<rparr>)"
    using store_bytes_append [of ?n "[]" d ?h] d up room by (simp add: n_def)
  have n8: "n\<lparr>node_cur_pos := 8\<rparr> = n" "node_cur_pos n = 8" by (simp_all add: n_def)
  have "be_word (take 4 (drop 4 (?h @ drop 8 d))) = ?len"
    using frame_fields(2) [of tag content "[]"] by (simp add: drop_take)
  then have upd: "UpdateContentLenField e n = Inr (?len, n\<lparr>node_ctx_len := ?len\<rparr>)"
    using UpdateContentLenField_Some [of n "?h @ drop 8 d" e] by (simp add: n_def)
  have wf: "node_wf (n\<lparr>node_ctx_len := ?len\<rparr>)" using up room by (simp add: node_wf_def n_def)
  obtain n' junk where n': "(if ?len + 8 > node_max_len n then Reallocate fill (n\<lparr>node_ctx_len := ?len\<rparr>) (?len + 8)
        else Inr (n\<lparr>node_ctx_len := ?len\<rparr>)) = Inr n'" "node_wf n'" "node_data n' = Some (?h @ junk)"
      "node_cur_pos n' = 8" "node_ctx_len n' = ?len" "8 + length content \<le> unat (node_max_len n')" "8 \<le> unat (node_max_len n')"
    using make_room [OF wf, of ?h "drop 8 d" ?len fill] ulen len up(6) by (auto simp: n_def word_le_nat_alt)
  have small: "\<not> ?len > MAX_CTX_LEN" using ulen len by (simp add: word_less_nat_alt)
  have run: "read_complete e fill s (Read_Done ?h) = Inr (s\<lparr>ses_recv := n', ses_reading := Some Read_Content\<rparr>)"
    using up store upd n'(1) small
    unfolding read_complete_def ReceiveHead_cb_def of_nat_HEAD_LEN ReceiveContent_def by (simp add: Let_def n8)
  moreover have "recv_sim (s\<lparr>ses_recv := n', ses_reading := Some Read_Content\<rparr>) (Some ?h)"
    using up n' flen len ulen by (auto simp: recv_sim_def)
  moreover have "junk = drop 8 d" if "8 + length content \<le> length d"
  proof -
    have "\<not> ?len + 8 > node_max_len n"
      using that room ulen unat_len_add_head [of ?len] len by (simp add: word_less_nat_alt n_def)
    then show ?thesis using n'(1,3) by (auto simp: n_def)
  qed
  ultimately show ?thesis using n'(3,5) that by blast
qed

lemma session_reads_content:
  assumes sim: "recv_sim s (Some (take 8 (frame tag content)))"
    and d: "node_data (ses_recv s) = Some (take 8 (frame tag content) @ junk)"
    and len: "length content \<le> unat MAX_CTX_LEN"
  obtains n m where "read_complete e fill s (Read_Done content) =
      Inr (s\<lparr>ses_recv := m, ses_reading := Some Read_Head, ses_out := ses_out s @ [Post_Message (Some n)]\<rparr>)"
    "node_data n = Some (frame tag content @ drop (length content) junk)" "node_ctx_len n = node_ctx_len (ses_recv s)"
    "recv_sim (s\<lparr>ses_recv := m, ses_reading := Some Read_Head, ses_out := ses_out s @ [Post_Message (Some n)]\<rparr>) (Some [])"
proof -
  let ?n = "ses_recv s" and ?h = "take 8 (frame tag content)"
  have flen: "frame_len ?h = length content" using whole_frame_of_frame(2) [OF len, of tag "[]"] by (simp add: frame_len_def drop_take)
  have h: "length ?h = 8" "?h @ content = frame tag content" by (simp_all add: frame_def)
  have up: "\<not> ses_down s" "ses_handler s" "ses_reading s = Some Read_Content" "node_wf ?n" "unat (node_cur_pos ?n) = 8"
      "8 + length content \<le> unat (node_max_len ?n)" "unat (node_ctx_len ?n) = length content"
    using sim h flen by (auto simp: recv_sim_def)
  have room: "8 + length junk = unat (node_max_len ?n)" using up(4) d h by (simp add: node_wf_def)
  define n where "n = ?n\<lparr>node_data := Some (frame tag content @ drop (length content) junk),
    node_cur_pos := node_cur_pos ?n + of_nat (length content)\<rparr>"
  have "store_bytes ?n content = Inr (?n\<lparr>node_data := Some ((?h @ content) @ drop (length content) junk)\<rparr>)"
    using d up room by (intro store_bytes_append) simp_all
  then have store: "store_bytes ?n content = Inr (?n\<lparr>node_data := Some (frame tag content @ drop (length content) junk)\<rparr>)"
    unfolding h(2) .
  have "unat (node_cur_pos n) = 8 + length content"
    using unat_advance [of "node_cur_pos ?n" ?h content "node_max_len ?n"] up h by (simp add: n_def)
  then have full: "node_ctx_len n + 8 \<le> node_cur_pos n"
    using unat_len_add_head [of "node_ctx_len n"] up len by (simp add: word_le_nat_alt n_def)
  have tag: "GetTagField e n = Inr (be_word (take 4 (frame tag content)))"
    using GetTagField_Some [of n "frame tag content @ drop (length content) junk"] by (simp add: n_def)
  let ?m = "MsgNode_Zero (MsgNode_new fill INITIAL_NODE_SIZE)"
  let ?s = "s\<lparr>ses_recv := ?m, ses_reading := Some Read_Head, ses_out := ses_out s @ [Post_Message (Some n)]\<rparr>"
  have "read_complete e fill s (Read_Done content) = Inr ?s"
    using up store full tag
    unfolding read_complete_def ReceiveContent_cb_def of_nat_HEAD_LEN
    by (simp add: Let_def n_def ReceiveHandler_def emit_def ReceiveHead_def)
  moreover have "recv_sim ?s (Some [])"
    using up MsgNode_Zero_wf [OF MsgNode_new_wf, of fill INITIAL_NODE_SIZE]
    by (simp add: recv_sim_def MsgNode_Zero_def MsgNode_new_def INITIAL_NODE_SIZE_def)
  moreover have "node_data n = Some (frame tag content @ drop (length content) junk)" "node_ctx_len n = node_ctx_len ?n"
    by (simp_all add: n_def)
  ultimately show ?thesis by (intro that)
qed

section \<open>Properties\<close>

lemma recv_sim_Start: "recv_sim (Start (Session_new fill True mgr)) (Some [])"
  by (simp add: recv_sim_def Start_def ReceiveHead_def Session_new_def MsgNode_new_def INITIAL_NODE_SIZE_def node_wf_def)


text \<open>Evaluating the splitter on given pieces.\<close>

lemma admissible_split_Cons:
  "admissible split_pre split_step (c # cs) (Some b) \<longleftrightarrow> length c \<le> want b \<and>
    (if length b < 8 \<and> 8 \<le> length (b @ c) \<and> frame_len (b @ c) > unat MAX_CTX_LEN
     then admissible split_pre split_step cs None
     else if 8 \<le> length b \<and> length (b @ c) = 8 + frame_len b then admissible split_pre split_step cs (Some [])
     else admissible split_pre split_step cs (Some (b @ c)))"
  by (simp add: split_pre_def split_step_def)

lemma four_chunks_admissible:
  "admissible split_pre split_step [[0, 0, 0, 3, 0, 0], [0, 2], [104], [105]] (Some [])"
  by (simp add: admissible_split_Cons want_def frame_len_def be_word_def MAX_CTX_LEN_def del: admissible.simps(2))


text \<open>
  C15: a header that announces more content than the maximum closes the session: nothing is posted
  but the notice that the client went offline, no further read is started, and an unverified
  session leaves the table of temporary sessions.
\<close>

theorem oversized_header_closes:
  assumes "length h = 8" and "frame_len h > unat MAX_CTX_LEN"
  shows "\<exists>s'. recv_step e fill h (Start (Session_new fill True True)) = Inr ([], s') \<and> ses_down s' \<and>
    ses_reading s' = None \<and> ses_out s' = [Post_Message None, Remove_Temp_Session]"
proof -
  let ?n = "MsgNode_new fill INITIAL_NODE_SIZE"
  define len :: u32 where "len = be_word (take 4 (drop 4 h))"
  have big: "MAX_CTX_LEN < len" using assms(2) by (simp add: frame_len_def len_def word_less_nat_alt)
  define n where "n = ?n\<lparr>node_data := Some (h @ drop 8 (new_chars fill 1024)), node_cur_pos := 8\<rparr>"
  have "store_bytes ?n h = Inr (?n\<lparr>node_data := Some (([] @ h) @ drop (length h) (new_chars fill 1024))\<rparr>)"
    using assms(1) by (intro store_bytes_append) (simp_all add: MsgNode_new_def INITIAL_NODE_SIZE_def)
  then have store: "store_bytes ?n h = Inr (?n\<lparr>node_data := Some (h @ drop 8 (new_chars fill 1024))\<rparr>)"
    using assms(1) by simp
  have upd: "UpdateContentLenField e n = Inr (len, n\<lparr>node_ctx_len := len\<rparr>)"
    using assms(1) by (subst UpdateContentLenField_Some [of n "h @ drop 8 (new_chars fill 1024)"]) (simp_all add: n_def len_def)
  have cur: "node_cur_pos ?n = 0" by (simp add: MsgNode_new_def)
  have "read_complete e fill (Start (Session_new fill True True)) (Read_Done h) =
      Inr (Close ((Session_new fill True True)\<lparr>ses_reading := None, ses_recv := n\<lparr>node_ctx_len := len\<rparr>\<rparr>))"
    using assms(1) big upd store cur unfolding read_complete_def ReceiveHead_cb_def of_nat_HEAD_LEN
    by (simp add: Start_def ReceiveHead_def Session_new_def n_def Let_def)
  then show ?thesis
    by (simp add: recv_step_def Start_def ReceiveHead_def Session_new_def Close_def Let_def emit_def posted_def)
qed

theorem oversized_header_closes_witness:
  "\<exists>s'. recv_step Little_Endian (\<lambda>_. 0) [0, 0, 0, 3, 1, 0, 0, 0] (Start (Session_new (\<lambda>_. 0) True True)) = Inr ([], s') \<and>
    ses_down s' \<and> ses_reading s' = None \<and> ses_out s' = [Post_Message None, Remove_Temp_Session]"
  by (rule oversized_header_closes) (simp_all add: frame_len_def be_word_def MAX_CTX_LEN_def)


definition hello_node :: "byte \<Rightarrow> msg_node" where
  "hello_node b = \<lparr>node_data = Some (frame TAG_CHAT_MSG [b]), node_cur_pos = 0, node_ctx_len = 1, node_max_len = 9\<rparr>"

lemma hello_node_sendable: "sendable (hello_node b)"
  by (simp add: sendable_def hello_node_def)


text \<open>
  C14: a message sent while the write of an earlier one is outstanding starts a second write at once,
  because the queue is empty again as soon as the first message left it. Two writes are then
  outstanding on the socket, and \<open>sending_\<close> no longer owns the buffer of the first.
\<close>

theorem two_writes_outstanding:
  assumes "sendable a" and "sendable b"
  shows "\<exists>outs s'. run_steps send_step [Snd_Send a, Snd_Call, Snd_Send b, Snd_Call] (Session_new fill handler mgr) =
      Inr (outs, s') \<and> ses_writes s' = [node_wire a, node_wire b] \<and> ses_sending s' = Some b"
  using assms
  by (simp add: send_step_def Send_node_def Let_def QueueSend_def write_bytes_sendable Session_new_def)

theorem two_writes_outstanding_witness:
  "\<exists>outs s'. run_steps send_step [Snd_Send (hello_node 1), Snd_Call, Snd_Send (hello_node 2), Snd_Call]
      (Session_new (\<lambda>_. 0) True True) =
      Inr (outs, s') \<and> ses_writes s' = [node_wire (hello_node 1), node_wire (hello_node 2)] \<and>
      ses_sending s' = Some (hello_node 2)"
  by (rule two_writes_outstanding) (rule hello_node_sendable)+

end
