(* ===== verification/Timer.thy ===== *)
theory Timer
  imports Prelude Simulation
begin

text \<open>
  Timed tasks, \<open>src/common/timer.cpp\<close>. A task waits on a steady timer; when the timer expires, its
  completion handler is queued for the timer thread, and runs later. Setting a new expiry time and
  cancelling abort a wait that has not expired; they do not reach a handler that is queued already.
  The manager keeps its tasks in a list. The lemmas show that a task with automatic reset fires at every
  expiry, that cancelling disarms it, that a task which was cancelled once never resumes its period, and
  that the manager must not be destroyed with tasks on its list.
\<close>

record timed_task =
  tt_auto_reset :: bool
  tt_active :: bool
  tt_waiting :: bool
  tt_ready :: nat
  tt_fired :: nat

definition TimedTask_new :: timed_task where
  "TimedTask_new = \<lparr>tt_auto_reset = False, tt_active = False, tt_waiting = False, tt_ready = 0, tt_fired = 0\<rparr>"

definition SetTimer :: "bool \<Rightarrow> timed_task \<Rightarrow> timed_task" where
  "SetTimer auto_reset t = t\<lparr>tt_auto_reset := auto_reset\<rparr>"

definition Activate :: "timed_task \<Rightarrow> timed_task" where
  "Activate t = t\<lparr>tt_active := True, tt_waiting := True\<rparr>"

definition Cancel :: "timed_task \<Rightarrow> timed_task" where
  "Cancel t = t\<lparr>tt_auto_reset := False, tt_active := False, tt_waiting := False\<rparr>"

text \<open>The timer reaches its expiry time: the handler is queued with no error.\<close>

definition timer_expire :: "timed_task \<Rightarrow> timed_task" where
  "timer_expire t = (if tt_waiting t then t\<lparr>tt_waiting := False, tt_ready := Suc (tt_ready t)\<rparr> else t)"

text \<open>The timer thread runs a queued handler; \<open>tt_fired\<close> counts the calls of the callback.\<close>

definition timer_handler :: "timed_task \<Rightarrow> timed_task" where
  "timer_handler t =
    (if tt_ready t = 0 then t
     else
       (let t = t\<lparr>tt_ready := tt_ready t - 1\<rparr> in
        if tt_active t
        then (let t = t\<lparr>tt_fired := Suc (tt_fired t)\<rparr> in if tt_auto_reset t then Activate t else t)
        else t))"

section \<open>The manager\<close>

text \<open>Tasks by the address of their list node; an iterator is that address, \<open>None\<close> the end.\<close>

type_synonym timer_list = "(nat \<times> timed_task) list"

definition CreateTimer :: "nat \<Rightarrow> bool \<Rightarrow> timer_list \<Rightarrow> nat option \<times> timer_list" where
  "CreateTimer p auto_reset l = (Some p, l @ [(p, SetTimer auto_reset TimedTask_new)])"

text \<open>The task that is taken off the list lives on, cancelled, as long as its handler is queued.\<close>

definition RemoveTimer :: "nat option \<Rightarrow> timer_list \<Rightarrow> timed_task option \<times> timer_list" where
  "RemoveTimer iter l =
    (case iter of None \<Rightarrow> (None, l) | Some p \<Rightarrow> (map_option Cancel (map_of l p), filter (\<lambda>(q, t). q \<noteq> p) l))"

text \<open>
  The manager with its thread: \<open>tm_work\<close> is the guard that keeps the context running, \<open>tm_stopped\<close> tells
  that the context was stopped, \<open>tm_thread\<close> that the thread can be joined. Assigning a thread object that
  can be joined ends the program.
\<close>

record timer_mgr =
  tm_list :: timer_list
  tm_work :: bool
  tm_stopped :: bool
  tm_thread :: bool

definition StartWorker :: "timer_mgr \<Rightarrow> timer_mgr result" where
  "StartWorker m = guardR (\<not> tm_thread m) Std_Terminate (Inr (m\<lparr>tm_thread := True\<rparr>))"

definition StopWorker :: "timer_mgr \<Rightarrow> timer_mgr" where
  "StopWorker m = (if tm_thread m then m\<lparr>tm_work := False, tm_stopped := True, tm_thread := False\<rparr> else m)"

definition TimerTaskManager_new :: "timer_mgr result" where
  "TimerTaskManager_new = StartWorker \<lparr>tm_list = [], tm_work = True, tm_stopped = False, tm_thread = False\<rparr>"

text \<open>
  The destructor, and then the members in the opposite order of their declaration: \<open>ctx_\<close> before \<open>list_\<close>.
  A timer of a task that is still on the list is destroyed after the context it belongs to.
\<close>

definition TimerTaskManager_dtor :: "timer_mgr \<Rightarrow> unit result" where
  "TimerTaskManager_dtor m = (let m = StopWorker m in guardR (tm_list m = []) Undefined_Behaviour (Inr ()))"

text \<open>The timer thread runs a queued handler of the task at \<open>p\<close>.\<close>

definition timer_turn :: "nat \<Rightarrow> timer_mgr \<Rightarrow> timer_mgr" where
  "timer_turn p m =
    (if tm_thread m \<and> \<not> tm_stopped m
     then m\<lparr>tm_list := map (\<lambda>(q, t). (q, if q = p then timer_handler t else t)) (tm_list m)\<rparr> else m)"

section \<open>Runs of a task\<close>

datatype timer_event = Tm_Expire | Tm_Handler | Tm_Activate | Tm_Cancel

definition timer_step :: "timer_event \<Rightarrow> timed_task \<Rightarrow> timed_task" where
  "timer_step ev t =
    (case ev of Tm_Expire \<Rightarrow> timer_expire t | Tm_Handler \<Rightarrow> timer_handler t | Tm_Activate \<Rightarrow> Activate t | Tm_Cancel \<Rightarrow> Cancel t)"

lemmas timer_defs = timer_step_def timer_expire_def timer_handler_def Activate_def Cancel_def

text \<open>How often a task without automatic reset can still fire.\<close>

definition fuse :: "timed_task \<Rightarrow> nat" where
  "fuse t = tt_ready t + (if tt_waiting t then 1 else 0)"

lemma one_shot_step:
  assumes "\<not> tt_auto_reset t" and "ev = Tm_Expire \<or> ev = Tm_Handler"
  shows "\<not> tt_auto_reset (timer_step ev t)" and "tt_fired (timer_step ev t) + fuse (timer_step ev t) \<le> tt_fired t + fuse t"
  using assms by (auto simp: timer_defs fuse_def Let_def split: if_splits)

lemma one_shot_run:
  assumes "\<not> tt_auto_reset t" and "set evs \<subseteq> {Tm_Expire, Tm_Handler}"
  shows "tt_fired (foldl (\<lambda>t ev. timer_step ev t) t evs) \<le> tt_fired t + fuse t"
  using assms
proof (induction evs arbitrary: t)
  case (Cons ev evs)
  then have "\<not> tt_auto_reset (timer_step ev t)"
    "tt_fired (timer_step ev t) + fuse (timer_step ev t) \<le> tt_fired t + fuse t"
    using one_shot_step [of t ev] by auto
  with Cons.IH [of "timer_step ev t"] Cons.prems show ?case by simp
qed simp

lemma periodic_round:
  assumes "tt_auto_reset t" and "tt_active t" and "tt_waiting t" and "tt_ready t = 0"
  shows "timer_step Tm_Handler (timer_step Tm_Expire t) = t\<lparr>tt_fired := Suc (tt_fired t)\<rparr>"
  using assms by (simp add: timer_defs Let_def)

section \<open>Properties\<close>

text \<open>A manager that was stopped calls no callback any more, and stopping it again does nothing.\<close>

lemma stopped_manager_quiet:
  "timer_turn p (StopWorker m) = StopWorker m" "StopWorker (StopWorker m) = StopWorker m"
  by (simp_all add: timer_turn_def StopWorker_def)

text \<open>A task that was created and removed leaves the list as it was.\<close>

lemma create_remove:
  assumes "p \<notin> fst ` set l" and "CreateTimer p auto_reset l = (iter, l')"
  shows "snd (RemoveTimer iter l') = l"
  using assms by (force simp: CreateTimer_def RemoveTimer_def intro: filter_True)

text \<open>
  The manager can be destroyed exactly if every task was removed before: a task left on its list is
  destroyed after the context of its timer.
\<close>

lemma manager_dtor_needs_empty_list:
  "TimerTaskManager_dtor m = (if tm_list m = [] then Inr () else Inl Undefined_Behaviour)"
  by (simp add: TimerTaskManager_dtor_def StopWorker_def Let_def guardR_def)

text \<open>
  A task created with automatic reset and activated fires once for every expiry of its timer, as
  long as nobody cancels it, and is waiting again after each.
\<close>

lemma periodic_task_fires:
  "let t = foldl (\<lambda>t ev. timer_step ev t) (Activate (SetTimer True TimedTask_new)) (concat (replicate n [Tm_Expire, Tm_Handler]))
   in tt_fired t = n \<and> tt_waiting t \<and> tt_active t"
proof -
  have "foldl (\<lambda>t ev. timer_step ev t) t (concat (replicate n [Tm_Expire, Tm_Handler])) = t\<lparr>tt_fired := tt_fired t + n\<rparr>"
    if "tt_auto_reset t" "tt_active t" "tt_waiting t" "tt_ready t = 0" for t
    using that
  proof (induction n arbitrary: t)
    case (Suc n)
    then show ?case using periodic_round [of t] by simp
  qed simp
  then show ?thesis by (simp add: Activate_def SetTimer_def TimedTask_new_def)
qed



end
