(* ===== verification/Server_Redis.thy ===== *)
theory Server_Redis
  imports Cpp_Text Timer
begin

text \<open>
  What the backend asks of Redis, \<open>src/server/redis/server_redis.cpp\<close>, and the upload of online users of
  \<open>src/include/server/online_status_upload.hpp\<close>. The database itself is not part of the sources: queries
  are answered by the argument functions \<open>get\<close> and \<open>hget\<close>, and the commands that change it are
  values, collected in the order they are issued.
\<close>

section \<open>Commands\<close>

datatype backend_cmd =
    Cmd_Hsetex string "(string \<times> string) list" nat
  | Cmd_Xadd string "(string \<times> string) list" nat
  | Cmd_Xgroup_Create string string string
  | Cmd_Hexpire string nat "string list"
  | Cmd_Del string

definition VerifyUser :: "(string \<Rightarrow> string option) \<Rightarrow> string \<Rightarrow> u64 option result" where
  "VerifyUser get token =
    (case get (''token:'' @ token) of
       None \<Rightarrow> Inr None
     | Some ret \<Rightarrow> bindR (stoull ret) (\<lambda>uid. Inr (Some uid)))"

definition status_key :: "u64 \<Rightarrow> string" where
  "status_key uid = ''status:'' @ to_string (unat uid)"

definition GetUserLocation :: "(string \<Rightarrow> string \<Rightarrow> string option) \<Rightarrow> u64 \<Rightarrow> string option" where
  "GetUserLocation hget uid = hget (status_key uid) ''server_id''"

definition SendToMsgQueue :: "string \<Rightarrow> u64 \<Rightarrow> u64 \<Rightarrow> string \<Rightarrow> backend_cmd" where
  "SendToMsgQueue server_id from to content =
    Cmd_Xadd (''stream:server:'' @ server_id)
      [(''from'', to_string (unat from)), (''to'', to_string (unat to)), (''content'', content)] 1000"

definition UpdateUserStatus :: "string \<Rightarrow> u64 \<Rightarrow> backend_cmd" where
  "UpdateUserStatus server_id uid =
    Cmd_Hsetex (status_key uid) [(''server_id'', server_id), (''status'', ''online'')] 30"

text \<open>\<open>read_from_begin\<close> picks the start of the group; an existing group is kept.\<close>

definition RegisterMsgQueue :: "string \<Rightarrow> bool \<Rightarrow> backend_cmd list" where
  "RegisterMsgQueue server_id read_from_begin =
    (let start = (if read_from_begin then ''0'' else ''$''); group_name = ''message_group'' @ server_id
     in [Cmd_Xgroup_Create (''stream:server:'' @ server_id) group_name start,
         Cmd_Xgroup_Create (''stream:serverctl:'' @ server_id) group_name start])"

text \<open>
  Receiving from the two streams of a server: what is asked of Redis. The time to block is an argument of
  the function that is not passed on.
\<close>

record group_read =
  gd_group :: string
  gd_consumer :: string
  gd_streams :: "(string \<times> string) list"
  gd_count :: nat
  gd_noack :: bool

definition RecvFromMsgQueueNoACK :: "string \<Rightarrow> string \<Rightarrow> nat \<Rightarrow> nat \<Rightarrow> group_read" where
  "RecvFromMsgQueueNoACK server_id consumer_id block_ms recv_count =
    \<lparr>gd_group = ''message_group'' @ server_id, gd_consumer = ''server'' @ consumer_id,
     gd_streams = [(''stream:server:'' @ server_id, ''>''), (''stream:serverctl:'' @ server_id, ''>'')],
     gd_count = recv_count, gd_noack = True\<rparr>"

section \<open>Online users\<close>

text \<open>The sets are lists without duplicates, in an order the hash set may have.\<close>

record online_uploader =
  on_sess :: "u64 list"
  on_removal :: "u64 list"
  on_in_progress :: bool
  on_timer :: timed_task

definition OnlineStatusUploader_new :: online_uploader where
  "OnlineStatusUploader_new =
    \<lparr>on_sess = [], on_removal = [], on_in_progress = False, on_timer = Activate (SetTimer True TimedTask_new)\<rparr>"

definition on_AddSession :: "u64 \<Rightarrow> online_uploader \<Rightarrow> bool \<times> online_uploader" where
  "on_AddSession uid u = (uid \<notin> set (on_sess u), u\<lparr>on_sess := List.insert uid (on_sess u)\<rparr>)"

definition on_RemoveSession :: "u64 \<Rightarrow> online_uploader \<Rightarrow> bool \<times> online_uploader" where
  "on_RemoveSession uid u =
    (True, u\<lparr>on_sess := removeAll uid (on_sess u), on_removal := List.insert uid (on_removal u)\<rparr>)"

text \<open>
  \<open>UploadImpl\<close> up to \<open>pl.exec()\<close>: the two lists are taken and the commands of the pipeline built. The
  flag stays set until the pipeline was executed.
\<close>

definition UploadImpl_begin :: "online_uploader \<Rightarrow> backend_cmd list option \<times> online_uploader" where
  "UploadImpl_begin u =
    (if on_in_progress u then (None, u)
     else
       (Some (map (\<lambda>uid. Cmd_Hexpire (status_key uid) 30 [''server_id'', ''status'']) (on_sess u) @
              map (\<lambda>uid. Cmd_Del (status_key uid)) (on_removal u)),
        u\<lparr>on_sess := [], on_removal := [], on_in_progress := True\<rparr>))"

definition UploadImpl_end :: "online_uploader \<Rightarrow> online_uploader" where
  "UploadImpl_end u = u\<lparr>on_in_progress := False\<rparr>"

text \<open>The whole of \<open>UploadImpl\<close>; \<open>ok\<close> tells whether \<open>pl.exec()\<close> returns or throws.\<close>

definition UploadImpl :: "bool \<Rightarrow> online_uploader \<Rightarrow> (backend_cmd list \<times> online_uploader) result" where
  "UploadImpl ok u =
    (case UploadImpl_begin u of
       (None, u') \<Rightarrow> Inr ([], u')
     | (Some cmds, u') \<Rightarrow> guardR ok (Runtime_Error ''pipeline'') (Inr (cmds, UploadImpl_end u')))"

definition on_UpdateNow :: "bool \<Rightarrow> online_uploader \<Rightarrow> (backend_cmd list \<times> online_uploader) result" where
  "on_UpdateNow ok u =
    bindR (UploadImpl ok u) (\<lambda>(cmds, u). Inr (cmds, u\<lparr>on_timer := Activate (Cancel (on_timer u))\<rparr>))"

section \<open>Lemmas\<close>

lemma status_key_inject [simp]: "status_key a = status_key b \<longleftrightarrow> a = b"
  by (simp add: status_key_def flip: word_unat_eq_iff)

lemma VerifyUser_printed:
  "get (''token:'' @ token) = Some (to_string (unat uid)) \<Longrightarrow> VerifyUser get token = Inr (Some uid)"
  by (simp add: VerifyUser_def)

definition online_ok :: "online_uploader \<Rightarrow> bool" where
  "online_ok u = (distinct (on_sess u) \<and> distinct (on_removal u))"

lemma online_ok_ops:
  "online_ok u \<Longrightarrow> online_ok (snd (on_AddSession uid u))"
  "online_ok u \<Longrightarrow> online_ok (snd (on_RemoveSession uid u))"
  "online_ok u \<Longrightarrow> on_UpdateNow ok u = Inr (cmds, u') \<Longrightarrow> online_ok u'"
  by (auto simp: online_ok_def on_AddSession_def on_RemoveSession_def on_UpdateNow_def UploadImpl_def UploadImpl_begin_def
      UploadImpl_end_def distinct_removeAll result_simps split: if_splits)

text \<open>
  What a server reads is what others send to it: the streams it asks for are those of
  \<open>SendToMsgQueue\<close> for its id, in the group that \<open>RegisterMsgQueue\<close> created on each of them.
\<close>

lemma queue_names_agree:
  assumes "rd = RecvFromMsgQueueNoACK server_id consumer_id block_ms recv_count"
  shows "\<exists>fields n. SendToMsgQueue server_id from to content = Cmd_Xadd (fst (hd (gd_streams rd))) fields n"
    and "RegisterMsgQueue server_id True = map (\<lambda>(key, pos). Cmd_Xgroup_Create key (gd_group rd) ''0'') (gd_streams rd)"
  by (simp_all add: assms RecvFromMsgQueueNoACK_def SendToMsgQueue_def RegisterMsgQueue_def Let_def)

end
