(* ===== verification/Backend.thy ===== *)
theory Backend
  imports Session Server_Redis
begin

text \<open>
  The backend server: the session tables of \<open>src/server/session_manager.cpp\<close>, the message handler of
  \<open>src/server/msg_handler.cpp\<close>, the receiver of messages from other servers of \<open>src/server/mq_handler.cpp\<close>
  and the acceptor of \<open>src/server/server_class.cpp\<close>. Session objects live at addresses; what a session
  calls in its handler and manager (\<open>ses_out\<close> of the theory Session) is carried out here. The mutexes are
  part of the state: a thread that locks a mutex it holds faults with \<open>Self_Deadlock\<close>. Redis and the JSON
  parser are arguments.
\<close>

section \<open>Session tables\<close>

record session_manager =
  mgr_sess :: "u64 \<rightharpoonup> nat"
  mgr_temp :: "nat set"
  mgr_lck :: bool
  mgr_temp_lck :: bool

definition SessionManager_new :: session_manager where
  "SessionManager_new = \<lparr>mgr_sess = Map.empty, mgr_temp = {}, mgr_lck = False, mgr_temp_lck = False\<rparr>"

definition RemoveSession :: "u64 \<Rightarrow> session_manager \<Rightarrow> (bool \<times> session_manager) result" where
  "RemoveSession sess_id m =
    guardR (\<not> mgr_lck m) Self_Deadlock
      (Inr (mgr_sess m sess_id \<noteq> None, m\<lparr>mgr_sess := (mgr_sess m)(sess_id := None)\<rparr>))"

definition AddTempSession :: "nat \<Rightarrow> session_manager \<Rightarrow> (bool \<times> session_manager) result" where
  "AddTempSession sess m =
    guardR (\<not> mgr_temp_lck m) Self_Deadlock
      (Inr (sess \<notin> mgr_temp m, m\<lparr>mgr_temp := insert sess (mgr_temp m)\<rparr>))"

text \<open>\<open>try_emplace\<close> keeps a session that is registered under the id already.\<close>

definition AddSession :: "u64 \<Rightarrow> nat \<Rightarrow> session_manager \<Rightarrow> (bool \<times> session_manager) result" where
  "AddSession sess_id sess m =
    guardR (\<not> mgr_lck m) Self_Deadlock
      (guardR (\<not> mgr_temp_lck m) Self_Deadlock
        (let m1 = m\<lparr>mgr_temp := mgr_temp m - {sess}\<rparr>
         in case mgr_sess m1 sess_id of
              None \<Rightarrow> Inr (True, m1\<lparr>mgr_sess := (mgr_sess m1)(sess_id \<mapsto> sess)\<rparr>)
            | Some _ \<Rightarrow> Inr (False, m1)))"

definition RemoveTempSession :: "nat \<Rightarrow> session_manager \<Rightarrow> (bool \<times> session_manager) result" where
  "RemoveTempSession sess m =
    guardR (\<not> mgr_temp_lck m) Self_Deadlock (Inr (sess \<in> mgr_temp m, m\<lparr>mgr_temp := mgr_temp m - {sess}\<rparr>))"

definition GetSessionCount :: "session_manager \<Rightarrow> u32 result" where
  "GetSessionCount m = guardR (\<not> mgr_lck m) Self_Deadlock (Inr (of_nat (card (dom (mgr_sess m)))))"

definition GetTempSessionCount :: "session_manager \<Rightarrow> u32 result" where
  "GetTempSessionCount m = guardR (\<not> mgr_temp_lck m) Self_Deadlock (Inr (of_nat (card (mgr_temp m))))"

definition GetTotalSessionCount :: "session_manager \<Rightarrow> u32 result" where
  "GetTotalSessionCount m =
    guardR (\<not> mgr_lck m \<and> \<not> mgr_temp_lck m) Self_Deadlock
      (Inr (of_nat (card (dom (mgr_sess m)) + card (mgr_temp m))))"

definition GetSession :: "u64 \<Rightarrow> session_manager \<Rightarrow> nat option result" where
  "GetSession sess_id m = guardR (\<not> mgr_lck m) Self_Deadlock (Inr (mgr_sess m sess_id))"

section \<open>The server\<close>

record backend =
  be_ses :: "nat \<rightharpoonup> session"
  be_mgr :: session_manager
  be_q :: "(nat option \<times> msg_node option) list"
  be_lck :: bool
  be_running :: bool
  be_online :: online_uploader
  be_cmds :: "backend_cmd list"

definition Backend_new :: backend where
  "Backend_new = \<lparr>be_ses = Map.empty, be_mgr = SessionManager_new, be_q = [], be_lck = False, be_running = True,
    be_online = OnlineStatusUploader_new, be_cmds = []\<rparr>"

definition PostMessage :: "nat option \<Rightarrow> msg_node option \<Rightarrow> backend \<Rightarrow> (bool \<times> backend) result" where
  "PostMessage sess msg be =
    guardR (\<not> be_lck be) Self_Deadlock (Inr (True, be\<lparr>be_q := be_q be @ [(sess, msg)]\<rparr>))"

definition MsgHandler_Start :: "backend \<Rightarrow> (bool \<times> backend) result" where
  "MsgHandler_Start be =
    guardR (\<not> be_lck be) Self_Deadlock
      (if be_running be then Inr (False, be) else Inr (True, be\<lparr>be_running := True\<rparr>))"

definition MsgHandler_Stop :: "backend \<Rightarrow> (bool \<times> backend) result" where
  "MsgHandler_Stop be =
    guardR (\<not> be_lck be) Self_Deadlock
      (if \<not> be_running be then Inr (False, be) else Inr (True, be\<lparr>be_running := False\<rparr>))"

text \<open>What session \<open>p\<close> calls in the handler and in the manager.\<close>

definition be_set_mgr :: "backend \<Rightarrow> (bool \<times> session_manager) result \<Rightarrow> backend result" where
  "be_set_mgr be r = bindR r (\<lambda>(ret, m). Inr (be\<lparr>be_mgr := m\<rparr>))"

definition apply_effect :: "nat \<Rightarrow> session_effect \<Rightarrow> backend \<Rightarrow> backend result" where
  "apply_effect p ef be =
    (case ef of
       Post_Message m \<Rightarrow> bindR (PostMessage (Some p) m be) (\<lambda>(ret, be). Inr be)
     | Remove_Session uid \<Rightarrow> be_set_mgr be (RemoveSession uid (be_mgr be))
     | Remove_Temp_Session \<Rightarrow> be_set_mgr be (RemoveTempSession p (be_mgr be)))"

primrec apply_effects :: "nat \<Rightarrow> session_effect list \<Rightarrow> backend \<Rightarrow> backend result" where
  "apply_effects p [] be = Inr be"
| "apply_effects p (ef # efs) be = bindR (apply_effect p ef be) (apply_effects p efs)"

text \<open>A member function of the session at \<open>p\<close>, with the calls it makes.\<close>

definition call_session :: "nat \<Rightarrow> (session \<Rightarrow> session result) \<Rightarrow> backend \<Rightarrow> backend result" where
  "call_session p f be =
    (case be_ses be p of
       None \<Rightarrow> Inl Undefined_Behaviour
     | Some s \<Rightarrow>
         bindR (f s) (\<lambda>s'.
           apply_effects p (drop (length (ses_out s)) (ses_out s')) (be\<lparr>be_ses := (be_ses be)(p \<mapsto> s')\<rparr>)))"

definition session_close :: "nat \<Rightarrow> backend \<Rightarrow> backend result" where
  "session_close p = call_session p (\<lambda>s. Inr (Close s))"

text \<open>\<open>Send\<close> to the end: the thread that found the queue empty calls \<open>QueueSend\<close>.\<close>

definition Send_whole :: "msg_node \<Rightarrow> session \<Rightarrow> session result" where
  "Send_whole n s =
    (if ses_send_q s = []
     then QueueSend ((Send_node n s)\<lparr>ses_calls := ses_calls s\<rparr>)
     else Inr (Send_node n s))"

definition session_send :: "nat \<Rightarrow> msg_node \<Rightarrow> backend \<Rightarrow> backend result" where
  "session_send p n = call_session p (Send_whole n)"

definition StopSession :: "u64 \<Rightarrow> backend \<Rightarrow> (bool \<times> backend) result" where
  "StopSession sess_id be =
    guardR (\<not> mgr_lck (be_mgr be)) Self_Deadlock
      (case mgr_sess (be_mgr be) sess_id of
         None \<Rightarrow> Inr (False, be)
       | Some p \<Rightarrow>
           bindR (session_close p (be\<lparr>be_mgr := (be_mgr be)\<lparr>mgr_lck := True\<rparr>\<rparr>)) (\<lambda>be.
             Inr (True, be\<lparr>be_mgr := (be_mgr be)\<lparr>mgr_lck := False\<rparr>\<rparr>)))"

section \<open>Processing a message\<close>

text \<open>
  What the JSON library makes of the text of a verification: no document, a document whose fields do
  not convert, or the two fields.
\<close>

datatype verify_json = Not_Json | Bad_Fields | Fields string u64

text \<open>
  The services the handler uses: the parser, the two queries of Redis, and whether a query
  (\<open>sv_read\<close>) and a command or pipeline (\<open>sv_exec\<close>) is answered; otherwise the call throws.
\<close>

record services =
  sv_json :: "byte list \<Rightarrow> verify_json"
  sv_get :: "string \<Rightarrow> string option"
  sv_hget :: "string \<Rightarrow> string \<Rightarrow> string option"
  sv_read :: bool
  sv_exec :: bool

definition issue :: "backend_cmd list \<Rightarrow> backend \<Rightarrow> backend" where
  "issue cmds be = be\<lparr>be_cmds := be_cmds be @ cmds\<rparr>"

definition online_UpdateNow :: "services \<Rightarrow> backend \<Rightarrow> backend result" where
  "online_UpdateNow sv be =
    bindR (on_UpdateNow (sv_exec sv) (be_online be)) (\<lambda>(cmds, u). Inr ((issue cmds be)\<lparr>be_online := u\<rparr>))"

definition welcome_text :: string where
  "welcome_text = ''Welcome to the chatroom!''"

text \<open>\<open>sess->Close(); sess_mgr_->RemoveTempSession(sess.get());\<close>\<close>

definition reject :: "nat \<Rightarrow> backend \<Rightarrow> backend result" where
  "reject p be =
    bindR (session_close p be) (\<lambda>be. be_set_mgr be (RemoveTempSession p (be_mgr be)))"

definition Processor_verify ::
  "endian \<Rightarrow> (nat \<Rightarrow> byte) \<Rightarrow> string \<Rightarrow> services \<Rightarrow> nat \<Rightarrow> msg_node \<Rightarrow> backend \<Rightarrow> backend result" where
  "Processor_verify e fill server_id sv p msg be =
    (if ses_verified (the (be_ses be p)) then Inr be
     else
       bindR (c_string (GetContent msg)) (\<lambda>doc.
         case sv_json sv doc of
           Not_Json \<Rightarrow> reject p be
         | Bad_Fields \<Rightarrow> reject p be
         | Fields token uid \<Rightarrow>
             bindR (guardR (sv_read sv) (Runtime_Error ''redis'') (VerifyUser (sv_get sv) token)) (\<lambda>ans_uid.
               if ans_uid \<noteq> Some uid then reject p be
               else
                 bindR (call_session p (\<lambda>s. Inr (SetVerified uid s)) be) (\<lambda>be.
                 bindR (be_set_mgr be (AddSession uid p (be_mgr be))) (\<lambda>be.
                 guardR (sv_exec sv) (Runtime_Error ''redis'')
                   (bindR (MsgNode_msg e fill (bytes_of_text welcome_text) (of_nat (length welcome_text)) TAG_VERIFY_DONE) (\<lambda>n.
                     session_send p n (issue [UpdateUserStatus server_id uid] be))))))))"

definition Processor_chat :: "endian \<Rightarrow> services \<Rightarrow> nat \<Rightarrow> msg_node \<Rightarrow> backend \<Rightarrow> backend result" where
  "Processor_chat e sv p msg be =
    (let uid = ses_user_id (the (be_ses be p)) in
     if \<not> ses_verified (the (be_ses be p)) then Inr be
     else
       bindR (ReadNetField64 e (GetContent msg) 0) (\<lambda>target_uid.
       bindR (GetSession target_uid (be_mgr be)) (\<lambda>target_sess.
         case target_sess of
           None \<Rightarrow>
             guardR (sv_read sv) (Runtime_Error ''redis'')
               (case GetUserLocation (sv_hget sv) target_uid of
                  None \<Rightarrow> Inr be
                | Some sid \<Rightarrow>
                    guardR (8 \<le> GetContentLen msg) Undefined_Behaviour
                      (guardR (sv_exec sv) (Runtime_Error ''redis'')
                        (Inr (issue [SendToMsgQueue sid uid target_uid
                          (text_of_bytes (drop 8 (take (unat (GetContentLen msg)) (GetContent msg))))] be))))
         | Some q \<Rightarrow>
             bindR (SetTagField e (ResetCurPos msg) TAG_CHAT_MSG_TOCLI) (\<lambda>msg.
               case node_data msg of
                 None \<Rightarrow> Inl Undefined_Behaviour
               | Some d \<Rightarrow>
                   bindR (WriteNetField64 e d HEAD_LEN uid) (\<lambda>d.
                     session_send q (msg\<lparr>node_data := Some d\<rparr>) be)))))"

definition Processor ::
  "endian \<Rightarrow> (nat \<Rightarrow> byte) \<Rightarrow> string \<Rightarrow> services \<Rightarrow> nat option \<Rightarrow> msg_node option \<Rightarrow> backend \<Rightarrow> backend result" where
  "Processor e fill server_id sv sess msg be =
    (case sess of
       None \<Rightarrow> Inr be
     | Some p \<Rightarrow>
         (case msg of
            None \<Rightarrow>
              if ses_verified (the (be_ses be p))
              then online_UpdateNow sv
                (be\<lparr>be_online := snd (on_RemoveSession (ses_user_id (the (be_ses be p))) (be_online be))\<rparr>)
              else Inr be
          | Some msg \<Rightarrow>
              bindR (GetTagField e msg) (\<lambda>msg_type.
                (let be = be\<lparr>be_online := snd (on_AddSession (ses_user_id (the (be_ses be p))) (be_online be))\<rparr> in
                 if msg_type = TAG_VERIFY then Processor_verify e fill server_id sv p msg be
                 else if msg_type = TAG_CHAT_MSG then Processor_chat e sv p msg be
                 else Inr be))))"

text \<open>
  One turn of the worker loop: the lock is held while the message is processed. \<open>None\<close> means the
  worker waits (empty queue) or left the loop (not running).
\<close>

definition Worker_turn ::
  "endian \<Rightarrow> (nat \<Rightarrow> byte) \<Rightarrow> string \<Rightarrow> services \<Rightarrow> backend \<Rightarrow> backend option result" where
  "Worker_turn e fill server_id sv be =
    guardR (\<not> be_lck be) Self_Deadlock
      (if \<not> be_running be then Inr None
       else
         (case be_q be of
            [] \<Rightarrow> Inr None
          | (sess, msg) # q \<Rightarrow>
              bindR (Processor e fill server_id sv sess msg (be\<lparr>be_lck := True, be_q := q\<rparr>)) (\<lambda>be.
                Inr (Some (be\<lparr>be_lck := False\<rparr>)))))"

section \<open>Messages from other servers\<close>

text \<open>An item of a stream: its attributes, \<open>None\<close> when it was deleted. \<open>at\<close> throws when a key is missing.\<close>

type_synonym attrs = "(string \<times> string) list"

definition attr_at :: "attrs \<Rightarrow> string \<Rightarrow> string result" where
  "attr_at msg k = (case map_of msg k of None \<Rightarrow> Inl Out_Of_Range | Some v \<Rightarrow> Inr v)"

definition CtrlMsgHandler :: "attrs option \<Rightarrow> backend \<Rightarrow> backend result" where
  "CtrlMsgHandler item be =
    (case item of
       None \<Rightarrow> Inr be
     | Some msg \<Rightarrow>
         bindR (attr_at msg ''type'') (\<lambda>type.
           if type = ''kick'' then
             bindR (attr_at msg ''uid'') (\<lambda>uid_text.
             bindR (stoull uid_text) (\<lambda>uid.
             bindR (GetSession uid (be_mgr be)) (\<lambda>sess.
               case sess of None \<Rightarrow> Inr be | Some p \<Rightarrow> session_close p be)))
           else Inr be))"

definition mq_node :: "endian \<Rightarrow> (nat \<Rightarrow> byte) \<Rightarrow> u64 \<Rightarrow> byte list \<Rightarrow> msg_node result" where
  "mq_node e fill from content =
    (let sending = MsgNode_new fill (of_nat (HEAD_LEN + 8 + length content)) in
     case node_data sending of
       None \<Rightarrow> Inl Undefined_Behaviour
     | Some d \<Rightarrow>
         bindR (WriteNetField64 e d HEAD_LEN from) (\<lambda>d.
         bindR (memcpy_to d (HEAD_LEN + 8) content) (\<lambda>d.
         bindR (SetTagField e (sending\<lparr>node_data := Some d\<rparr>) TAG_CHAT_MSG_TOCLI) (\<lambda>sending.
           SetContentLenField e sending (of_nat (8 + length content))))))"

definition MessageHandler :: "endian \<Rightarrow> (nat \<Rightarrow> byte) \<Rightarrow> attrs option \<Rightarrow> backend \<Rightarrow> backend result" where
  "MessageHandler e fill item be =
    (case item of
       None \<Rightarrow> Inr be
     | Some msg \<Rightarrow>
         bindR (attr_at msg ''from'') (\<lambda>from_text.
         bindR (stoull from_text) (\<lambda>from.
         bindR (attr_at msg ''to'') (\<lambda>to_text.
         bindR (stoull to_text) (\<lambda>to.
         bindR (attr_at msg ''content'') (\<lambda>content.
         bindR (mq_node e fill from (bytes_of_text content)) (\<lambda>sending.
         bindR (GetSession to (be_mgr be)) (\<lambda>sess.
           case sess of None \<Rightarrow> Inr be | Some p \<Rightarrow> session_send p sending be))))))))"

text \<open>One round of the receiver: the streams that were read, in the order the table has them.\<close>

fun MQ_items :: "endian \<Rightarrow> (nat \<Rightarrow> byte) \<Rightarrow> bool \<Rightarrow> attrs option list \<Rightarrow> backend \<Rightarrow> backend result" where
  "MQ_items e fill ctrl [] be = Inr be"
| "MQ_items e fill ctrl (item # items) be =
    bindR (if ctrl then CtrlMsgHandler item be else MessageHandler e fill item be) (MQ_items e fill ctrl items)"

fun MQ_round :: "endian \<Rightarrow> (nat \<Rightarrow> byte) \<Rightarrow> string \<Rightarrow> (string \<times> attrs option list) list \<Rightarrow> backend \<Rightarrow> backend result" where
  "MQ_round e fill server_id [] be = Inr be"
| "MQ_round e fill server_id ((key, items) # stms) be =
    bindR (if key = ''stream:server:'' @ server_id then MQ_items e fill False items be
           else if key = ''stream:serverctl:'' @ server_id then MQ_items e fill True items be
           else Inr be) (MQ_round e fill server_id stms)"

text \<open>
  The loop of the receiver: what each of its reads came to, until \<open>running_\<close> is false. A timeout is caught;
  another exception leaves the thread function.
\<close>

datatype mq_read = Read_Timeout | Read_Throws fault | Read_Streams "(string \<times> attrs option list) list"

fun MQ_WorkerFn :: "endian \<Rightarrow> (nat \<Rightarrow> byte) \<Rightarrow> string \<Rightarrow> mq_read list \<Rightarrow> backend \<Rightarrow> backend result" where
  "MQ_WorkerFn e fill server_id [] be = Inr be"
| "MQ_WorkerFn e fill server_id (Read_Timeout # reads) be = MQ_WorkerFn e fill server_id reads be"
| "MQ_WorkerFn e fill server_id (Read_Throws ex # reads) be = Inl ex"
| "MQ_WorkerFn e fill server_id (Read_Streams stms # reads) be =
    (if stms = [] then MQ_WorkerFn e fill server_id reads be
     else bindR (MQ_round e fill server_id stms be) (MQ_WorkerFn e fill server_id reads))"

section \<open>Accepting a connection\<close>

definition accept_session :: "(nat \<Rightarrow> byte) \<Rightarrow> nat \<Rightarrow> backend \<Rightarrow> backend result" where
  "accept_session fill p be =
    bindR (be_set_mgr (be\<lparr>be_ses := (be_ses be)(p \<mapsto> Session_new fill True True)\<rparr>) (AddTempSession p (be_mgr be))) (\<lambda>be.
      call_session p (\<lambda>s. Inr (Start s)) be)"

section \<open>Events of the server\<close>

datatype be_event =
    Be_Accept nat
  | Be_Read nat read_result
  | Be_Call nat
  | Be_Written nat nat bool
  | Be_Work services
  | Be_Queue "(string \<times> attrs option list) list"
  | Be_Upload_Begin
  | Be_Upload_End

text \<open>
  A new session gets an address that is not in use. The events of the timer thread are the two halves
  of an upload of the online users.
\<close>

definition be_step :: "endian \<Rightarrow> (nat \<Rightarrow> byte) \<Rightarrow> string \<Rightarrow> be_event \<Rightarrow> backend \<Rightarrow> (unit \<times> backend) result" where
  "be_step e fill server_id ev be =
    bindR
      (case ev of
         Be_Accept p \<Rightarrow> if be_ses be p = None then accept_session fill p be else Inr be
       | Be_Read p r \<Rightarrow> if be_ses be p = None then Inr be else call_session p (\<lambda>s. read_complete e fill s r) be
       | Be_Call p \<Rightarrow> if be_ses be p = None then Inr be else
           call_session p (\<lambda>s. bindR (send_step Snd_Call s) (\<lambda>(out, s). Inr s)) be
       | Be_Written p i err \<Rightarrow> if be_ses be p = None then Inr be else
           call_session p (\<lambda>s. bindR (send_step (Snd_Done i err) s) (\<lambda>(out, s). Inr s)) be
       | Be_Work sv \<Rightarrow>
           bindR (Worker_turn e fill server_id sv be) (\<lambda>r. Inr (case r of None \<Rightarrow> be | Some be' \<Rightarrow> be'))
       | Be_Queue stms \<Rightarrow> MQ_round e fill server_id stms be
       | Be_Upload_Begin \<Rightarrow>
           (case UploadImpl_begin (be_online be) of
              (None, u) \<Rightarrow> Inr be
            | (Some cmds, u) \<Rightarrow> Inr ((issue cmds be)\<lparr>be_online := u\<rparr>))
       | Be_Upload_End \<Rightarrow> Inr (be\<lparr>be_online := UploadImpl_end (be_online be)\<rparr>))
      (\<lambda>be'. Inr ((), be'))"

section \<open>The tables agree with the sessions\<close>

text \<open>What the tables depend on in a session, by address.\<close>

definition ident :: "session \<Rightarrow> bool \<times> u64 \<times> bool \<times> bool" where
  "ident s = (ses_verified s, ses_user_id s, ses_handler s, ses_mgr s)"

definition ids_of :: "backend \<Rightarrow> nat \<rightharpoonup> bool \<times> u64 \<times> bool \<times> bool" where
  "ids_of be p = map_option ident (be_ses be p)"

text \<open>
  A registered session is verified under the id it is registered with, a temporary one is not
  verified, and the queue of the handler names existing sessions. No mutex of the tables is held.
\<close>

definition ids_live :: "(nat \<rightharpoonup> bool \<times> u64 \<times> bool \<times> bool) \<Rightarrow> bool" where
  "ids_live ids = (\<forall>p x. ids p = Some x \<longrightarrow> snd (snd x) = (True, True))"

definition tbl_ok ::
  "session_manager \<Rightarrow> (nat option \<times> msg_node option) list \<Rightarrow> (nat \<rightharpoonup> bool \<times> u64 \<times> bool \<times> bool) \<Rightarrow> bool" where
  "tbl_ok m q ids =
    (\<not> mgr_lck m \<and> \<not> mgr_temp_lck m \<and>
     (\<forall>uid p. mgr_sess m uid = Some p \<longrightarrow> ids p = Some (True, uid, True, True)) \<and>
     (\<forall>p\<in>mgr_temp m. \<exists>uid. ids p = Some (False, uid, True, True)) \<and>
     ids_live ids \<and> fst ` set q \<subseteq> insert None (Some ` dom ids))"

definition tables_ok :: "backend \<Rightarrow> bool" where
  "tables_ok be = tbl_ok (be_mgr be) (be_q be) (ids_of be)"

lemma ident_simps [simp]:
  "ident (s\<lparr>ses_recv := n\<rparr>) = ident s" "ident (s\<lparr>ses_reading := r\<rparr>) = ident s" "ident (s\<lparr>ses_send_q := q\<rparr>) = ident s"
  "ident (s\<lparr>ses_sending := sn\<rparr>) = ident s" "ident (s\<lparr>ses_writes := w\<rparr>) = ident s" "ident (s\<lparr>ses_calls := k\<rparr>) = ident s"
  "ident (s\<lparr>ses_down := d\<rparr>) = ident s" "ident (s\<lparr>ses_out := efs\<rparr>) = ident s" "ident (emit ef s) = ident s"
  by (simp_all add: ident_def emit_def)

lemma ident_Close [simp]: "ident (Close s) = ident s"
  by (simp add: Close_def Let_def)

lemma ident_Send_node [simp]: "ident (Send_node n s) = ident s"
  by (simp add: Send_node_def Let_def)

lemma ident_QueueSend: "QueueSend s = Inr s' \<Longrightarrow> ident s' = ident s"
  by (auto simp: QueueSend_def split: list.splits)

lemma ident_Send_whole: "Send_whole n s = Inr s' \<Longrightarrow> ident s' = ident s"
  by (auto simp: Send_whole_def dest: ident_QueueSend split: if_splits)

lemma ident_send_step: "send_step ev s = Inr (out, s') \<Longrightarrow> ident s' = ident s"
  by (cases ev) (auto simp: send_step_def QueueSend_cb_def Let_def dest: ident_QueueSend split: if_splits)

lemma ident_receive [simp]:
  "ident (ReceiveHandler fill s) = ident s" "ident (ReceiveHead s) = ident s" "ident (ReceiveContent s) = ident s"
  by (simp_all add: ReceiveHandler_def ReceiveHead_def ReceiveContent_def)

lemma ident_ReceiveHead_cb: "ReceiveHead_cb e fill s r = Inr s' \<Longrightarrow> ident s' = ident s"
  by (auto simp: ReceiveHead_cb_def Let_def split: read_result.splits if_splits)

lemma ident_ReceiveContent_cb: "ReceiveContent_cb e fill s r = Inr s' \<Longrightarrow> ident s' = ident s"
  by (auto simp: ReceiveContent_cb_def Let_def split: read_result.splits if_splits)

lemma ident_read_complete: "read_complete e fill s r = Inr s' \<Longrightarrow> ident s' = ident s"
  by (auto simp: read_complete_def dest: ident_ReceiveHead_cb ident_ReceiveContent_cb
      split: option.splits read_phase.splits)

lemma ids_of_update [simp]:
  "be_ses be p = Some s \<Longrightarrow> ident s' = ident s \<Longrightarrow> ids_of (be\<lparr>be_ses := (be_ses be)(p \<mapsto> s')\<rparr>) = ids_of be"
  by (auto simp: ids_of_def)

lemma ids_of_simps [simp]:
  "ids_of (be\<lparr>be_mgr := m\<rparr>) = ids_of be" "ids_of (be\<lparr>be_q := q\<rparr>) = ids_of be" "ids_of (be\<lparr>be_lck := b\<rparr>) = ids_of be"
  "ids_of (be\<lparr>be_online := u\<rparr>) = ids_of be" "ids_of (be\<lparr>be_cmds := c\<rparr>) = ids_of be"
  by (simp_all add: ids_of_def fun_eq_iff)

lemma tables_ok_simps [simp]:
  "tables_ok (be\<lparr>be_lck := b\<rparr>) = tables_ok be" "tables_ok (be\<lparr>be_online := u\<rparr>) = tables_ok be"
  "tables_ok (issue cmds be) = tables_ok be"
  by (simp_all add: tables_ok_def issue_def)

lemma tbl_ok_ops:
  "tbl_ok m q ids \<Longrightarrow> ids p \<noteq> None \<Longrightarrow> tbl_ok m (q @ [(Some p, x)]) ids"
  "tbl_ok m q ids \<Longrightarrow> tbl_ok (m\<lparr>mgr_sess := (mgr_sess m)(uid := None)\<rparr>) q ids"
  "tbl_ok m q ids \<Longrightarrow> tbl_ok (m\<lparr>mgr_temp := mgr_temp m - {p}\<rparr>) q ids"
  "tbl_ok m (item # q) ids \<Longrightarrow> tbl_ok m q ids"
  unfolding tbl_ok_def by auto

lemma tables_ok_apply_effect:
  assumes "tables_ok be" and "ids_of be p \<noteq> None" and "apply_effect p ef be = Inr be'"
  shows "tables_ok be' \<and> ids_of be' = ids_of be \<and> be_lck be' = be_lck be"
  using assms
  by (cases ef) (auto simp: apply_effect_def PostMessage_def be_set_mgr_def RemoveSession_def RemoveTempSession_def
      tables_ok_def result_simps tbl_ok_ops(1-3))

lemma tables_ok_apply_effects:
  "tables_ok be \<Longrightarrow> ids_of be p \<noteq> None \<Longrightarrow> apply_effects p efs be = Inr be' \<Longrightarrow>
    tables_ok be' \<and> ids_of be' = ids_of be \<and> be_lck be' = be_lck be"
proof (induction efs arbitrary: be)
  case (Cons ef efs)
  then obtain be1 where "apply_effect p ef be = Inr be1" "apply_effects p efs be1 = Inr be'"
    by (auto simp: result_simps)
  with Cons show ?case using tables_ok_apply_effect [of be p ef be1] by auto
qed simp

lemma tables_ok_call_session:
  assumes ok: "tables_ok be" and call: "call_session p f be = Inr be'"
    and same: "\<And>s s'. f s = Inr s' \<Longrightarrow> ident s' = ident s"
  shows "tables_ok be' \<and> ids_of be' = ids_of be \<and> be_lck be' = be_lck be"
proof -
  obtain s s' where s: "be_ses be p = Some s" "f s = Inr s'"
      "apply_effects p (drop (length (ses_out s)) (ses_out s')) (be\<lparr>be_ses := (be_ses be)(p \<mapsto> s')\<rparr>) = Inr be'"
    using call by (auto simp: call_session_def split: option.splits)
  have ids: "ids_of (be\<lparr>be_ses := (be_ses be)(p \<mapsto> s')\<rparr>) = ids_of be" using s(1) same [OF s(2)] by simp
  moreover have "tables_ok (be\<lparr>be_ses := (be_ses be)(p \<mapsto> s')\<rparr>)" using ok ids by (simp add: tables_ok_def)
  moreover have "ids_of be p \<noteq> None" using s(1) by (simp add: ids_of_def)
  ultimately show ?thesis using tables_ok_apply_effects [OF _ _ s(3)] by simp
qed

lemma tables_ok_session_send:
  "tables_ok be \<Longrightarrow> session_send p n be = Inr be' \<Longrightarrow> tables_ok be' \<and> ids_of be' = ids_of be \<and> be_lck be' = be_lck be"
  unfolding session_send_def by (erule (1) tables_ok_call_session) (rule ident_Send_whole)

lemma tables_ok_session_close:
  "tables_ok be \<Longrightarrow> session_close p be = Inr be' \<Longrightarrow> tables_ok be' \<and> ids_of be' = ids_of be \<and> be_lck be' = be_lck be"
  unfolding session_close_def by (erule (1) tables_ok_call_session) auto

lemma issue_simps [simp]:
  "be_lck (issue cmds be) = be_lck be" "be_ses (issue cmds be) = be_ses be" "be_mgr (issue cmds be) = be_mgr be"
  "be_q (issue cmds be) = be_q be" "be_online (issue cmds be) = be_online be" "be_running (issue cmds be) = be_running be"
  by (simp_all add: issue_def)

lemma tables_ok_set_mgr:
  "tables_ok be \<Longrightarrow> be_set_mgr be (RemoveTempSession p (be_mgr be)) = Inr be' \<Longrightarrow>
    tables_ok be' \<and> ids_of be' = ids_of be \<and> be_lck be' = be_lck be"
  by (auto simp: be_set_mgr_def RemoveTempSession_def tables_ok_def result_simps tbl_ok_ops(3))

lemma tables_ok_reject:
  assumes "tables_ok be" and "reject p be = Inr be'"
  shows "tables_ok be' \<and> ids_of be' = ids_of be \<and> be_lck be' = be_lck be"
proof -
  obtain be1 where be1: "session_close p be = Inr be1" "be_set_mgr be1 (RemoveTempSession p (be_mgr be1)) = Inr be'"
    using assms(2) by (auto simp: reject_def)
  show ?thesis using tables_ok_session_close [OF assms(1) be1(1)] tables_ok_set_mgr [OF _ be1(2)] by simp
qed

text \<open>Verifying a session and registering it.\<close>

lemma SetVerified_call:
  assumes "be_ses be p = Some s"
  shows "call_session p (\<lambda>s. Inr (SetVerified uid s)) be = Inr (be\<lparr>be_ses := (be_ses be)(p \<mapsto> SetVerified uid s)\<rparr>)"
proof -
  have "ses_out (SetVerified uid s) = ses_out s" by (simp add: SetVerified_def)
  then show ?thesis using assms by (simp add: call_session_def)
qed

lemma tbl_okD:
  assumes "tbl_ok m q ids"
  shows "\<not> mgr_lck m" and "\<not> mgr_temp_lck m" and "mgr_sess m v = Some x \<Longrightarrow> ids x = Some (True, v, True, True)"
    and "x \<in> mgr_temp m \<Longrightarrow> \<exists>u. ids x = Some (False, u, True, True)"
    and "ids_live ids" and "fst ` set q \<subseteq> insert None (Some ` dom ids)"
  using assms by (simp_all add: tbl_ok_def)

lemma tbl_okI:
  assumes "\<not> mgr_lck m" and "\<not> mgr_temp_lck m" and "\<And>v x. mgr_sess m v = Some x \<Longrightarrow> ids x = Some (True, v, True, True)"
    and "\<And>x. x \<in> mgr_temp m \<Longrightarrow> \<exists>u. ids x = Some (False, u, True, True)"
    and "ids_live ids" and "fst ` set q \<subseteq> insert None (Some ` dom ids)"
  shows "tbl_ok m q ids"
  using assms by (simp add: tbl_ok_def)

lemma tbl_ok_verified:
  assumes "tbl_ok m q ids" and "ids p = Some (False, u, True, True)"
    and "AddSession uid p m = Inr (ret, m')"
  shows "tbl_ok m' q (ids(p \<mapsto> (True, uid, True, True)))"
proof -
  let ?ids = "ids(p \<mapsto> (True, uid, True, True))"
  note ok = tbl_okD [OF assms(1)]
  have sess: "mgr_sess m' v = Some x \<Longrightarrow> mgr_sess m v = Some x \<or> x = p \<and> v = uid" for v x
    using assms(3) by (auto simp: AddSession_def Let_def result_simps split: option.splits if_splits)
  have m': "mgr_temp m' = mgr_temp m - {p}" "\<not> mgr_lck m'" "\<not> mgr_temp_lck m'"
    using assms(3) by (auto simp: AddSession_def Let_def result_simps split: option.splits)
  show ?thesis
  proof (rule tbl_okI)
    fix v x assume "mgr_sess m' v = Some x"
    then show "?ids x = Some (True, v, True, True)" using sess ok(3) [of v x] assms(2) by fastforce
  next
    fix x assume "x \<in> mgr_temp m'"
    then show "\<exists>u. ?ids x = Some (False, u, True, True)" using ok(4) [of x] m'(1) by simp
  next
    show "ids_live ?ids" using ok(5) unfolding ids_live_def by (metis fun_upd_apply option.inject snd_conv)
  next
    have "Some ` dom ids \<subseteq> Some ` dom ?ids" by (intro image_mono) auto
    then show "fst ` set q \<subseteq> insert None (Some ` dom ?ids)" using ok(6) by (meson insert_mono order_trans)
  qed (use m' in auto)
qed

lemma tables_ok_verified:
  assumes ok: "tables_ok be" and s: "be_ses be p = Some s" "\<not> ses_verified s"
    and add: "be_set_mgr (be\<lparr>be_ses := (be_ses be)(p \<mapsto> SetVerified uid s)\<rparr>) (AddSession uid p (be_mgr be)) = Inr be'"
  shows "tables_ok be' \<and> be_lck be' = be_lck be"
proof -
  obtain ret m' where m': "AddSession uid p (be_mgr be) = Inr (ret, m')"
      "be' = be\<lparr>be_ses := (be_ses be)(p \<mapsto> SetVerified uid s), be_mgr := m'\<rparr>"
    using add by (auto simp: be_set_mgr_def result_simps)
  have "snd (snd (ident s)) = (True, True)"
    using ok s(1) unfolding tables_ok_def tbl_ok_def ids_live_def by (metis ids_of_def option.map(2))
  then have p: "ids_of be p = Some (False, ses_user_id s, True, True)"
    using s by (simp add: ids_of_def ident_def)
  have "ident (SetVerified uid s) = (True, uid, True, True)"
    using s(2) p \<open>be_ses be p = Some s\<close> by (simp add: SetVerified_def ident_def ids_of_def)
  then have "ids_of be' = (ids_of be)(p \<mapsto> (True, uid, True, True))"
    by (auto simp: m'(2) ids_of_def fun_eq_iff)
  with tbl_ok_verified [where ids = "ids_of be" and q = "be_q be", OF _ p m'(1)] ok show ?thesis by (simp add: tables_ok_def m'(2))
qed

lemma Processor_verify_cases:
  assumes p: "be_ses be p = Some s" and run: "Processor_verify e fill server_id sv p msg be = Inr be'"
  obtains (same) "be' = be"
    | (rejected) "reject p be = Inr be'"
    | (verified) token uid be1 n where "\<not> ses_verified s" "VerifyUser (sv_get sv) token = Inr (Some uid)"
        "be_set_mgr (be\<lparr>be_ses := (be_ses be)(p \<mapsto> SetVerified uid s)\<rparr>) (AddSession uid p (be_mgr be)) = Inr be1"
        "MsgNode_msg e fill (bytes_of_text welcome_text) (of_nat (length welcome_text)) TAG_VERIFY_DONE = Inr n"
        "session_send p n (issue [UpdateUserStatus server_id uid] be1) = Inr be'"
proof (cases "ses_verified s")
  case True
  with p run show ?thesis by (intro same) (simp add: Processor_verify_def)
next
  case False
  obtain doc where "c_string (GetContent msg) = Inr doc"
    using run p False by (auto simp: Processor_verify_def)
  then show ?thesis
    using run p False rejected verified
    by (auto simp: Processor_verify_def SetVerified_call guardR_eq_Inr_iff split: verify_json.splits if_splits)
qed

lemma tables_ok_Processor_verify:
  assumes ok: "tables_ok be" and p: "be_ses be p = Some s"
    and run: "Processor_verify e fill server_id sv p msg be = Inr be'"
  shows "tables_ok be' \<and> be_lck be' = be_lck be"
  using p run
proof (cases rule: Processor_verify_cases)
  case rejected
  with tables_ok_reject [OF ok] show ?thesis by blast
next
  case (verified token uid be1 n)
  have "tables_ok be1 \<and> be_lck be1 = be_lck be" using tables_ok_verified [OF ok p verified(1,3)] .
  moreover have "tables_ok (issue [UpdateUserStatus server_id uid] be1)" using calculation by simp
  note tables_ok_session_send [OF this verified(5)]
  ultimately show ?thesis by simp
qed (use ok in simp)

lemma Processor_chat_cases:
  assumes "Processor_chat e sv p msg be = Inr be'"
  shows "be' = be \<or> (\<exists>cmds. be' = issue cmds be) \<or> (\<exists>q n. session_send q n be = Inr be')"
proof (cases "ses_verified (the (be_ses be p))")
  case False
  with assms show ?thesis by (simp add: Processor_chat_def)
next
  case True
  obtain t ts where t: "ReadNetField64 e (GetContent msg) 0 = Inr t" "GetSession t (be_mgr be) = Inr ts"
    using assms True unfolding Processor_chat_def Let_def by (auto elim: bindR_eq_InrE)
  show ?thesis
  proof (cases ts)
    case None
    with assms True t show ?thesis
      by (cases "GetUserLocation (sv_hget sv) t") (auto simp: Processor_chat_def Let_def guardR_eq_Inr_iff)
  next
    case (Some q)
    with assms True t show ?thesis
      by (auto simp: Processor_chat_def Let_def elim!: bindR_eq_InrE split: option.splits)
  qed
qed

lemma tables_ok_Processor_chat:
  assumes "tables_ok be" and "Processor_chat e sv p msg be = Inr be'"
  shows "tables_ok be' \<and> be_lck be' = be_lck be"
  using Processor_chat_cases [OF assms(2)] assms(1) tables_ok_session_send [OF assms(1)] by auto

lemma tables_ok_Processor:
  assumes ok: "tables_ok be" and sess: "sess = None \<or> (\<exists>p s. sess = Some p \<and> be_ses be p = Some s)"
    and run: "Processor e fill server_id sv sess msg be = Inr be'"
  shows "tables_ok be' \<and> be_lck be' = be_lck be"
proof (cases sess)
  case None
  with run ok show ?thesis by (simp add: Processor_def)
next
  case (Some p)
  then obtain s where p: "be_ses be p = Some s" using sess by auto
  show ?thesis
  proof (cases msg)
    case None
    with run Some p ok show ?thesis
      by (auto simp: Processor_def online_UpdateNow_def result_simps split: if_splits)
  next
    case (Some m)
    let ?be = "be\<lparr>be_online := snd (on_AddSession (ses_user_id s) (be_online be))\<rparr>"
    have be: "tables_ok ?be" "be_ses ?be p = Some s" "be_lck ?be = be_lck be" using p ok by simp_all
    obtain t where t: "GetTagField e m = Inr t"
      using run \<open>sess = Some p\<close> Some by (auto simp: Processor_def elim!: bindR_eq_InrE)
    consider (v) "Processor_verify e fill server_id sv p m ?be = Inr be'" | (c) "Processor_chat e sv p m ?be = Inr be'" | (x) "be' = ?be"
      using run \<open>sess = Some p\<close> Some p t
      by (cases "t = TAG_VERIFY"; cases "t = TAG_CHAT_MSG") (simp_all add: Processor_def Let_def)
    then show ?thesis
    proof cases
      case v
      show ?thesis using tables_ok_Processor_verify [OF be(1,2) v] be(3) by simp
    next
      case c
      show ?thesis using tables_ok_Processor_chat [OF be(1) c] be(3) by simp
    qed (use be in simp)
  qed
qed

lemma tables_ok_Worker_turn:
  assumes ok: "tables_ok be" and run: "Worker_turn e fill server_id sv be = Inr (Some be')"
  shows "tables_ok be' \<and> \<not> be_lck be'"
proof -
  obtain sess msg q be1 where q: "be_q be = (sess, msg) # q"
      "Processor e fill server_id sv sess msg (be\<lparr>be_lck := True, be_q := q\<rparr>) = Inr be1" "be' = be1\<lparr>be_lck := False\<rparr>"
    using run by (auto simp: Worker_turn_def result_simps split: if_splits list.splits)
  have "tables_ok (be\<lparr>be_q := q\<rparr>)" using ok q(1) by (auto simp: tables_ok_def intro: tbl_ok_ops(4))
  then have "tables_ok (be\<lparr>be_lck := True, be_q := q\<rparr>)" by (simp add: tables_ok_def)
  moreover have "sess = None \<or> (\<exists>p s. sess = Some p \<and> be_ses be p = Some s)"
    using ok q(1) by (auto simp: tables_ok_def tbl_ok_def ids_of_def)
  ultimately show ?thesis using tables_ok_Processor [OF _ _ q(2)] q(3) by simp
qed
section \<open>Every event keeps the tables\<close>

lemma CtrlMsgHandler_cases:
  assumes "CtrlMsgHandler item be = Inr be'"
  shows "be' = be \<or> (\<exists>p. session_close p be = Inr be')"
proof (cases item)
  case None
  with assms show ?thesis by (simp add: CtrlMsgHandler_def)
next
  case (Some msg)
  then obtain type where t: "attr_at msg ''type'' = Inr type"
    using assms unfolding CtrlMsgHandler_def by (auto elim!: bindR_eq_InrE)
  show ?thesis
  proof (cases "type = ''kick''")
    case False
    with assms Some t show ?thesis by (simp add: CtrlMsgHandler_def)
  next
    case True
    have "bindR (attr_at msg ''uid'') (\<lambda>uid_text.
             bindR (stoull uid_text) (\<lambda>uid.
             bindR (GetSession uid (be_mgr be)) (\<lambda>sess.
               case sess of None \<Rightarrow> Inr be | Some p \<Rightarrow> session_close p be))) = Inr be'"
      using assms Some t True by (simp add: CtrlMsgHandler_def)
    then show ?thesis by (elim bindR_eq_InrE) (simp split: option.splits; blast)
  qed
qed

lemma MessageHandler_cases:
  assumes "MessageHandler e fill item be = Inr be'"
  shows "be' = be \<or> (\<exists>p n. session_send p n be = Inr be')"
  using assms unfolding MessageHandler_def
  by (cases item) (simp, simp only: option.case, elim bindR_eq_InrE, simp split: option.splits, blast)

lemma tables_ok_CtrlMsgHandler:
  "tables_ok be \<Longrightarrow> CtrlMsgHandler item be = Inr be' \<Longrightarrow> tables_ok be' \<and> be_lck be' = be_lck be"
  using CtrlMsgHandler_cases tables_ok_session_close by blast

lemma tables_ok_MessageHandler:
  "tables_ok be \<Longrightarrow> MessageHandler e fill item be = Inr be' \<Longrightarrow> tables_ok be' \<and> be_lck be' = be_lck be"
  using MessageHandler_cases tables_ok_session_send by blast

lemma tables_ok_MQ_items:
  "tables_ok be \<Longrightarrow> MQ_items e fill ctrl items be = Inr be' \<Longrightarrow> tables_ok be' \<and> be_lck be' = be_lck be"
proof (induction e fill ctrl items be rule: MQ_items.induct)
  case (2 e fill ctrl item items be)
  obtain be1 where be1: "(if ctrl then CtrlMsgHandler item be else MessageHandler e fill item be) = Inr be1"
      "MQ_items e fill ctrl items be1 = Inr be'"
    using "2.prems"(2) by auto
  have "tables_ok be1 \<and> be_lck be1 = be_lck be"
    using be1(1) tables_ok_CtrlMsgHandler [OF "2.prems"(1)] tables_ok_MessageHandler [OF "2.prems"(1)]
    by (cases ctrl) auto
  with "2.IH" [OF be1(1) _ be1(2)] show ?case by simp
qed simp

lemma tables_ok_MQ_round:
  "tables_ok be \<Longrightarrow> MQ_round e fill server_id stms be = Inr be' \<Longrightarrow> tables_ok be' \<and> be_lck be' = be_lck be"
proof (induction e fill server_id stms be rule: MQ_round.induct)
  case (2 e fill server_id key items stms be)
  let ?r = "if key = ''stream:server:'' @ server_id then MQ_items e fill False items be
           else if key = ''stream:serverctl:'' @ server_id then MQ_items e fill True items be
           else Inr be"
  obtain be1 where be1: "?r = Inr be1" "MQ_round e fill server_id stms be1 = Inr be'"
    using "2.prems"(2) unfolding MQ_round.simps by (rule bindR_eq_InrE)
  have "be1 = be \<or> (\<exists>ctrl. MQ_items e fill ctrl items be = Inr be1)"
    using be1(1) by (metis Inr_inject)
  then have "tables_ok be1 \<and> be_lck be1 = be_lck be"
    using "2.prems"(1) tables_ok_MQ_items by blast
  with "2.IH" [OF be1(1) _ be1(2)] show ?case by simp
qed simp

text \<open>
  The receiver handles the entries of all its reads in their order, each once; reads that time out or
  bring nothing do not matter.
\<close>

fun read_streams :: "mq_read \<Rightarrow> (string \<times> attrs option list) list" where
  "read_streams (Read_Streams stms) = stms"
| "read_streams _ = []"

lemma MQ_round_append:
  "MQ_round e fill server_id (stms @ stms') be = bindR (MQ_round e fill server_id stms be) (MQ_round e fill server_id stms')"
  by (induction e fill server_id stms be rule: MQ_round.induct) (simp_all add: bindR_assoc cong: bindR_cong)

lemma MQ_WorkerFn_handles_all:
  "(\<And>ex. Read_Throws ex \<notin> set reads) \<Longrightarrow>
    MQ_WorkerFn e fill server_id reads be = MQ_round e fill server_id (concat (map read_streams reads)) be"
proof (induction e fill server_id reads be rule: MQ_WorkerFn.induct)
  case (4 e fill server_id stms reads be)
  then have "bindR (MQ_round e fill server_id stms be) (MQ_WorkerFn e fill server_id reads) =
      bindR (MQ_round e fill server_id stms be) (MQ_round e fill server_id (concat (map read_streams reads)))"
    if "stms \<noteq> []" by (intro bindR_cong) (use that in auto)
  with 4 show ?case by (simp add: MQ_round_append)
qed auto

lemma tables_ok_MQ_WorkerFn:
  "tables_ok be \<Longrightarrow> MQ_WorkerFn e fill server_id reads be = Inr be' \<Longrightarrow> tables_ok be' \<and> be_lck be' = be_lck be"
proof (induction e fill server_id reads be rule: MQ_WorkerFn.induct)
  case (4 e fill server_id stms reads be)
  show ?case
  proof (cases "stms = []")
    case False
    then obtain be1 where "MQ_round e fill server_id stms be = Inr be1" "MQ_WorkerFn e fill server_id reads be1 = Inr be'"
      using "4.prems"(2) by auto
    then show ?thesis using 4 False tables_ok_MQ_round [of be e fill server_id stms be1] by auto
  qed (use 4 in simp)
qed auto

lemma tables_ok_accept:
  assumes ok: "tables_ok be" and new: "be_ses be p = None" and run: "accept_session fill p be = Inr be'"
  shows "tables_ok be' \<and> be_lck be' = be_lck be"
proof -
  define be1 where "be1 = be\<lparr>be_ses := (be_ses be)(p \<mapsto> Session_new fill True True),
    be_mgr := (be_mgr be)\<lparr>mgr_temp := insert p (mgr_temp (be_mgr be))\<rparr>\<rparr>"
  have run1: "call_session p (\<lambda>s. Inr (Start s)) be1 = Inr be'"
    using run by (auto simp: accept_session_def be_set_mgr_def AddTempSession_def be1_def result_simps)
  have ids: "ids_of be p = None" using new by (simp add: ids_of_def)
  have ids1: "ids_of be1 = (ids_of be)(p \<mapsto> (False, 0, True, True))"
    by (auto simp: ids_of_def be1_def ident_def Session_new_def)
  have "tbl_ok (be_mgr be1) (be_q be1) ((ids_of be)(p \<mapsto> (False, 0, True, True)))"
    using ok ids unfolding tables_ok_def be1_def tbl_ok_def ids_live_def by (auto split: if_splits) (blast+)?
  then have "tables_ok be1" by (simp add: tables_ok_def ids1)
  moreover have "be_lck be1 = be_lck be" by (simp add: be1_def)
  ultimately show ?thesis
    using tables_ok_call_session [OF _ run1] by (simp add: Start_def)
qed

lemma tables_ok_be_step:
  assumes ok: "tables_ok be \<and> \<not> be_lck be" and run: "be_step e fill server_id ev be = Inr (out, be')"
  shows "tables_ok be' \<and> \<not> be_lck be'"
proof (cases ev)
  case (Be_Accept p)
  then show ?thesis using run ok tables_ok_accept [of be p fill be'] by (auto simp: be_step_def split: if_splits)
next
  case (Be_Read p r)
  then consider "be' = be" | "call_session p (\<lambda>s. read_complete e fill s r) be = Inr be'"
    using run by (auto simp: be_step_def split: if_splits)
  then show ?thesis
    using ok tables_ok_call_session [of be p _ be', OF _ _ ident_read_complete] by cases auto
next
  case (Be_Call p)
  then consider "be' = be" | "call_session p (\<lambda>s. bindR (send_step Snd_Call s) (\<lambda>(out, s). Inr s)) be = Inr be'"
    using run by (auto simp: be_step_def split: if_splits)
  then show ?thesis
    using ok tables_ok_call_session [of be p "\<lambda>s. bindR (send_step Snd_Call s) (\<lambda>(out, s). Inr s)" be'] ident_send_step
    by cases fastforce+
next
  case (Be_Written p i err)
  then consider "be' = be" | "call_session p (\<lambda>s. bindR (send_step (Snd_Done i err) s) (\<lambda>(out, s). Inr s)) be = Inr be'"
    using run by (auto simp: be_step_def split: if_splits)
  then show ?thesis
    using ok tables_ok_call_session [of be p "\<lambda>s. bindR (send_step (Snd_Done i err) s) (\<lambda>(out, s). Inr s)" be'] ident_send_step
    by cases fastforce+
next
  case (Be_Work sv)
  then obtain r where r: "Worker_turn e fill server_id sv be = Inr r" "be' = (case r of None \<Rightarrow> be | Some be' \<Rightarrow> be')"
    using run by (auto simp: be_step_def)
  then show ?thesis using ok tables_ok_Worker_turn [of be e fill server_id sv be'] by (cases r) auto
next
  case (Be_Queue stms)
  then show ?thesis using run ok tables_ok_MQ_round [of be e fill server_id stms be'] by (auto simp: be_step_def)
next
  case Be_Upload_Begin
  then show ?thesis using run ok by (auto simp: be_step_def split: prod.splits option.splits)
next
  case Be_Upload_End
  then show ?thesis using run ok by (auto simp: be_step_def)
qed
interpretation tables: run_invariant "be_step e fill server_id" "\<lambda>be. tables_ok be \<and> \<not> be_lck be"
  for e fill server_id
  by unfold_locales (rule tables_ok_be_step)

section \<open>Outcomes of the operations\<close>

lemma call_session_silent:
  "be_ses be p = Some s \<Longrightarrow> f s = Inr s' \<Longrightarrow> ses_out s' = ses_out s \<Longrightarrow>
    call_session p f be = Inr (be\<lparr>be_ses := (be_ses be)(p \<mapsto> s')\<rparr>)"
  by (simp add: call_session_def)

lemma session_send_idle:
  assumes "be_ses be p = Some s" and "ses_send_q s = []" and "write_bytes n = Inr bs"
  shows "session_send p n be =
    Inr (be\<lparr>be_ses := (be_ses be)(p \<mapsto> s\<lparr>ses_sending := Some n, ses_writes := ses_writes s @ [bs]\<rparr>)\<rparr>)"
  unfolding session_send_def using assms
  by (subst call_session_silent) (simp_all add: Send_whole_def Send_node_def QueueSend_def)

lemma session_close_verified:
  assumes "be_ses be p = Some s" and "ident s = (True, uid, True, True)" and "\<not> ses_down s"
    and "\<not> be_lck be" and "\<not> mgr_lck (be_mgr be)"
  shows "session_close p be =
    Inr (be\<lparr>be_ses := (be_ses be)(p \<mapsto> Close s), be_q := be_q be @ [(Some p, None)],
      be_mgr := (be_mgr be)\<lparr>mgr_sess := (mgr_sess (be_mgr be))(uid := None)\<rparr>\<rparr>)"
  using assms
  by (simp add: session_close_def call_session_def Close_def Let_def emit_def ident_def apply_effect_def
      PostMessage_def be_set_mgr_def RemoveSession_def)

lemma session_close_locked:
  assumes "be_ses be p = Some s" and "ses_handler s" and "\<not> ses_down s" and "be_lck be"
  shows "session_close p be = Inl Self_Deadlock"
  using assms
  by (cases "ses_mgr s"; cases "ses_verified s")
    (simp_all add: session_close_def call_session_def Close_def Let_def emit_def apply_effect_def PostMessage_def)

lemma session_close_mgr_locked:
  assumes "be_ses be p = Some s" and "ident s = (True, uid, True, True)" and "\<not> ses_down s" and "mgr_lck (be_mgr be)"
  shows "session_close p be = Inl Self_Deadlock"
  using assms
  by (cases "be_lck be")
    (simp_all add: session_close_def call_session_def Close_def Let_def emit_def ident_def apply_effect_def
      PostMessage_def be_set_mgr_def RemoveSession_def)

text \<open>The session a message comes from, and the session itself when it is of use.\<close>

lemma tables_ok_session:
  assumes "tables_ok be" and "be_ses be p = Some s"
  shows "ses_handler s" "ses_mgr s" "\<not> mgr_lck (be_mgr be)" "\<not> mgr_temp_lck (be_mgr be)"
proof -
  have "ids_of be p = Some (ident s)" using assms(2) by (simp add: ids_of_def)
  moreover have "ids_live (ids_of be)" "\<not> mgr_lck (be_mgr be)" "\<not> mgr_temp_lck (be_mgr be)"
    using assms(1) by (simp_all add: tables_ok_def tbl_ok_def)
  moreover from calculation(1,2) have "snd (snd (ident s)) = (True, True)" unfolding ids_live_def by blast
  ultimately show "ses_handler s" "ses_mgr s" "\<not> mgr_lck (be_mgr be)" "\<not> mgr_temp_lck (be_mgr be)"
    by (simp_all add: ident_def)
qed

lemma tables_ok_registered:
  assumes "tables_ok be" and "mgr_sess (be_mgr be) uid = Some p"
  obtains s where "be_ses be p = Some s" "ident s = (True, uid, True, True)" "ses_verified s" "ses_user_id s = uid"
proof -
  have "ids_of be p = Some (True, uid, True, True)"
    using assms by (auto simp: tables_ok_def tbl_ok_def)
  then obtain s where s: "be_ses be p = Some s" "ident s = (True, uid, True, True)" by (auto simp: ids_of_def)
  then show ?thesis by (intro that) (auto simp: ident_def)
qed

text \<open>The frame of a chat message, as the sender's server and as the receiver's server build it.\<close>

definition chat_frame :: "u64 \<Rightarrow> byte list \<Rightarrow> byte list" where
  "chat_frame from text = frame TAG_CHAT_MSG_TOCLI (be_bytes 8 from @ text)"

lemma frame_retag:
  fixes w t :: u32 and dst src :: u64
  shows "overwrite (be_bytes 4 t @ drop 4 (frame w (be_bytes 8 dst @ text)) @ junk) 8 (be_bytes 8 src) =
    frame t (be_bytes 8 src @ text) @ junk"
  by (simp add: frame_def overwrite_def)

lemma mq_node_wire:
  assumes "length content + 16 < 2 ^ 32"
  obtains n where "mq_node e fill from content = Inr n" "node_wire n = chat_frame from content" "node_cur_pos n = 0"
    "node_ctx_len n = of_nat (8 + length content)"
proof -
  let ?len = "of_nat (16 + length content) :: u32"
  have len: "unat ?len = 16 + length content" using assms by (simp only: unat_of_nat) simp
  have clen: "unat (of_nat (8 + length content) :: u32) = 8 + length content"
    using assms by (simp only: unat_of_nat) simp
  define d where "d = new_chars fill (16 + length content)"
  have d: "length d = 16 + length content" by (simp add: d_def)
  have pos: "0 < ?len" unfolding word_less_nat_alt len by simp
  have new: "node_data (MsgNode_new fill ?len) = Some d"
    using pos by (simp only: MsgNode_new_def len d_def if_True msg_node.select_convs)
  define d' where "d' = overwrite (overwrite d 8 (be_bytes 8 from)) 16 content"
  have d': "drop 8 d' = be_bytes 8 from @ content" "length d' = 16 + length content"
    using d by (simp_all add: d'_def overwrite_def)
  define n where "n = (MsgNode_new fill ?len)\<lparr>node_data := Some (be_bytes 4 TAG_CHAT_MSG_TOCLI @
      be_bytes 4 (of_nat (8 + length content) :: u32) @ be_bytes 8 from @ content),
      node_ctx_len := of_nat (8 + length content)\<rparr>"
  have "mq_node e fill from content = Inr n"
    unfolding mq_node_def Let_def HEAD_LEN_eq
    using new d d' d'_def
    by (simp add: field_simps_net memcpy_to_Inr SetTagField_Some SetContentLenField_Some n_def
        del: of_nat_add of_nat_Suc)
  moreover have "node_wire n = chat_frame from content" "node_cur_pos n = 0"
    using clen by (simp_all add: node_wire_def n_def chat_frame_def frame_def MsgNode_new_def del: of_nat_add)
  moreover have "node_ctx_len n = of_nat (8 + length content)" by (simp add: n_def)
  ultimately show ?thesis by (rule that)
qed

definition welcome_node :: msg_node where
  "welcome_node = \<lparr>node_data = Some (frame TAG_VERIFY_DONE (bytes_of_text welcome_text)), node_cur_pos = 0,
    node_ctx_len = 24, node_max_len = 8 + 24\<rparr>"

lemma welcome_node:
  "MsgNode_msg e fill (bytes_of_text welcome_text) (of_nat (length welcome_text)) TAG_VERIFY_DONE = Inr welcome_node"
  "write_bytes welcome_node = Inr (frame TAG_VERIFY_DONE (bytes_of_text welcome_text))"
  by (subst MsgNode_msg_frame, simp_all add: welcome_text_def welcome_node_def write_bytes_def memcpy_from_Inr)

text \<open>A turn of the worker on a verification, its table left to \<open>AddSession\<close>.\<close>

lemma Worker_verify:
  assumes "\<not> be_lck be" "be_running be" "be_q be = (Some p, Some msg) # rest"
    and s: "be_ses be p = Some s" "\<not> ses_verified s" "ses_send_q s = []"
    and msg: "GetTagField e msg = Inr TAG_VERIFY" "c_string (GetContent msg) = Inr doc" "sv_json sv doc = Fields token uid"
    and token: "sv_get sv (''token:'' @ token) = Some (to_string (unat uid))"
    and add: "AddSession uid p (be_mgr be) = Inr (ret, m)" and redis: "sv_read sv" "sv_exec sv"
  shows "Worker_turn e fill server_id sv be =
    Inr (Some (be\<lparr>be_q := rest, be_online := snd (on_AddSession (ses_user_id s) (be_online be)), be_mgr := m,
      be_ses := (be_ses be)(p \<mapsto> (SetVerified uid s)\<lparr>ses_sending := Some welcome_node,
        ses_writes := ses_writes s @ [frame TAG_VERIFY_DONE (bytes_of_text welcome_text)]\<rparr>),
      be_cmds := be_cmds be @ [UpdateUserStatus server_id uid]\<rparr>))"
proof -
  have s': "ses_send_q (SetVerified uid s) = []" "ses_writes (SetVerified uid s) = ses_writes s"
    using s by (simp_all add: SetVerified_def)
  show ?thesis
    using assms(1-3) s msg add redis VerifyUser_printed [of "sv_get sv", OF token] s'
    by (simp add: Worker_turn_def Processor_def Processor_verify_def SetVerified_call be_set_mgr_def issue_def
        welcome_node(1) session_send_idle [OF _ _ welcome_node(2)])
qed

section \<open>Chat messages\<close>

text \<open>The attributes of a chat message in the stream of a server.\<close>

definition chat_attrs :: "u64 \<Rightarrow> u64 \<Rightarrow> byte list \<Rightarrow> attrs" where
  "chat_attrs from target text =
    [(''from'', to_string (unat from)), (''to'', to_string (unat target)), (''content'', text_of_bytes text)]"

lemma chat_target:
  fixes target :: u64
  assumes "node_data msg = Some (frame TAG_CHAT_MSG (be_bytes 8 target @ text) @ junk)"
  shows "GetContent msg = be_bytes 8 target @ text @ junk" "ReadNetField64 e (GetContent msg) 0 = Inr target"
  using assms by (simp_all add: GetContent_def frame_def field_simps_net)

lemma chat_len:
  assumes "node_ctx_len msg = of_nat (8 + length text)" and "length text + 16 < 2 ^ 32"
  shows "unat (node_ctx_len msg) = 8 + length text"
  unfolding assms(1) using assms(2) by (simp only: unat_of_nat) simp

lemma Processor_chat_local:
  assumes msg: "node_data msg = Some (frame TAG_CHAT_MSG (be_bytes 8 target @ text) @ junk)"
    and len: "node_ctx_len msg = of_nat (8 + length text)" "length text + 16 < 2 ^ 32"
    and s: "be_ses be p = Some s" "ses_verified s" and free: "\<not> mgr_lck (be_mgr be)"
    and q: "mgr_sess (be_mgr be) target = Some q"
  shows "\<exists>n. Processor_chat e sv p msg be = session_send q n be \<and>
    node_wire n = chat_frame (ses_user_id s) text \<and> node_cur_pos n = 0 \<and> node_ctx_len n = node_ctx_len msg"
proof -
  define n where "n = msg\<lparr>node_cur_pos := 0, node_data := Some (chat_frame (ses_user_id s) text @ junk)\<rparr>"
  have "Processor_chat e sv p msg be = session_send q n be"
    using s chat_target(1) [OF msg] chat_target(2) [OF msg, of e] q free msg
    by (simp add: Processor_chat_def GetSession_def SetTagField_Some [where d = "frame TAG_CHAT_MSG (be_bytes 8 target @ text) @ junk"]
        ResetCurPos_def field_simps_net frame_retag n_def chat_frame_def)
  then show ?thesis
    using chat_len [OF len] by (auto intro!: exI [of _ n] simp: n_def node_wire_def chat_frame_def)
qed

lemma Processor_chat_remote:
  assumes msg: "node_data msg = Some (frame TAG_CHAT_MSG (be_bytes 8 target @ text) @ junk)"
    and len: "node_ctx_len msg = of_nat (8 + length text)" "length text + 16 < 2 ^ 32"
    and s: "be_ses be p = Some s" "ses_verified s" and free: "\<not> mgr_lck (be_mgr be)"
    and q: "mgr_sess (be_mgr be) target = None" and sid: "sv_hget sv (status_key target) ''server_id'' = Some sid"
    and redis: "sv_read sv" "sv_exec sv"
  shows "Processor_chat e sv p msg be =
    Inr (issue [Cmd_Xadd (''stream:server:'' @ sid) (chat_attrs (ses_user_id s) target text) 1000] be)"
proof -
  note clen = chat_len [OF len]
  have "8 \<le> GetContentLen msg" using clen by (simp add: GetContentLen_def word_le_nat_alt)
  then show ?thesis
    using sid q s redis chat_target(1) [OF msg] chat_target(2) [OF msg, of e] free clen
    by (simp add: Processor_chat_def GetSession_def GetUserLocation_def SendToMsgQueue_def GetContentLen_def chat_attrs_def)
qed

lemma MessageHandler_delivers:
  assumes "length text + 16 < 2 ^ 32" and "mgr_sess (be_mgr be) target = Some q" "\<not> mgr_lck (be_mgr be)"
  shows "\<exists>n. MessageHandler e fill (Some (chat_attrs from target text)) be = session_send q n be \<and>
    node_wire n = chat_frame from text \<and> node_cur_pos n = 0 \<and> node_ctx_len n = of_nat (8 + length text)"
proof -
  obtain n where "mq_node e fill from text = Inr n" "node_wire n = chat_frame from text"
      "node_cur_pos n = 0" "node_ctx_len n = of_nat (8 + length text)"
    using mq_node_wire [OF assms(1)] by blast
  then show ?thesis
    using assms(2,3) by (auto intro!: exI [of _ n] simp: MessageHandler_def attr_at_def GetSession_def chat_attrs_def)
qed

section \<open>A frame arrives\<close>

lemma be_step_read:
  assumes "be_ses be p = Some s" and "read_complete e fill s r = Inr s'"
  shows "be_step e fill server_id (Be_Read p r) be =
    bindR (apply_effects p (drop (length (ses_out s)) (ses_out s')) (be\<lparr>be_ses := (be_ses be)(p \<mapsto> s')\<rparr>)) (\<lambda>be. Inr ((), be))"
  using assms by (simp add: be_step_def call_session_def)

lemma be_reads_frame:
  assumes ses: "be_ses be p = Some s" and sim: "recv_sim s (Some [])" and d: "node_data (ses_recv s) = Some d"
    and len: "length content \<le> unat MAX_CTX_LEN" and lck: "\<not> be_lck be"
  obtains m n junk where "run_steps (be_step e fill server_id)
      [Be_Read p (Read_Done (take 8 (frame tag content))), Be_Read p (Read_Done (drop 8 (frame tag content)))] be =
      Inr ([(), ()], be\<lparr>be_ses := (be_ses be)(p \<mapsto> s\<lparr>ses_recv := m, ses_reading := Some Read_Head,
        ses_out := ses_out s @ [Post_Message (Some n)]\<rparr>), be_q := be_q be @ [(Some p, Some n)]\<rparr>)"
    "recv_sim (s\<lparr>ses_recv := m, ses_reading := Some Read_Head, ses_out := ses_out s @ [Post_Message (Some n)]\<rparr>) (Some [])"
    "node_data n = Some (frame tag content @ junk)" "node_ctx_len n = of_nat (length content)"
    "8 + length content \<le> length d \<Longrightarrow> junk = drop (8 + length content) d"
proof -
  obtain n1 junk1 where h: "read_complete e fill s (Read_Done (take 8 (frame tag content))) =
      Inr (s\<lparr>ses_recv := n1, ses_reading := Some Read_Content\<rparr>)"
    "node_data n1 = Some (take 8 (frame tag content) @ junk1)" "node_ctx_len n1 = of_nat (length content)"
    "recv_sim (s\<lparr>ses_recv := n1, ses_reading := Some Read_Content\<rparr>) (Some (take 8 (frame tag content)))"
    "8 + length content \<le> length d \<Longrightarrow> junk1 = drop 8 d"
    using session_reads_header [OF sim d len] by metis
  let ?s1 = "s\<lparr>ses_recv := n1, ses_reading := Some Read_Content\<rparr>"
  obtain n m where c: "read_complete e fill ?s1 (Read_Done content) =
      Inr (?s1\<lparr>ses_recv := m, ses_reading := Some Read_Head, ses_out := ses_out ?s1 @ [Post_Message (Some n)]\<rparr>)"
    "node_data n = Some (frame tag content @ drop (length content) junk1)" "node_ctx_len n = node_ctx_len (ses_recv ?s1)"
    "recv_sim (?s1\<lparr>ses_recv := m, ses_reading := Some Read_Head, ses_out := ses_out ?s1 @ [Post_Message (Some n)]\<rparr>) (Some [])"
    using session_reads_content [OF h(4) _ len, of junk1 e fill] h(2) by auto
  let ?be1 = "be\<lparr>be_ses := (be_ses be)(p \<mapsto> ?s1)\<rparr>"
  have "be_step e fill server_id (Be_Read p (Read_Done (take 8 (frame tag content)))) be = Inr ((), ?be1)"
    using be_step_read [OF ses h(1)] by simp
  moreover have content: "drop 8 (frame tag content) = content" by (simp add: frame_def)
  moreover have "be_step e fill server_id (Be_Read p (Read_Done content)) ?be1 =
      Inr ((), be\<lparr>be_ses := (be_ses be)(p \<mapsto> s\<lparr>ses_recv := m, ses_reading := Some Read_Head,
        ses_out := ses_out s @ [Post_Message (Some n)]\<rparr>), be_q := be_q be @ [(Some p, Some n)]\<rparr>)"
    using be_step_read [of ?be1 p ?s1, OF _ c(1)] lck by (simp add: apply_effect_def PostMessage_def)
  ultimately have run: "run_steps (be_step e fill server_id)
      [Be_Read p (Read_Done (take 8 (frame tag content))), Be_Read p (Read_Done (drop 8 (frame tag content)))] be =
      Inr ([(), ()], be\<lparr>be_ses := (be_ses be)(p \<mapsto> s\<lparr>ses_recv := m, ses_reading := Some Read_Head,
        ses_out := ses_out s @ [Post_Message (Some n)]\<rparr>), be_q := be_q be @ [(Some p, Some n)]\<rparr>)"
    by simp
  have junk: "drop (length content) junk1 = drop (8 + length content) d" if "8 + length content \<le> length d"
    using h(5) [OF that] by (simp add: add.commute)
  have sim': "recv_sim (s\<lparr>ses_recv := m, ses_reading := Some Read_Head, ses_out := ses_out s @ [Post_Message (Some n)]\<rparr>) (Some [])"
    using c(4) by simp
  have "node_ctx_len n = of_nat (length content)" using c(3) h(3) by simp
  then show ?thesis by (rule that [OF run sim' c(2) _ junk])
qed

lemma chat_node_written:
  assumes "node_wire n = chat_frame from text" "node_cur_pos n = 0" "node_ctx_len n = of_nat (8 + length text)"
    and "length text + 16 < 2 ^ 32"
  shows "write_bytes n = Inr (chat_frame from text)"
proof -
  have len: "unat (node_ctx_len n) = 8 + length text" using chat_len [OF assms(3,4)] .
  have wire: "length (node_wire n) = 16 + length text" by (simp add: assms(1) chat_frame_def)
  then obtain d where d: "node_data n = Some d" by (cases "node_data n") (auto simp: node_wire_def)
  with wire have "16 + length text \<le> length d" using d len by (simp add: node_wire_def)
  then have "sendable n" using d len assms(2,4) by (simp add: sendable_def)
  then show ?thesis using write_bytes_sendable assms(1) by simp
qed

text \<open>The frame of a chat message is read and given to the handler.\<close>

lemma be_takes_chat:
  fixes whom :: u64
  assumes be: "tables_ok be" "\<not> be_lck be" "be_running be" "be_q be = []"
    and s: "be_ses be p = Some s" "recv_sim s (Some [])" and len: "length text + 8 \<le> unat MAX_CTX_LEN"
  defines "f \<equiv> frame TAG_CHAT_MSG (be_bytes 8 whom @ text)"
  obtains n b s1 m junk where
    "run_steps (be_step e fill server_id) [Be_Read p (Read_Done (take 8 f)), Be_Read p (Read_Done (drop 8 f)), Be_Work sv] be =
      bindR (Processor_chat e sv p n b) (\<lambda>be'. Inr ([(), (), ()], be'\<lparr>be_lck := False\<rparr>))"
    "node_data n = Some (f @ junk)" "node_ctx_len n = of_nat (8 + length text)"
    "b = be\<lparr>be_ses := (be_ses be)(p \<mapsto> s1), be_lck := True, be_q := [],
      be_online := snd (on_AddSession (ses_user_id s) (be_online be))\<rparr>"
    "s1 = s\<lparr>ses_recv := m, ses_reading := Some Read_Head, ses_out := ses_out s @ [Post_Message (Some n)]\<rparr>"
    "\<not> mgr_lck (be_mgr b)" "length text + 16 < 2 ^ 32"
proof -
  obtain d where d: "node_data (ses_recv s) = Some d" using s(2) by (auto simp: recv_sim_def)
  have clen: "length (be_bytes 8 whom @ text) \<le> unat MAX_CTX_LEN" using len by simp
  obtain m n junk where r: "run_steps (be_step e fill server_id)
      [Be_Read p (Read_Done (take 8 f)), Be_Read p (Read_Done (drop 8 f))] be =
      Inr ([(), ()], be\<lparr>be_ses := (be_ses be)(p \<mapsto> s\<lparr>ses_recv := m, ses_reading := Some Read_Head,
        ses_out := ses_out s @ [Post_Message (Some n)]\<rparr>), be_q := be_q be @ [(Some p, Some n)]\<rparr>)"
    "node_data n = Some (f @ junk)" "node_ctx_len n = of_nat (length (be_bytes 8 whom @ text))"
    using be_reads_frame [OF s d clen be(2)] unfolding f_def by metis
  define s1 where "s1 = s\<lparr>ses_recv := m, ses_reading := Some Read_Head, ses_out := ses_out s @ [Post_Message (Some n)]\<rparr>"
  define b where "b = be\<lparr>be_ses := (be_ses be)(p \<mapsto> s1), be_lck := True, be_q := [],
    be_online := snd (on_AddSession (ses_user_id s) (be_online be))\<rparr>"
  have tag: "GetTagField e n = Inr TAG_CHAT_MSG"
    using GetTagField_Some [OF r(2), of e] frame_fields(1) [of TAG_CHAT_MSG "be_bytes 8 whom @ text" junk] by (simp add: f_def)
  have "be_step e fill server_id (Be_Work sv) (be\<lparr>be_ses := (be_ses be)(p \<mapsto> s1), be_q := [(Some p, Some n)]\<rparr>) =
      bindR (Processor_chat e sv p n b) (\<lambda>be'. Inr ((), be'\<lparr>be_lck := False\<rparr>))"
    using be tag by (simp add: be_step_def Worker_turn_def Processor_def b_def s1_def tag_defs bindR_assoc)
  then have run: "run_steps (be_step e fill server_id) [Be_Read p (Read_Done (take 8 f)), Be_Read p (Read_Done (drop 8 f)), Be_Work sv] be =
      bindR (Processor_chat e sv p n b) (\<lambda>be'. Inr ([(), (), ()], be'\<lparr>be_lck := False\<rparr>))"
    using run_steps_snoc [OF r(1), of "Be_Work sv"] be(4) by (simp add: s1_def bindR_assoc)
  have "node_ctx_len n = of_nat (8 + length text)" using r(3) by simp
  moreover have "\<not> mgr_lck (be_mgr b)" using tables_ok_session(3) [OF be(1) s(1)] by (simp add: b_def)
  moreover have "length text + 16 < 2 ^ 32" using len by (simp add: MAX_CTX_LEN_def)
  ultimately show ?thesis using that [OF run r(2) _ b_def s1_def] by blast
qed

text \<open>From the frame of the sender to the write on the connection of the addressee, on one server.\<close>

lemma backend_relays_chat:
  fixes whom :: u64
  assumes be: "tables_ok be" "\<not> be_lck be" "be_running be" "be_q be = []"
    and s: "be_ses be p = Some s" "ses_verified s" "recv_sim s (Some [])"
    and t: "mgr_sess (be_mgr be) whom = Some q" "be_ses be q = Some t" "ses_send_q t = []"
    and len: "length text + 8 \<le> unat MAX_CTX_LEN"
  defines "f \<equiv> frame TAG_CHAT_MSG (be_bytes 8 whom @ text)"
  shows "\<exists>be' t'. run_steps (be_step e fill server_id)
      [Be_Read p (Read_Done (take 8 f)), Be_Read p (Read_Done (drop 8 f)), Be_Work sv] be = Inr ([(), (), ()], be') \<and>
    be_ses be' q = Some t' \<and> ses_writes t' = ses_writes t @ [chat_frame (ses_user_id s) text]"
proof -
  obtain n b s1 m junk where run: "run_steps (be_step e fill server_id)
      [Be_Read p (Read_Done (take 8 f)), Be_Read p (Read_Done (drop 8 f)), Be_Work sv] be =
      bindR (Processor_chat e sv p n b) (\<lambda>be'. Inr ([(), (), ()], be'\<lparr>be_lck := False\<rparr>))"
    and n: "node_data n = Some (f @ junk)" "node_ctx_len n = of_nat (8 + length text)"
    and b: "b = be\<lparr>be_ses := (be_ses be)(p \<mapsto> s1), be_lck := True, be_q := [],
      be_online := snd (on_AddSession (ses_user_id s) (be_online be))\<rparr>"
    and s1: "s1 = s\<lparr>ses_recv := m, ses_reading := Some Read_Head, ses_out := ses_out s @ [Post_Message (Some n)]\<rparr>"
    and free: "\<not> mgr_lck (be_mgr b)" and small: "length text + 16 < 2 ^ 32"
    using be_takes_chat [OF be s(1,3) len, where whom = whom] unfolding f_def by metis
  have bs: "be_ses b p = Some s1" "ses_verified s1" "mgr_sess (be_mgr b) whom = Some q" using s t by (simp_all add: b s1)
  obtain n' where n': "Processor_chat e sv p n b = session_send q n' b" "node_wire n' = chat_frame (ses_user_id s) text"
      "node_cur_pos n' = 0" "node_ctx_len n' = of_nat (8 + length text)"
    using Processor_chat_local [OF n(1) [unfolded f_def] n(2) small bs(1,2) free bs(3), of e sv] n(2) by (auto simp: s1)
  define t1 where "t1 = (if q = p then s1 else t)"
  have t1: "be_ses b q = Some t1" "ses_send_q t1 = []" "ses_writes t1 = ses_writes t"
    using s(1) t(2,3) by (auto simp: b t1_def s1)
  show ?thesis
    using run n'(1) session_send_idle [OF t1(1,2) chat_node_written [OF n'(2,3,4) small]] t1(3) by simp
qed

text \<open>From the frame of the sender to the entry in the stream of the server the addressee is on, and from there on.\<close>

lemma backend_forwards_chat:
  fixes whom :: u64
  assumes be: "tables_ok be" "\<not> be_lck be" "be_running be" "be_q be = []"
    and s: "be_ses be p = Some s" "ses_verified s" "recv_sim s (Some [])"
    and away: "mgr_sess (be_mgr be) whom = None" "sv_hget sv (status_key whom) ''server_id'' = Some sid" "sv_read sv" "sv_exec sv"
    and len: "length text + 8 \<le> unat MAX_CTX_LEN"
  defines "f \<equiv> frame TAG_CHAT_MSG (be_bytes 8 whom @ text)"
  shows "\<exists>be'. run_steps (be_step e fill server_id)
      [Be_Read p (Read_Done (take 8 f)), Be_Read p (Read_Done (drop 8 f)), Be_Work sv] be = Inr ([(), (), ()], be') \<and>
    be_cmds be' = be_cmds be @ [Cmd_Xadd (''stream:server:'' @ sid) (chat_attrs (ses_user_id s) whom text) 1000]"
proof -
  obtain n b s1 m junk where run: "run_steps (be_step e fill server_id)
      [Be_Read p (Read_Done (take 8 f)), Be_Read p (Read_Done (drop 8 f)), Be_Work sv] be =
      bindR (Processor_chat e sv p n b) (\<lambda>be'. Inr ([(), (), ()], be'\<lparr>be_lck := False\<rparr>))"
    and n: "node_data n = Some (f @ junk)" "node_ctx_len n = of_nat (8 + length text)"
    and b: "b = be\<lparr>be_ses := (be_ses be)(p \<mapsto> s1), be_lck := True, be_q := [],
      be_online := snd (on_AddSession (ses_user_id s) (be_online be))\<rparr>"
    and s1: "s1 = s\<lparr>ses_recv := m, ses_reading := Some Read_Head, ses_out := ses_out s @ [Post_Message (Some n)]\<rparr>"
    and free: "\<not> mgr_lck (be_mgr b)" and small: "length text + 16 < 2 ^ 32"
    using be_takes_chat [OF be s(1,3) len, where whom = whom] unfolding f_def by metis
  have "be_ses b p = Some s1" "ses_verified s1" "mgr_sess (be_mgr b) whom = None" using s away(1) by (simp_all add: b s1)
  then show ?thesis
    using run Processor_chat_remote [OF n(1) [unfolded f_def] n(2) small _ _ free _ away(2-4), of p s1 e]
    by (simp add: s1 b issue_def)
qed

lemma backend_delivers_entry:
  assumes be: "tables_ok be" and t: "mgr_sess (be_mgr be) whom = Some q" "be_ses be q = Some t" "ses_send_q t = []"
    and len: "length text + 16 < 2 ^ 32"
  shows "\<exists>be' t'. be_step e fill sid (Be_Queue [(''stream:server:'' @ sid, [Some (chat_attrs sender whom text)])]) be = Inr ((), be') \<and>
    be_ses be' q = Some t' \<and> ses_writes t' = ses_writes t @ [chat_frame sender text]"
proof -
  obtain n where n: "MessageHandler e fill (Some (chat_attrs sender whom text)) be = session_send q n be"
      "node_wire n = chat_frame sender text" "node_cur_pos n = 0" "node_ctx_len n = of_nat (8 + length text)"
    using MessageHandler_delivers [OF len t(1) tables_ok_session(3) [OF be t(2)]] by blast
  note sent = session_send_idle [OF t(2,3) chat_node_written [OF n(2-4) len]]
  show ?thesis using n(1) sent by (simp add: be_step_def)
qed

lemma c_string_terminated:
  assumes "0 \<notin> set bs" and "0 \<in> set junk"
  shows "c_string (bs @ junk) = Inr (bs @ takeWhile (\<lambda>b. b \<noteq> 0) junk)"
proof -
  have "takeWhile (\<lambda>b. b \<noteq> 0) (bs @ junk) = bs @ takeWhile (\<lambda>b. b \<noteq> 0) junk"
    using assms(1) by (intro takeWhile_append2) metis
  with assms(2) show ?thesis by (simp add: c_string_def)
qed

text \<open>A verification that the session of a new connection reads and the worker answers.\<close>

lemma backend_lets_in:
  assumes be: "tables_ok be" "\<not> be_lck be" "be_running be" "be_q be = []"
    and s: "be_ses be p = Some s" "\<not> ses_verified s" "ses_send_q s = []" "recv_sim s (Some [])"
    and d: "node_data (ses_recv s) = Some d" "8 + length msg \<le> length d" "0 \<in> set (drop (8 + length msg) d)"
    and msg: "0 \<notin> set msg" "length msg \<le> unat MAX_CTX_LEN" "\<And>rest. sv_json sv (msg @ rest) = Fields token uid"
    and token: "sv_get sv (''token:'' @ token) = Some (to_string (unat uid))"
    and new: "mgr_sess (be_mgr be) uid = None" and up: "sv_read sv" "sv_exec sv"
  defines "f \<equiv> frame TAG_VERIFY msg"
  shows "\<exists>be' s'. run_steps (be_step e fill server_id)
      [Be_Read p (Read_Done (take 8 f)), Be_Read p (Read_Done (drop 8 f)), Be_Work sv] be = Inr ([(), (), ()], be') \<and>
    be_ses be' p = Some s' \<and> ses_verified s' \<and> ses_user_id s' = uid \<and> mgr_sess (be_mgr be') uid = Some p \<and>
    ses_writes s' = ses_writes s @ [frame TAG_VERIFY_DONE (bytes_of_text welcome_text)] \<and>
    ses_send_q s' = [] \<and> recv_sim s' (Some []) \<and> tables_ok be' \<and> \<not> be_lck be' \<and> be_running be' \<and> be_q be' = []"
proof -
  obtain m n junk where r: "run_steps (be_step e fill server_id)
      [Be_Read p (Read_Done (take 8 f)), Be_Read p (Read_Done (drop 8 f))] be =
      Inr ([(), ()], be\<lparr>be_ses := (be_ses be)(p \<mapsto> s\<lparr>ses_recv := m, ses_reading := Some Read_Head,
        ses_out := ses_out s @ [Post_Message (Some n)]\<rparr>), be_q := be_q be @ [(Some p, Some n)]\<rparr>)"
    "recv_sim (s\<lparr>ses_recv := m, ses_reading := Some Read_Head, ses_out := ses_out s @ [Post_Message (Some n)]\<rparr>) (Some [])"
    "node_data n = Some (f @ junk)" "8 + length msg \<le> length d \<Longrightarrow> junk = drop (8 + length msg) d"
    using be_reads_frame [OF s(1,4) d(1) msg(2) be(2)] unfolding f_def by metis
  define s1 where "s1 = s\<lparr>ses_recv := m, ses_reading := Some Read_Head, ses_out := ses_out s @ [Post_Message (Some n)]\<rparr>"
  define b where "b = be\<lparr>be_ses := (be_ses be)(p \<mapsto> s1), be_q := [(Some p, Some n)]\<rparr>"
  have junk: "0 \<in> set junk" using r(4) d by simp
  have n: "GetTagField e n = Inr TAG_VERIFY"
    using GetTagField_Some [OF r(3), of e] frame_fields(1) [of TAG_VERIFY msg junk] by (simp add: f_def)
  have doc: "c_string (GetContent n) = Inr (msg @ takeWhile (\<lambda>b. b \<noteq> 0) junk)"
    using r(3) c_string_terminated [OF msg(1) junk] by (simp add: GetContent_def f_def frame_def)
  have b: "\<not> be_lck b" "be_running b" "be_q b = (Some p, Some n) # []" "be_ses b p = Some s1" "\<not> ses_verified s1" "ses_send_q s1 = []"
    using be s by (simp_all add: b_def s1_def)
  have add: "AddSession uid p (be_mgr b) = Inr (True, (be_mgr be)\<lparr>mgr_temp := mgr_temp (be_mgr be) - {p},
      mgr_sess := (mgr_sess (be_mgr be))(uid \<mapsto> p)\<rparr>)"
    using tables_ok_session [OF be(1) s(1)] new by (simp add: AddSession_def b_def)
  have "run_steps (be_step e fill server_id) [Be_Read p (Read_Done (take 8 f)), Be_Read p (Read_Done (drop 8 f)), Be_Work sv] be =
      bindR (be_step e fill server_id (Be_Work sv) b) (\<lambda>(out, be'). Inr ([(), (), out], be'))"
    using run_steps_snoc [OF r(1), of "Be_Work sv"] be(4) by (simp add: b_def s1_def)
  moreover note Worker_verify [OF b n doc msg(3) token add up, of fill server_id]
  ultimately obtain be' s' where run: "run_steps (be_step e fill server_id)
      [Be_Read p (Read_Done (take 8 f)), Be_Read p (Read_Done (drop 8 f)), Be_Work sv] be = Inr ([(), (), ()], be')"
    "be_ses be' p = Some s'" "ses_verified s'" "ses_user_id s' = uid" "mgr_sess (be_mgr be') uid = Some p"
    "ses_writes s' = ses_writes s @ [frame TAG_VERIFY_DONE (bytes_of_text welcome_text)]"
    "ses_send_q s' = []" "recv_sim s' (Some [])" "be_running be'" "be_q be' = []"
    using s(2,3) be(3) r(2) by (simp add: be_step_def SetVerified_def s1_def b_def recv_sim_def)
  moreover have "tables_ok be' \<and> \<not> be_lck be'"
    using tables.run_keeps [of be e fill server_id, OF _ run(1)] be(1,2) by simp
  ultimately show ?thesis by blast
qed

section \<open>Kicking a user\<close>

text \<open>The commands of the upload after the session of \<open>uid\<close> was closed.\<close>

definition kick_cmds :: "u64 \<Rightarrow> online_uploader \<Rightarrow> backend_cmd list" where
  "kick_cmds uid u =
    map (\<lambda>v. Cmd_Hexpire (status_key v) 30 [''server_id'', ''status'']) (removeAll uid (on_sess u)) @
    map (\<lambda>v. Cmd_Del (status_key v)) (List.insert uid (on_removal u))"

lemma kick_run:
  assumes ok: "tables_ok be" "\<not> be_lck be" "be_running be" and q: "be_q be = []"
    and reg: "mgr_sess (be_mgr be) uid = Some p" and up: "be_ses be p = Some s" "\<not> ses_down s"
    and sv: "sv_exec sv" and idle: "\<not> on_in_progress (be_online be)"
  obtains be1 be2 where "MQ_round e fill server_id
      [(''stream:serverctl:'' @ server_id, [Some [(''type'', ''kick''), (''uid'', to_string (unat uid))]])] be = Inr be1"
    "mgr_sess (be_mgr be1) uid = None" "map_option ses_down (be_ses be1 p) = Some True"
    "Worker_turn e fill server_id sv be1 = Inr (Some be2)" "be_mgr be2 = be_mgr be1"
    "be_cmds be2 = be_cmds be @ kick_cmds uid (be_online be)"
proof -
  have s: "ident s = (True, uid, True, True)" using tables_ok_registered [OF ok(1) reg] up(1) by auto
  note free = tables_ok_session [OF ok(1) up(1)]
  let ?be1 = "be\<lparr>be_ses := (be_ses be)(p \<mapsto> Close s), be_q := [(Some p, None)],
    be_mgr := (be_mgr be)\<lparr>mgr_sess := (mgr_sess (be_mgr be))(uid := None)\<rparr>\<rparr>"
  have "MQ_round e fill server_id
      [(''stream:serverctl:'' @ server_id, [Some [(''type'', ''kick''), (''uid'', to_string (unat uid))]])] be = Inr ?be1"
    using session_close_verified [OF up(1) s up(2) ok(2) free(3)] reg free q
    by (simp add: CtrlMsgHandler_def attr_at_def GetSession_def)
  moreover have closed: "ses_down (Close s)" "ses_verified (Close s)" "ses_user_id (Close s) = uid"
    using s ident_Close [of s] Close_out(1) [of s] by (simp_all add: ident_def)
  moreover have "\<exists>be2. Worker_turn e fill server_id sv ?be1 = Inr (Some be2) \<and> be_mgr be2 = be_mgr ?be1 \<and>
      be_cmds be2 = be_cmds be @ kick_cmds uid (be_online be)"
    using ok sv idle closed
    by (simp add: Worker_turn_def Processor_def online_UpdateNow_def on_UpdateNow_def UploadImpl_def
        UploadImpl_begin_def on_RemoveSession_def issue_def kick_cmds_def)
  ultimately show ?thesis using that [of ?be1] by auto
qed

section \<open>A server with three connections\<close>

text \<open>Users 7 and 9 are logged in, the third connection is not verified; Redis has a token for users 7 and 8.\<close>

definition ex_session :: "bool \<Rightarrow> u64 \<Rightarrow> session" where
  "ex_session verified uid = (Session_new (\<lambda>_. 0) True True)\<lparr>ses_verified := verified, ses_user_id := uid\<rparr>"

definition ex_server :: "(nat option \<times> msg_node option) list \<Rightarrow> backend" where
  "ex_server q = Backend_new\<lparr>
    be_ses := [1 \<mapsto> ex_session True 7, 2 \<mapsto> ex_session True 9, 3 \<mapsto> ex_session False 0],
    be_mgr := SessionManager_new\<lparr>mgr_sess := [7 \<mapsto> 1, 9 \<mapsto> 2], mgr_temp := {3}\<rparr>, be_q := q\<rparr>"

definition ex_services :: services where
  "ex_services = \<lparr>sv_json = (\<lambda>doc. if doc = [55] then Fields ''A'' 7 else if doc = [56] then Fields ''B'' 8 else Not_Json),
    sv_get = [''token:A'' \<mapsto> to_string (unat (7 :: u64)), ''token:B'' \<mapsto> to_string (unat (8 :: u64))],
    sv_hget = (\<lambda>k f. if k = status_key 11 then Some ''s2'' else None), sv_read = True, sv_exec = True\<rparr>"

definition ex_msg :: "u32 \<Rightarrow> byte list \<Rightarrow> msg_node" where
  "ex_msg tag content =
    \<lparr>node_data = Some (frame tag content @ [0]), node_cur_pos = 0, node_ctx_len = of_nat (length content), node_max_len = 9\<rparr>"

lemma ex_server_simps [simp]:
  "be_ses (ex_server q) = [1 \<mapsto> ex_session True 7, 2 \<mapsto> ex_session True 9, 3 \<mapsto> ex_session False 0]"
  "mgr_sess (be_mgr (ex_server q)) = [7 \<mapsto> 1, 9 \<mapsto> 2]" "mgr_temp (be_mgr (ex_server q)) = {3}"
  "\<not> mgr_lck (be_mgr (ex_server q))" "\<not> mgr_temp_lck (be_mgr (ex_server q))" "\<not> be_lck (ex_server q)"
  "be_running (ex_server q)" "be_q (ex_server q) = q" "be_cmds (ex_server q) = []"
  "\<not> on_in_progress (be_online (ex_server q))"
  by (simp_all add: ex_server_def Backend_new_def SessionManager_new_def OnlineStatusUploader_new_def)

lemma ex_session_simps [simp]:
  "ses_verified (ex_session v uid) = v" "ses_user_id (ex_session v uid) = uid" "ses_send_q (ex_session v uid) = []"
  "\<not> ses_down (ex_session v uid)" "ident (ex_session v uid) = (v, uid, True, True)" "ses_writes (ex_session v uid) = []"
  by (simp_all add: ex_session_def Session_new_def ident_def)

lemma ex_server_ok:
  assumes "fst ` set q \<subseteq> {Some 3}"
  shows "tables_ok (ex_server q)"
proof -
  have "3 \<in> dom (ids_of (ex_server q))" by (simp add: ids_of_def dom_def)
  then have "fst ` set q \<subseteq> insert None (Some ` dom (ids_of (ex_server q)))" using assms by blast
  then show ?thesis unfolding tables_ok_def tbl_ok_def ids_live_def by (auto simp: ids_of_def split: if_splits)
qed

lemma c_string_append: "0 \<notin> set bs \<Longrightarrow> c_string (bs @ [0]) = Inr bs"
proof -
  assume "0 \<notin> set bs"
  then have "\<And>b. b \<in> set bs \<Longrightarrow> b \<noteq> 0" by metis
  then show ?thesis using takeWhile_append2 [of bs "\<lambda>b. b \<noteq> 0" "[0]"] by (simp add: c_string_def)
qed

lemma ex_msg_fields [simp]:
  "GetTagField e (ex_msg tag content) = Inr tag" "GetContent (ex_msg tag content) = content @ [0]"
  using frame_fields(1) [of tag content "[0]"]
  by (simp_all add: GetTagField_Some ex_msg_def GetContent_def frame_def)

text \<open>A backend with one new connection, and services that know the token of user 7.\<close>

definition ex_new :: session where
  "ex_new = Start (Session_new (\<lambda>_. 0) True True)"

definition ex_accepting :: backend where
  "ex_accepting = Backend_new\<lparr>be_ses := [3 \<mapsto> ex_new], be_mgr := SessionManager_new\<lparr>mgr_temp := {3}\<rparr>\<rparr>"

definition ex_token_services :: services where
  "ex_token_services = ex_services\<lparr>sv_json := (\<lambda>_. Fields ''ab-_'' 7), sv_get := [''token:ab-_'' \<mapsto> to_string (unat (7 :: u64))]\<rparr>"

lemma ex_accepting_ok: "tables_ok ex_accepting"
  by (auto simp: tables_ok_def tbl_ok_def ids_live_def ids_of_def ex_accepting_def ex_new_def Start_def ReceiveHead_def
      Session_new_def SessionManager_new_def Backend_new_def ident_def split: if_splits)

section \<open>Properties\<close>

text \<open>
  C21: whatever the clients, the other servers and the timers do, the tables agree with the sessions: a
  session registered under a user id is verified as that user, so it is registered once; a session
  in the table of temporary ones is not verified; and between two events no mutex is held.
\<close>

theorem backend_tables_consistent:
  assumes "run_steps (be_step e fill server_id) evs Backend_new = Inr (outs, be)"
  shows "(\<forall>uid p. mgr_sess (be_mgr be) uid = Some p \<longrightarrow>
      (\<exists>s. be_ses be p = Some s \<and> ses_verified s \<and> ses_user_id s = uid)) \<and>
    (\<forall>p\<in>mgr_temp (be_mgr be). \<exists>s. be_ses be p = Some s \<and> \<not> ses_verified s) \<and>
    inj_on (mgr_sess (be_mgr be)) (dom (mgr_sess (be_mgr be))) \<and>
    \<not> mgr_lck (be_mgr be) \<and> \<not> mgr_temp_lck (be_mgr be) \<and> \<not> be_lck be"
proof -
  have new: "tables_ok Backend_new \<and> \<not> be_lck Backend_new"
    by (simp add: tables_ok_def tbl_ok_def Backend_new_def SessionManager_new_def ids_of_def ids_live_def)
  have ok: "tables_ok be" and lck: "\<not> be_lck be"
    using tables.run_keeps [of Backend_new e fill server_id evs outs be, OF new assms] by simp_all
  have reg: "\<exists>s. be_ses be p = Some s \<and> ses_verified s \<and> ses_user_id s = uid"
    if "mgr_sess (be_mgr be) uid = Some p" for uid p
    using tables_ok_registered [OF ok that] by metis
  have temp: "\<exists>s. be_ses be p = Some s \<and> \<not> ses_verified s" if p: "p \<in> mgr_temp (be_mgr be)" for p
  proof -
    obtain uid where "ids_of be p = Some (False, uid, True, True)" using ok p unfolding tables_ok_def tbl_ok_def by blast
    then show ?thesis by (auto simp: ids_of_def ident_def)
  qed
  have "inj_on (mgr_sess (be_mgr be)) (dom (mgr_sess (be_mgr be)))"
    by (rule inj_onI) (use reg in \<open>metis domD option.inject\<close>)
  then show ?thesis using reg temp ok lck by (simp add: tables_ok_def tbl_ok_def)
qed

theorem backend_tables_consistent_witness:
  "\<exists>outs be. run_steps (be_step Little_Endian (\<lambda>_. 0) ''s1'')
      [Be_Accept 1, Be_Accept 2, Be_Read 1 Read_Error, Be_Work ex_services] Backend_new = Inr (outs, be) \<and>
    mgr_temp (be_mgr be) = {2} \<and>
    (\<forall>p\<in>mgr_temp (be_mgr be). \<exists>s. be_ses be p = Some s \<and> \<not> ses_verified s) \<and> \<not> be_lck be"
proof -
  obtain outs be where run: "run_steps (be_step Little_Endian (\<lambda>_. 0) ''s1'')
      [Be_Accept 1, Be_Accept 2, Be_Read 1 Read_Error, Be_Work ex_services] Backend_new = Inr (outs, be)" "mgr_temp (be_mgr be) = {2}"
    by (simp add: be_step_def Backend_new_def accept_session_def be_set_mgr_def AddTempSession_def SessionManager_new_def
        call_session_def Start_def ReceiveHead_def read_complete_def ReceiveHead_cb_def Session_new_def Close_def emit_def
        apply_effect_def PostMessage_def RemoveTempSession_def Worker_turn_def Processor_def insert_Diff_if)
  then show ?thesis using backend_tables_consistent [OF run(1)] by blast
qed

text \<open>
  C20: a chat message reaches its addressee as the same frame whether the addressee is on the sender's
  server or on another one. On the same server the received node is turned into the frame in place;
  otherwise the text goes through the stream of the server the addressee is on, and that server
  builds the frame. Without a location the message is dropped.
\<close>

theorem chat_delivered_alike:
  assumes msg: "node_data msg = Some (frame TAG_CHAT_MSG (be_bytes 8 target @ text) @ junk)"
    and len: "node_ctx_len msg = of_nat (8 + length text)" "length text + 16 < 2 ^ 32"
    and s: "be_ses be p = Some s" "ses_verified s" and free: "\<not> mgr_lck (be_mgr be)"
    and redis: "sv_read sv" "sv_exec sv"
  shows "case mgr_sess (be_mgr be) target of
      Some q \<Rightarrow> \<exists>n. Processor_chat e sv p msg be = session_send q n be \<and>
        node_wire n = chat_frame (ses_user_id s) text \<and> node_cur_pos n = 0 \<and> node_ctx_len n = node_ctx_len msg
    | None \<Rightarrow>
       (case sv_hget sv (status_key target) ''server_id'' of
          None \<Rightarrow> Processor_chat e sv p msg be = Inr be
        | Some sid \<Rightarrow>
            \<exists>attrs. Processor_chat e sv p msg be = Inr (issue [Cmd_Xadd (''stream:server:'' @ sid) attrs 1000] be) \<and>
              (\<forall>e' fill' be' q. mgr_sess (be_mgr be') target = Some q \<and> \<not> mgr_lck (be_mgr be') \<longrightarrow>
                (\<exists>n. MessageHandler e' fill' (Some attrs) be' = session_send q n be' \<and>
                  node_wire n = chat_frame (ses_user_id s) text \<and> node_cur_pos n = 0 \<and> node_ctx_len n = node_ctx_len msg)))"
proof (cases "mgr_sess (be_mgr be) target")
  case (Some q)
  then show ?thesis using Processor_chat_local [OF msg len s free Some, of e sv] by auto
next
  case None
  show ?thesis
  proof (cases "sv_hget sv (status_key target) ''server_id''")
    case offline: None
    then show ?thesis
      using None s free redis(1) chat_target(1) [OF msg] chat_target(2) [OF msg, of e]
      by (simp add: Processor_chat_def GetSession_def GetUserLocation_def)
  next
    case (Some sid)
    note remote = Processor_chat_remote [OF msg len s free None Some redis, of e]
    show ?thesis
      using None Some remote MessageHandler_delivers [OF len(2)] unfolding len(1)
      by (auto intro!: exI [of _ "chat_attrs (ses_user_id s) target text"])
  qed
qed

theorem chat_delivered_alike_witness:
  "let msg = ex_msg TAG_CHAT_MSG (be_bytes 8 (9 :: u64) @ [104, 105]) in
    \<exists>n. Processor_chat Little_Endian ex_services 1 msg (ex_server []) = session_send 2 n (ex_server []) \<and>
      node_wire n = chat_frame 7 [104, 105] \<and> node_cur_pos n = 0 \<and> node_ctx_len n = node_ctx_len msg"
  using chat_delivered_alike [of "ex_msg TAG_CHAT_MSG (be_bytes 8 (9 :: u64) @ [104, 105])" 9 "[104, 105]" "[0]" "ex_server []" 1
      "ex_session True 7" ex_services Little_Endian]
  by (simp add: ex_msg_def ex_services_def)

text \<open>
  A client that presents the token Redis has for its user id is let in by one turn of the worker,
  as long as Redis answers: its session is verified and moves from the temporary table to the table of users, its location
  is recorded in Redis and the welcome frame is written. No other session changes.
\<close>

lemma verify_lets_in:
  assumes ok: "tables_ok be" "\<not> be_lck be" "be_running be" and q: "be_q be = (Some p, Some msg) # rest"
    and s: "be_ses be p = Some s" "\<not> ses_verified s" "ses_send_q s = []"
    and tag: "GetTagField e msg = Inr TAG_VERIFY" and doc: "c_string (GetContent msg) = Inr doc"
    and json: "sv_json sv doc = Fields token uid"
    and token: "sv_get sv (''token:'' @ token) = Some (to_string (unat uid))"
    and new: "mgr_sess (be_mgr be) uid = None" and redis: "sv_read sv" "sv_exec sv"
  shows "\<exists>s' be'. Worker_turn e fill server_id sv be = Inr (Some be') \<and> be_ses be' = (be_ses be)(p \<mapsto> s') \<and>
    ses_verified s' \<and> ses_user_id s' = uid \<and>
    ses_writes s' = ses_writes s @ [frame TAG_VERIFY_DONE (bytes_of_text ''Welcome to the chatroom!'')] \<and>
    mgr_sess (be_mgr be') = (mgr_sess (be_mgr be))(uid \<mapsto> p) \<and> mgr_temp (be_mgr be') = mgr_temp (be_mgr be) - {p} \<and>
    be_cmds be' = be_cmds be @ [Cmd_Hsetex (''status:'' @ to_string (unat uid)) [(''server_id'', server_id), (''status'', ''online'')] 30] \<and>
    be_q be' = rest"
proof -
  note free = tables_ok_session [OF ok(1) s(1)]
  have add: "AddSession uid p (be_mgr be) = Inr (True, (be_mgr be)\<lparr>mgr_temp := mgr_temp (be_mgr be) - {p},
      mgr_sess := (mgr_sess (be_mgr be))(uid \<mapsto> p)\<rparr>)"
    using free new by (simp add: AddSession_def)
  let ?s = "(SetVerified uid s)\<lparr>ses_sending := Some welcome_node,
    ses_writes := ses_writes s @ [frame TAG_VERIFY_DONE (bytes_of_text welcome_text)]\<rparr>"
  show ?thesis
    unfolding Worker_verify [OF ok(2,3) q s tag doc json token add redis] using s(2)
    by (intro exI [of _ ?s]) (simp add: SetVerified_def UpdateUserStatus_def status_key_def welcome_text_def)
qed

text \<open>
  C22: the worker holds the lock of the message queue while it processes a message, and closing a
  session posts a message. So a verification that is turned down, because the text is no document,
  lacks the fields, or has a token that is not the user's, makes the worker wait for its own lock.
\<close>

theorem rejected_verify_deadlocks:
  assumes "tables_ok be" "\<not> be_lck be" "be_running be" "be_q be = (Some p, Some msg) # rest"
    and s: "be_ses be p = Some s" "\<not> ses_verified s" "\<not> ses_down s"
    and msg: "GetTagField e msg = Inr TAG_VERIFY" "c_string (GetContent msg) = Inr doc"
    and bad: "sv_json sv doc = Not_Json \<or> sv_json sv doc = Bad_Fields \<or>
      (\<exists>token uid. sv_json sv doc = Fields token uid \<and> sv_read sv \<and> (sv_get sv (''token:'' @ token) = None \<or>
        (\<exists>other. other \<noteq> uid \<and> sv_get sv (''token:'' @ token) = Some (to_string (unat other)))))"
  shows "Worker_turn e fill server_id sv be = Inl Self_Deadlock"
proof -
  define be1 where "be1 = be\<lparr>be_lck := True, be_q := rest, be_online := snd (on_AddSession (ses_user_id s) (be_online be))\<rparr>"
  have "session_close p be1 = Inl Self_Deadlock"
    using s tables_ok_session(1) [OF assms(1) s(1)] by (intro session_close_locked) (simp_all add: be1_def)
  then have rej: "reject p be1 = Inl Self_Deadlock" by (simp add: reject_def)
  have "Processor_verify e fill server_id sv p msg be1 = reject p be1"
    using bad s msg(2)
    by (elim disjE exE conjE) (simp_all add: Processor_verify_def be1_def VerifyUser_def)
  then have "Processor e fill server_id sv (Some p) (Some msg) (be\<lparr>be_lck := True, be_q := rest\<rparr>) = Inl Self_Deadlock"
    using rej s(1) msg(1) by (simp add: Processor_def be1_def)
  then show ?thesis using assms(2-4) by (simp add: Worker_turn_def)
qed

theorem rejected_verify_deadlocks_witness:
  "Worker_turn Little_Endian (\<lambda>_. 0) ''s1'' ex_services (ex_server [(Some 3, Some (ex_msg TAG_VERIFY [57]))]) = Inl Self_Deadlock"
  by (rule rejected_verify_deadlocks [where doc = "[57]" and rest = "[]" and p = 3 and s = "ex_session False 0" and
      msg = "ex_msg TAG_VERIFY [57]"]) (simp_all add: ex_server_ok ex_services_def c_string_append [of "[_]", simplified])

text \<open>
  C23: a second login of a user who is still connected. The table keeps the first session, but the
  second one is verified under the same id, and closing it removes the entry: the first session is
  up and verified, and chat messages no longer find it.
\<close>

theorem second_login_unregisters_first:
  assumes ok: "tables_ok be" "\<not> be_lck be" "be_running be" and q: "be_q be = (Some p, Some msg) # rest"
    and s: "be_ses be p = Some s" "\<not> ses_verified s" "ses_send_q s = []" "\<not> ses_down s"
    and tag: "GetTagField e msg = Inr TAG_VERIFY" and doc: "c_string (GetContent msg) = Inr doc"
    and json: "sv_json sv doc = Fields token uid"
    and token: "sv_get sv (''token:'' @ token) = Some (to_string (unat uid))"
    and old: "mgr_sess (be_mgr be) uid = Some p0" and redis: "sv_read sv" "sv_exec sv"
  shows "\<exists>be1 be2 s0. Worker_turn e fill server_id sv be = Inr (Some be1) \<and> mgr_sess (be_mgr be1) uid = Some p0 \<and>
    session_close p be1 = Inr be2 \<and> GetSession uid (be_mgr be2) = Inr None \<and>
    be_ses be p0 = Some s0 \<and> be_ses be2 p0 = Some s0 \<and> ses_verified s0 \<and> ses_user_id s0 = uid"
proof -
  note free = tables_ok_session [OF ok(1) s(1)]
  obtain s0 where s0: "be_ses be p0 = Some s0" "ses_verified s0" "ses_user_id s0 = uid"
    using tables_ok_registered [OF ok(1) old] by metis
  have "p0 \<noteq> p" using s0 s(1,2) by auto
  let ?m = "(be_mgr be)\<lparr>mgr_temp := mgr_temp (be_mgr be) - {p}\<rparr>"
  have add: "AddSession uid p (be_mgr be) = Inr (False, ?m)" using free old by (simp add: AddSession_def)
  let ?s = "(SetVerified uid s)\<lparr>ses_sending := Some welcome_node,
    ses_writes := ses_writes s @ [frame TAG_VERIFY_DONE (bytes_of_text welcome_text)]\<rparr>"
  let ?be1 = "be\<lparr>be_q := rest, be_online := snd (on_AddSession (ses_user_id s) (be_online be)), be_mgr := ?m,
    be_ses := (be_ses be)(p \<mapsto> ?s), be_cmds := be_cmds be @ [UpdateUserStatus server_id uid]\<rparr>"
  have "ident ?s = (True, uid, True, True)" "\<not> ses_down ?s" using s free by (simp_all add: SetVerified_def ident_def)
  then have "session_close p ?be1 = Inr (?be1\<lparr>be_ses := (be_ses ?be1)(p \<mapsto> Close ?s), be_q := rest @ [(Some p, None)],
      be_mgr := ?m\<lparr>mgr_sess := (mgr_sess ?m)(uid := None)\<rparr>\<rparr>)"
    using ok free by (subst session_close_verified [of _ p ?s uid]) simp_all
  then show ?thesis
    unfolding Worker_verify [OF ok(2,3) q s(1-3) tag doc json token add redis] using s0 \<open>p0 \<noteq> p\<close> old free
    by (simp add: GetSession_def)
qed

theorem second_login_unregisters_first_witness:
  "\<exists>be1 be2 s0. Worker_turn Little_Endian (\<lambda>_. 0) ''s1'' ex_services (ex_server [(Some 3, Some (ex_msg TAG_VERIFY [55]))]) = Inr (Some be1) \<and>
    mgr_sess (be_mgr be1) 7 = Some 1 \<and> session_close 3 be1 = Inr be2 \<and> GetSession 7 (be_mgr be2) = Inr None \<and>
    be_ses (ex_server [(Some 3, Some (ex_msg TAG_VERIFY [55]))]) 1 = Some s0 \<and> be_ses be2 1 = Some s0 \<and>
    ses_verified s0 \<and> ses_user_id s0 = 7"
  by (rule second_login_unregisters_first [where doc = "[55]" and rest = "[]" and s = "ex_session False 0" and
      msg = "ex_msg TAG_VERIFY [55]" and token = "''A''"]) (simp_all add: ex_server_ok ex_services_def c_string_append [of "[_]", simplified])

text \<open>
  A call to Redis that is not answered throws, and nothing between the handler and the thread function of
  the worker catches it: a verification and a message to a user who is not on this server end the worker.
\<close>

lemma redis_failure_ends_worker:
  assumes be: "\<not> be_lck be" "be_running be" "be_q be = (Some p, Some msg) # rest" and down: "\<not> sv_read sv"
    and s: "be_ses be p = Some s"
    and msg: "GetTagField e msg = Inr TAG_VERIFY \<and> \<not> ses_verified s \<and> c_string (GetContent msg) = Inr doc \<and>
        sv_json sv doc = Fields token uid \<or>
      GetTagField e msg = Inr TAG_CHAT_MSG \<and> ses_verified s \<and> ReadNetField64 e (GetContent msg) 0 = Inr whom \<and>
        GetSession whom (be_mgr be) = Inr None"
  shows "Worker_turn e fill server_id sv be = Inl (Runtime_Error ''redis'')"
  using msg be down s
  by (elim disjE conjE)
    (simp_all add: Worker_turn_def Processor_def Processor_verify_def Processor_chat_def tag_defs Let_def)

text \<open>
  An order to kick a user, from the control stream of the server, closes the user's session and
  takes it out of the table; the notice the closing session posts makes the worker delete the user's
  status in Redis.
\<close>

lemma kick_takes_user_offline:
  assumes ok: "tables_ok be" "\<not> be_lck be" "be_running be" and q: "be_q be = []"
    and reg: "mgr_sess (be_mgr be) uid = Some p" and up: "be_ses be p = Some s" "\<not> ses_down s"
    and sv: "sv_exec sv" and idle: "\<not> on_in_progress (be_online be)"
  shows "\<exists>be1 be2. MQ_round e fill server_id
      [(''stream:serverctl:'' @ server_id, [Some [(''type'', ''kick''), (''uid'', to_string (unat uid))]])] be = Inr be1 \<and>
    mgr_sess (be_mgr be1) uid = None \<and> map_option ses_down (be_ses be1 p) = Some True \<and>
    Worker_turn e fill server_id sv be1 = Inr (Some be2) \<and>
    Cmd_Del (''status:'' @ to_string (unat uid)) \<in> set (drop (length (be_cmds be)) (be_cmds be2)) \<and>
    mgr_sess (be_mgr be2) uid = None"
proof -
  obtain be1 be2 where "MQ_round e fill server_id
      [(''stream:serverctl:'' @ server_id, [Some [(''type'', ''kick''), (''uid'', to_string (unat uid))]])] be = Inr be1"
    "mgr_sess (be_mgr be1) uid = None" "map_option ses_down (be_ses be1 p) = Some True"
    "Worker_turn e fill server_id sv be1 = Inr (Some be2)" "be_mgr be2 = be_mgr be1"
    "be_cmds be2 = be_cmds be @ kick_cmds uid (be_online be)"
    using kick_run [OF assms] by blast
  then show ?thesis by (auto simp: kick_cmds_def status_key_def)
qed

text \<open>
  \<open>SessionManager::StopSession\<close> closes a session while it holds the lock of the table, and closing
  a verified session takes that lock: it never returns for a user that is connected.
\<close>

lemma StopSession_deadlocks:
  assumes "tables_ok be" and "mgr_sess (be_mgr be) uid = Some p" and "be_ses be p = Some s" and "\<not> ses_down s"
  shows "StopSession uid be = Inl Self_Deadlock"
proof -
  have "ident s = (True, uid, True, True)" using tables_ok_registered [OF assms(1,2)] assms(3) by auto
  then have "session_close p (be\<lparr>be_mgr := (be_mgr be)\<lparr>mgr_lck := True\<rparr>\<rparr>) = Inl Self_Deadlock"
    using assms by (intro session_close_mgr_locked [of _ p s uid]) simp_all
  then show ?thesis
    using assms tables_ok_session(3) [OF assms(1,3)] by (simp add: StopSession_def)
qed

text \<open>
  A client that has not been verified cannot reach anyone: a frame of any kind but a verification
  leaves every session, the tables and Redis as they were. Only the online list changes: it gets the
  user id of the session, which is zero before the verification.
\<close>

lemma unverified_frames_ignored:
  assumes "tables_ok be" "\<not> be_lck be" "be_running be" "be_q be = (Some p, Some msg) # rest"
    and "be_ses be p = Some s" "\<not> ses_verified s" and "GetTagField e msg = Inr tag" "tag \<noteq> TAG_VERIFY"
  shows "Worker_turn e fill server_id sv be =
    Inr (Some (be\<lparr>be_q := rest, be_online := snd (on_AddSession (ses_user_id s) (be_online be))\<rparr>))"
  using assms by (cases be) (simp add: Worker_turn_def Processor_def Processor_chat_def Let_def)

text \<open>
  C37: the text of a verification is parsed as a C string, but nothing terminates it: when the frame fills
  the receive buffer of the session, the worker reads behind the block. A client that is not verified
  yet reaches this with one frame of the size of the buffer that has no zero byte in its content.
\<close>

theorem verification_read_past_buffer:
  assumes ses: "be_ses be p = Some s" "\<not> ses_verified s" and sim: "recv_sim s (Some [])"
    and d: "node_data (ses_recv s) = Some d" "length d = 8 + length content" "0 \<notin> set content"
    and len: "length content \<le> unat MAX_CTX_LEN" and be: "\<not> be_lck be" "be_running be" "be_q be = []"
  shows "run_steps (be_step e fill server_id)
      [Be_Read p (Read_Done (take 8 (frame TAG_VERIFY content))), Be_Read p (Read_Done (drop 8 (frame TAG_VERIFY content))), Be_Work sv] be =
    Inl Undefined_Behaviour"
proof -
  obtain m n junk where r: "run_steps (be_step e fill server_id)
      [Be_Read p (Read_Done (take 8 (frame TAG_VERIFY content))), Be_Read p (Read_Done (drop 8 (frame TAG_VERIFY content)))] be =
      Inr ([(), ()], be\<lparr>be_ses := (be_ses be)(p \<mapsto> s\<lparr>ses_recv := m, ses_reading := Some Read_Head,
        ses_out := ses_out s @ [Post_Message (Some n)]\<rparr>), be_q := be_q be @ [(Some p, Some n)]\<rparr>)"
    "node_data n = Some (frame TAG_VERIFY content @ junk)" "8 + length content \<le> length d \<Longrightarrow> junk = drop (8 + length content) d"
    using be_reads_frame [OF ses(1) sim d(1) len be(1)] by metis
  have n: "node_data n = Some (frame TAG_VERIFY content)" using r(2,3) d(2) by simp
  have tag: "GetTagField e n = Inr TAG_VERIFY"
    using GetTagField_Some [OF n] frame_fields(1) [of TAG_VERIFY content "[]"] by simp
  have "c_string (GetContent n) = Inl Undefined_Behaviour" using n d(3) by (simp add: GetContent_def frame_def c_string_def)
  then show ?thesis
    using run_steps_snoc [OF r(1), of "Be_Work sv"] tag ses(2) be
    by (simp add: be_step_def [of _ _ _ "Be_Work sv"] Worker_turn_def Processor_def Processor_verify_def Let_def)
qed

theorem verification_read_past_buffer_witness:
  "run_steps (be_step Little_Endian (\<lambda>_. 0) ''s1'')
      [Be_Read 3 (Read_Done (take 8 (frame TAG_VERIFY (replicate 1016 1)))),
       Be_Read 3 (Read_Done (drop 8 (frame TAG_VERIFY (replicate 1016 1)))), Be_Work ex_services]
      ((ex_server [])\<lparr>be_ses := [3 \<mapsto> Start (Session_new (\<lambda>_. 0) True True)]\<rparr>) =
    Inl Undefined_Behaviour"
proof (rule verification_read_past_buffer [where s = "Start (Session_new (\<lambda>_. 0) True True)" and d = "new_chars (\<lambda>_. 0) 1024"])
  show "recv_sim (Start (Session_new (\<lambda>_. 0) True True)) (Some [])" by (rule recv_sim_Start)
qed (simp_all add: Start_def ReceiveHead_def Session_new_def MsgNode_new_def INITIAL_NODE_SIZE_def MAX_CTX_LEN_def)

end
