(* ===== verification/Security.thy ===== *)
theory Security
  imports Cpp_Text
begin

text \<open>
  Password hashes, \<open>src/http/dbm/security.cpp\<close>. A stored hash is the text
  \<open>iterations & key in hex & salt in hex\<close>. Hexadecimal coding (boost) and the key derivation (OpenSSL) are
  arguments; what the code relies on of them is \<open>crypto_ok\<close>. The lemmas show that a password verifies
  against a hash made from it, that another one verifies only if it derives the same key, and what
  becomes of texts that are not such hashes.
\<close>

section \<open>The libraries\<close>

text \<open>
  \<open>cr_unhex\<close> is \<open>None\<close> when the library throws; \<open>cr_pbkdf2 code salt iter len\<close> is \<open>None\<close> when the derivation
  fails and leaves the output buffer as it was.
\<close>

record crypto =
  cr_hex :: "byte list \<Rightarrow> string"
  cr_unhex :: "string \<Rightarrow> byte list option"
  cr_pbkdf2 :: "string \<Rightarrow> byte list \<Rightarrow> int \<Rightarrow> nat \<Rightarrow> byte list option"

definition crypto_ok :: "crypto \<Rightarrow> bool" where
  "crypto_ok c =
    ((\<forall>bs. cr_unhex c (cr_hex c bs) = Some bs) \<and> cr_unhex c [] = Some [] \<and>
     (\<forall>bs. CHR ''&'' \<notin> set (cr_hex c bs)) \<and>
     (\<forall>code salt iter len key. cr_pbkdf2 c code salt iter len = Some key \<longrightarrow> length key = len))"

section \<open>The functions\<close>

definition Bin2Hex :: "crypto \<Rightarrow> byte list \<Rightarrow> string" where
  "Bin2Hex c bin = cr_hex c bin"

definition Hex2Bin :: "crypto \<Rightarrow> string \<Rightarrow> byte list result" where
  "Hex2Bin c hex = (case cr_unhex c hex of None \<Rightarrow> Inl (Runtime_Error ''unhex'') | Some bin \<Rightarrow> Inr bin)"

text \<open>\<open>std::to_string(int)\<close>.\<close>

definition to_string_int :: "int \<Rightarrow> string" where
  "to_string_int i = (if i < 0 then CHR ''-'' # to_string (nat (- i)) else to_string (nat i))"

definition default_iter :: int where
  "default_iter = 200000"

text \<open>\<open>salt\<close> is what \<open>RAND_bytes\<close> puts into the array of sixteen bytes.\<close>

definition HashPassword :: "crypto \<Rightarrow> (nat \<Rightarrow> byte) \<Rightarrow> byte list \<Rightarrow> string \<Rightarrow> int \<Rightarrow> string" where
  "HashPassword c fill salt code iter =
    (let derived_key = (case cr_pbkdf2 c code salt iter 64 of None \<Rightarrow> new_chars fill 64 | Some key \<Rightarrow> key)
     in to_string_int iter @ ''&'' @ Bin2Hex c derived_key @ ''&'' @ Bin2Hex c salt)"

definition Verify :: "crypto \<Rightarrow> string \<Rightarrow> string \<Rightarrow> bool result" where
  "Verify c code stored_hash =
    (case find_char CHR ''&'' 0 stored_hash of
       None \<Rightarrow> Inr False
     | Some pos1 \<Rightarrow>
         (case find_char CHR ''&'' (pos1 + 1) stored_hash of
            None \<Rightarrow> Inr False
          | Some pos2 \<Rightarrow>
              bindR (bindR (substr stored_hash 0 pos1) stoi) (\<lambda>iter.
              bindR (substr stored_hash (pos1 + 1) (pos2 - pos1 - 1)) (\<lambda>key_hex.
              bindR (substr stored_hash (pos2 + 1) (length stored_hash)) (\<lambda>salt_hex.
              bindR (Hex2Bin c salt_hex) (\<lambda>salt.
              bindR (Hex2Bin c key_hex) (\<lambda>stored_key.
                (let derived_key =
                   (case cr_pbkdf2 c code salt iter (length stored_key) of
                      None \<Rightarrow> replicate (length stored_key) 0 | Some key \<Rightarrow> key)
                 in Inr (derived_key = stored_key))))))))) "

section \<open>Lemmas\<close>

lemma crypto_okD:
  assumes "crypto_ok c"
  shows "Hex2Bin c (Bin2Hex c bs) = Inr bs" "Hex2Bin c [] = Inr []" "CHR ''&'' \<notin> set (Bin2Hex c bs)"
    "cr_pbkdf2 c code salt iter len = Some key \<Longrightarrow> length key = len"
  using assms by (auto simp: crypto_ok_def Hex2Bin_def Bin2Hex_def)

lemma stoi_to_string_int: "0 \<le> i \<Longrightarrow> i < 2 ^ 31 \<Longrightarrow> stoi (to_string_int i) = Inr i"
  by (simp add: to_string_int_def nat_less_iff)

lemma to_string_no_amp: "CHR ''&'' \<notin> set (to_string n)"
  using to_string_digits isdigit_not_special by blast

text \<open>The three parts of a stored hash.\<close>

lemma Verify_parts:
  assumes key: "CHR ''&'' \<notin> set key_hex"
  shows "Verify c code (to_string n @ ''&'' @ key_hex @ ''&'' @ salt_hex) =
    bindR (stoi (to_string n)) (\<lambda>iter. bindR (Hex2Bin c salt_hex) (\<lambda>salt. bindR (Hex2Bin c key_hex) (\<lambda>stored_key.
      Inr ((case cr_pbkdf2 c code salt iter (length stored_key) of
              None \<Rightarrow> replicate (length stored_key) 0 | Some key \<Rightarrow> key) = stored_key))))"
proof -
  let ?n = "to_string n"
  let ?s = "?n @ ''&'' @ key_hex @ ''&'' @ salt_hex"
  have p1: "find_char CHR ''&'' 0 ?s = Some (length ?n)"
    using find_char_append [OF to_string_no_amp, of 0] by simp
  have "find_char CHR ''&'' (length (?n @ ''&'')) ((?n @ ''&'') @ (key_hex @ CHR ''&'' # salt_hex)) =
      Some (length (?n @ ''&'') + length key_hex)"
    unfolding find_char_shift using find_char_append [OF key, of 0] by simp
  then have p2: "find_char CHR ''&'' (length ?n + 1) ?s = Some (length ?n + 1 + length key_hex)" by simp
  show ?thesis
    unfolding Verify_def p1 option.case p2
    by (simp add: substr_def Let_def)
qed

lemma Verify_HashPassword:
  assumes c: "crypto_ok c" and iter: "0 \<le> iter" "iter < 2 ^ 31" and key: "cr_pbkdf2 c code salt iter 64 = Some key"
  shows "Verify c code' (HashPassword c fill salt code iter) =
    Inr ((case cr_pbkdf2 c code' salt iter 64 of None \<Rightarrow> replicate 64 0 | Some key' \<Rightarrow> key') = key)"
proof -
  have "HashPassword c fill salt code iter = to_string (nat iter) @ ''&'' @ Bin2Hex c key @ ''&'' @ Bin2Hex c salt"
    using iter key by (simp add: HashPassword_def to_string_int_def)
  moreover have "length key = 64" using crypto_okD(4) [OF c key] .
  ultimately show ?thesis
    using iter Verify_parts [OF crypto_okD(3) [OF c], of c code' "nat iter" key "Bin2Hex c salt"]
    by (simp add: crypto_okD(1) [OF c] nat_less_iff split: option.splits)
qed

section \<open>Hexadecimal coding\<close>

text \<open>An instance of the libraries: two digits a byte, and a derivation that repeats the salt.\<close>

definition hex_digit :: "nat \<Rightarrow> char" where
  "hex_digit n = ''0123456789ABCDEF'' ! n"

definition hex_value :: "char \<Rightarrow> nat option" where
  "hex_value d = map_of (zip ''0123456789ABCDEF'' [0..<16]) d"

fun hex_decode :: "string \<Rightarrow> byte list option" where
  "hex_decode [] = Some []"
| "hex_decode (a # b # s) =
    (case (hex_value a, hex_value b, hex_decode s) of
       (Some x, Some y, Some bs) \<Rightarrow> Some (of_nat (16 * x + y) # bs)
     | _ \<Rightarrow> None)"
| "hex_decode [a] = None"

definition ex_crypto :: crypto where
  "ex_crypto = \<lparr>cr_hex = (\<lambda>bs. concat (map (\<lambda>b. [hex_digit (unat b div 16), hex_digit (unat b mod 16)]) bs)),
    cr_unhex = hex_decode,
    cr_pbkdf2 = (\<lambda>code salt iter len. if iter \<le> 0 then None
      else Some (take len (bytes_of_text code @ salt @ replicate len 0)))\<rparr>"

lemma hex_digit_value: "n < 16 \<Longrightarrow> hex_value (hex_digit n) = Some n \<and> hex_digit n \<noteq> CHR ''&''"
proof -
  have "\<forall>n\<in>set [0..<16]. hex_value (hex_digit n) = Some n \<and> hex_digit n \<noteq> CHR ''&''"
    by (simp add: hex_value_def hex_digit_def upt_rec)
  then show "n < 16 \<Longrightarrow> ?thesis" by simp
qed

lemma hex_decode_encode:
  "hex_decode (concat (map (\<lambda>b. [hex_digit (unat b div 16), hex_digit (unat b mod 16)]) bs)) = Some bs"
proof (induction bs)
  case (Cons b bs)
  have "unat b div 16 < 16" "unat b mod 16 < 16" using unat_u8_less [of b] by auto
  moreover have "of_nat (16 * (unat b div 16) + unat b mod 16) = b" by (simp only: mult_div_mod_eq) simp
  ultimately show ?case using Cons hex_digit_value by simp
qed simp

lemma ex_crypto_ok: "crypto_ok ex_crypto"
proof -
  have "CHR ''&'' \<notin> set (cr_hex ex_crypto bs)" for bs
  proof -
    have "unat b div 16 < 16" "unat b mod 16 < 16" for b :: byte using unat_u8_less [of b] by auto
    then have "hex_digit (unat b div 16) \<noteq> CHR ''&''" "hex_digit (unat b mod 16) \<noteq> CHR ''&''" for b :: byte
      using hex_digit_value by blast+
    then show ?thesis by (auto simp: ex_crypto_def) metis+
  qed
  then show ?thesis by (auto simp: crypto_ok_def ex_crypto_def hex_decode_encode split: if_splits)
qed

section \<open>Properties\<close>

text \<open>
  C27: a password verifies against a hash the program made from it, and any other password exactly when
  the derivation gives the same key: parsing the stored text recovers the iterations, key and salt.
\<close>

theorem stored_hash_round_trip:
  assumes "crypto_ok c" and "0 < iter" "iter < 2 ^ 31" and "cr_pbkdf2 c code salt iter 64 = Some key"
    and "cr_pbkdf2 c code' salt iter 64 = Some key'"
  shows "Verify c code (HashPassword c fill salt code iter) = Inr True \<and>
    Verify c code' (HashPassword c fill salt code iter) = Inr (key' = key)"
  using assms Verify_HashPassword [of c iter code salt key] by simp

theorem stored_hash_round_trip_witness:
  "Verify ex_crypto ''pw'' (HashPassword ex_crypto (\<lambda>_. 0) (replicate 16 7) ''pw'' 200000) = Inr True \<and>
    Verify ex_crypto ''pv'' (HashPassword ex_crypto (\<lambda>_. 0) (replicate 16 7) ''pw'' 200000) =
      Inr (take 64 (bytes_of_text ''pv'' @ replicate 16 7 @ replicate 64 0) = take 64 (bytes_of_text ''pw'' @ replicate 16 7 @ replicate 64 0))"
  by (rule stored_hash_round_trip [OF ex_crypto_ok]) (simp_all add: ex_crypto_def)

text \<open>
  What is stored decides: a text without two separators verifies nothing, a text whose first part is
  no number throws, and a text with an empty key verifies every password.
\<close>

lemma malformed_hashes:
  assumes "crypto_ok c"
  shows "(CHR ''&'' \<notin> set t \<longrightarrow> Verify c code t = Inr False) \<and>
    (CHR ''&'' \<notin> set t \<longrightarrow> CHR ''&'' \<notin> set t' \<longrightarrow> Verify c code (t @ ''&'' @ t') = Inr False) \<and>
    Verify c code (''&'' @ ''&'') = Inl (Invalid_Argument ''stoi'') \<and>
    (n < 2 ^ 31 \<longrightarrow> Verify c code (to_string n @ ''&'' @ [] @ ''&'' @ Bin2Hex c salt) = Inr True)"
proof (intro conjI impI)
  show "Verify c code t = Inr False" if "CHR ''&'' \<notin> set t" using that by (simp add: Verify_def find_char_None)
next
  assume t: "CHR ''&'' \<notin> set t" "CHR ''&'' \<notin> set t'"
  have "find_char CHR ''&'' 0 (t @ ''&'' @ t') = Some (length t)" using find_char_append [OF t(1), of 0] by simp
  moreover have "find_char CHR ''&'' (length (t @ ''&'')) ((t @ ''&'') @ t') = None"
    unfolding find_char_shift using t(2) by (simp add: find_char_None)
  ultimately show "Verify c code (t @ ''&'' @ t') = Inr False" by (simp add: Verify_def)
next
  show "Verify c code (''&'' @ ''&'') = Inl (Invalid_Argument ''stoi'')"
    by (simp add: Verify_def find_char_def substr_def stoi_def scan_number_def scan_sign_def)
next
  assume n: "n < 2 ^ 31"
  have "cr_pbkdf2 c code salt (int n) 0 \<in> {None, Some []}"
    using crypto_okD(4) [OF assms, of code salt "int n" 0] by (cases "cr_pbkdf2 c code salt (int n) 0") auto
  then show "Verify c code (to_string n @ ''&'' @ [] @ ''&'' @ Bin2Hex c salt) = Inr True"
    using n Verify_parts [of "[]" c code n "Bin2Hex c salt"] by (auto simp: crypto_okD(1,2) [OF assms])
qed

end
