(* ===== verification/Db_Pool.thy ===== *)
theory Db_Pool
  imports Security Simulation
begin

text \<open>
  The gateway's access to MySQL: a connection, \<open>src/http/dbm/dbconn.cpp\<close>, and the pool of connections,
  \<open>src/http/dbm/gateway_dbm.cpp\<close>. The database server is an argument: the outcome of connecting for each
  connection object, and the answers to the three statements. The pool is run by any number of threads:
  a state of the whole has the connections that are lent out, the threads that wait on the condition
  variable and the threads that were notified. The lemmas show that a connection is never lent twice
  and the pool keeps to its capacity, that registering and logging in agree, and where the pool loses
  connections or a wakeup.
\<close>

section \<open>A connection\<close>

definition GATEWAY_SUCCESS :: int where "GATEWAY_SUCCESS = 0"
definition GATEWAY_USER_NOT_EXIST :: int where "GATEWAY_USER_NOT_EXIST = - 1"
definition GATEWAY_VERIFY_FAILED :: int where "GATEWAY_VERIFY_FAILED = - 2"
definition GATEWAY_REG_ALREADY_EXIST :: int where "GATEWAY_REG_ALREADY_EXIST = - 3"
definition GATEWAY_UNKNOWN_ERROR :: int where "GATEWAY_UNKNOWN_ERROR = - 100"
definition GATEWAY_MYSQL_SERVER_ERROR :: int where "GATEWAY_MYSQL_SERVER_ERROR = - 102"

lemmas gateway_codes = GATEWAY_SUCCESS_def GATEWAY_USER_NOT_EXIST_def GATEWAY_VERIFY_FAILED_def
  GATEWAY_REG_ALREADY_EXIST_def GATEWAY_UNKNOWN_ERROR_def GATEWAY_MYSQL_SERVER_ERROR_def

text \<open>\<open>dc_open\<close> is the state of \<open>conn_\<close> and \<open>dc_stmts\<close> tells whether the three statements are prepared.\<close>

record dbconn =
  dc_valid :: bool
  dc_open :: bool
  dc_stmts :: bool

definition DBConn_new :: dbconn where
  "DBConn_new = \<lparr>dc_valid = False, dc_open = False, dc_stmts = False\<rparr>"

datatype conn_outcome = Connect_Failed | Prepare_Failed | Connect_Done

definition CloseImpl :: "dbconn \<Rightarrow> dbconn" where
  "CloseImpl d = d\<lparr>dc_stmts := False, dc_open := False, dc_valid := False\<rparr>"

text \<open>\<open>ok\<close> tells whether \<open>conn_.close\<close> leaves the error code clear.\<close>

definition DBConn_Close :: "bool \<Rightarrow> dbconn \<Rightarrow> bool \<times> dbconn" where
  "DBConn_Close ok d = (if dc_valid d then (ok, CloseImpl d) else (True, d))"

text \<open>The error code after the call, as a boolean, and the connection.\<close>

definition ReconnectImpl :: "conn_outcome \<Rightarrow> dbconn \<Rightarrow> bool \<times> dbconn" where
  "ReconnectImpl out d =
    (let d = (if dc_valid d then snd (DBConn_Close True d) else d) in
     case out of
       Connect_Failed \<Rightarrow> (True, d\<lparr>dc_valid := False\<rparr>)
     | Prepare_Failed \<Rightarrow> (False, (snd (DBConn_Close True (d\<lparr>dc_open := True, dc_stmts := False\<rparr>)))\<lparr>dc_valid := True\<rparr>)
     | Connect_Done \<Rightarrow> (False, d\<lparr>dc_open := True, dc_stmts := True, dc_valid := True\<rparr>))"

definition DBConn_Connect :: "conn_outcome \<Rightarrow> dbconn \<Rightarrow> bool \<times> dbconn" where
  "DBConn_Connect out d = (let (err, d) = ReconnectImpl out d in (\<not> err, d))"

text \<open>
  The answers of the database: the rows of a user name, the number of them, and whether a row goes in
  (\<open>None\<close> is an error, otherwise whether there is a result).
\<close>

record mysql =
  my_login :: "string \<Rightarrow> (u64 \<times> string) list option"
  my_count :: "string \<Rightarrow> int option"
  my_insert :: "u64 \<times> string \<times> string \<Rightarrow> bool option"

text \<open>The return value and, when the user is verified, the uid. Executing a statement that is not valid is undefined.\<close>

definition DBConn_VerifyUserInfo ::
  "crypto \<Rightarrow> mysql \<Rightarrow> dbconn \<Rightarrow> string \<Rightarrow> string \<Rightarrow> (int \<times> u64 option) result" where
  "DBConn_VerifyUserInfo c my d username passcode =
    guardR (dc_stmts d) Undefined_Behaviour
      (case my_login my username of
         None \<Rightarrow> Inr (GATEWAY_MYSQL_SERVER_ERROR, None)
       | Some [] \<Rightarrow> Inr (GATEWAY_USER_NOT_EXIST, None)
       | Some ((get_uid, correct_code_hash) # rows) \<Rightarrow>
           bindR (Verify c passcode correct_code_hash) (\<lambda>match.
             Inr (if match then (GATEWAY_SUCCESS, Some get_uid) else (GATEWAY_VERIFY_FAILED, None))))"

text \<open>The return value and the row given to the insert statement, if it is executed.\<close>

definition DBConn_RegisterNew ::
  "crypto \<Rightarrow> (nat \<Rightarrow> byte) \<Rightarrow> byte list \<Rightarrow> mysql \<Rightarrow> dbconn \<Rightarrow> string \<Rightarrow> string \<Rightarrow> u64 \<Rightarrow>
    (int \<times> (u64 \<times> string \<times> string) option) result" where
  "DBConn_RegisterNew c fill salt my d username passcode uid =
    guardR (dc_stmts d) Undefined_Behaviour
      (case my_count my username of
         None \<Rightarrow> Inr (GATEWAY_MYSQL_SERVER_ERROR, None)
       | Some n \<Rightarrow>
           if n > 0 then Inr (GATEWAY_REG_ALREADY_EXIST, None)
           else
             (let row = (uid, username, HashPassword c fill salt passcode default_iter) in
              case my_insert my row of
                None \<Rightarrow> Inr (GATEWAY_MYSQL_SERVER_ERROR, Some row)
              | Some has_value \<Rightarrow> Inr (if has_value then GATEWAY_SUCCESS else GATEWAY_UNKNOWN_ERROR, Some row)))"

section \<open>The pool\<close>

text \<open>Connection objects have addresses; \<open>dbm_next\<close> is the next one the allocator gives.\<close>

record dbm =
  dbm_obj :: "nat \<Rightarrow> dbconn"
  dbm_next :: nat
  dbm_conns :: "nat list"
  dbm_free :: "nat list"
  dbm_size :: u32
  dbm_cap :: u32
  dbm_running :: bool

definition DBM_new :: dbm where
  "DBM_new = \<lparr>dbm_obj = (\<lambda>_. DBConn_new), dbm_next = 0, dbm_conns = [], dbm_free = [], dbm_size = 0, dbm_cap = 0,
    dbm_running = False\<rparr>"

definition close_all :: "dbm \<Rightarrow> dbm" where
  "close_all m = m\<lparr>dbm_obj := (\<lambda>p. if p \<in> set (dbm_conns m) then snd (DBConn_Close True (dbm_obj m p)) else dbm_obj m p),
    dbm_conns := []\<rparr>"

text \<open>\<open>make_shared<DBConn>\<close> and \<open>Connect\<close>.\<close>

definition new_conn :: "(nat \<Rightarrow> conn_outcome) \<Rightarrow> dbm \<Rightarrow> bool \<times> nat \<times> dbm" where
  "new_conn net m =
    (let p = dbm_next m; (ok, d) = DBConn_Connect (net p) DBConn_new
     in (ok, p, m\<lparr>dbm_obj := (dbm_obj m)(p := d), dbm_next := Suc p\<rparr>))"

primrec DBM_connect :: "(nat \<Rightarrow> conn_outcome) \<Rightarrow> nat \<Rightarrow> dbm \<Rightarrow> bool \<times> dbm" where
  "DBM_connect net 0 m = (True, m)"
| "DBM_connect net (Suc n) m =
    (let (ok, p, m) = new_conn net m; m = m\<lparr>dbm_conns := dbm_conns m @ [p]\<rparr>
     in if ok then DBM_connect net n m else (False, close_all m))"

definition DBM_Start :: "(nat \<Rightarrow> conn_outcome) \<Rightarrow> u32 \<Rightarrow> u32 \<Rightarrow> dbm \<Rightarrow> bool \<times> dbm" where
  "DBM_Start net conns max_conn m =
    (if dbm_running m then (False, m)
     else if max_conn < conns then (False, m)
     else
       (let (ok, m) = DBM_connect net (unat conns) m in
        if \<not> ok then (False, m)
        else (True, m\<lparr>dbm_size := conns, dbm_cap := max_conn, dbm_running := True, dbm_free := dbm_free m @ dbm_conns m\<rparr>)))"

definition DBM_Stop :: "dbm \<Rightarrow> bool \<times> dbm" where
  "DBM_Stop m =
    (if dbm_running m then (True, (close_all m)\<lparr>dbm_running := False, dbm_size := 0, dbm_cap := 0\<rparr>) else (False, m))"

definition CreateConn :: "(nat \<Rightarrow> conn_outcome) \<Rightarrow> dbm \<Rightarrow> nat option \<times> dbm" where
  "CreateConn net m =
    (let (ok, p, m) = new_conn net m
     in if \<not> ok then (None, m) else (Some p, m\<lparr>dbm_conns := dbm_conns m @ [p], dbm_size := dbm_size m + 1\<rparr>))"

text \<open>
  \<open>GetIdleConn\<close> until it returns, with a connection or with null, or waits on the condition variable; a
  thread that is notified runs it again from the head of the loop.
\<close>

datatype idle = Idle_Got nat | Idle_Null | Idle_Wait

function GetIdleConn :: "(nat \<Rightarrow> conn_outcome) \<Rightarrow> dbm \<Rightarrow> idle \<times> dbm" where
  "GetIdleConn net m =
    (if dbm_free m = [] \<and> dbm_running m then
       (if dbm_size m + 1 \<le> dbm_cap m then
          (case CreateConn net m of
             (Some p, m') \<Rightarrow> GetIdleConn net (m'\<lparr>dbm_free := dbm_free m' @ [p]\<rparr>)
           | (None, m') \<Rightarrow> (Idle_Null, m'))
        else (Idle_Wait, m))
     else if \<not> dbm_running m then (Idle_Null, m)
     else (Idle_Got (hd (dbm_free m)), m\<lparr>dbm_free := tl (dbm_free m)\<rparr>))"
  by pat_completeness auto
termination
  by (relation "measure (\<lambda>(net, m). if dbm_free m = [] then 1 else 0)") auto

definition ReturnIdleConn :: "nat \<Rightarrow> dbm \<Rightarrow> bool \<times> dbm" where
  "ReturnIdleConn p m = (dbm_free m = [], m\<lparr>dbm_free := dbm_free m @ [p]\<rparr>)"

text \<open>A request through the pool. An exception leaves the function before the connection is returned.\<close>

definition with_conn :: "(nat \<Rightarrow> conn_outcome) \<Rightarrow> (dbconn \<Rightarrow> (int \<times> 'a option) result) \<Rightarrow> dbm \<Rightarrow> (int \<times> 'a option) result option \<times> dbm" where
  "with_conn net f m =
    (case GetIdleConn net m of
       (Idle_Wait, m) \<Rightarrow> (None, m)
     | (Idle_Null, m) \<Rightarrow> (Some (Inr (GATEWAY_UNKNOWN_ERROR, None)), m)
     | (Idle_Got p, m) \<Rightarrow>
         (case f (dbm_obj m p) of
            Inl ex \<Rightarrow> (Some (Inl ex), m)
          | Inr ret \<Rightarrow> (Some (Inr ret), snd (ReturnIdleConn p m))))"

definition DBM_VerifyUserInfo ::
  "(nat \<Rightarrow> conn_outcome) \<Rightarrow> crypto \<Rightarrow> mysql \<Rightarrow> string \<Rightarrow> string \<Rightarrow> dbm \<Rightarrow> (int \<times> u64 option) result option \<times> dbm" where
  "DBM_VerifyUserInfo net c my username passcode =
    with_conn net (\<lambda>d. DBConn_VerifyUserInfo c my d username passcode)"

definition DBM_RegisterNew ::
  "(nat \<Rightarrow> conn_outcome) \<Rightarrow> crypto \<Rightarrow> (nat \<Rightarrow> byte) \<Rightarrow> byte list \<Rightarrow> mysql \<Rightarrow> string \<Rightarrow> string \<Rightarrow> u64 \<Rightarrow> dbm \<Rightarrow>
    (int \<times> (u64 \<times> string \<times> string) option) result option \<times> dbm" where
  "DBM_RegisterNew net c fill salt my username passcode uid =
    with_conn net (\<lambda>d. DBConn_RegisterNew c fill salt my d username passcode uid)"

section \<open>Threads on the pool\<close>

text \<open>
  \<open>pl_lent\<close> are the connections threads hold, \<open>pl_waiting\<close> counts the threads that wait, \<open>pl_woken\<close> those
  that were notified and have not taken the lock yet.
\<close>

record pool =
  pl_dbm :: dbm
  pl_lent :: "nat list"
  pl_waiting :: nat
  pl_woken :: nat

datatype pool_event = Pl_Ask | Pl_Resume | Pl_Return nat | Pl_Stop

definition pool_ask :: "(nat \<Rightarrow> conn_outcome) \<Rightarrow> pool \<Rightarrow> idle \<times> pool" where
  "pool_ask net s =
    (case GetIdleConn net (pl_dbm s) of
       (Idle_Got p, m) \<Rightarrow> (Idle_Got p, s\<lparr>pl_dbm := m, pl_lent := p # pl_lent s\<rparr>)
     | (Idle_Null, m) \<Rightarrow> (Idle_Null, s\<lparr>pl_dbm := m\<rparr>)
     | (Idle_Wait, m) \<Rightarrow> (Idle_Wait, s\<lparr>pl_dbm := m, pl_waiting := Suc (pl_waiting s)\<rparr>))"

definition pool_step :: "(nat \<Rightarrow> conn_outcome) \<Rightarrow> pool_event \<Rightarrow> pool \<Rightarrow> (idle option \<times> pool) result" where
  "pool_step net ev s =
    Inr (case ev of
       Pl_Ask \<Rightarrow> map_prod Some id (pool_ask net s)
     | Pl_Resume \<Rightarrow>
         if pl_woken s = 0 then (None, s) else map_prod Some id (pool_ask net (s\<lparr>pl_woken := pl_woken s - 1\<rparr>))
     | Pl_Return p \<Rightarrow>
         if p \<notin> set (pl_lent s) then (None, s)
         else
           (let (wake, m) = ReturnIdleConn p (pl_dbm s);
                s = s\<lparr>pl_dbm := m, pl_lent := remove1 p (pl_lent s)\<rparr>
            in (None, if wake \<and> 0 < pl_waiting s
                      then s\<lparr>pl_waiting := pl_waiting s - 1, pl_woken := Suc (pl_woken s)\<rparr> else s))
     | Pl_Stop \<Rightarrow>
         (let (ret, m) = DBM_Stop (pl_dbm s)
          in (None, if ret then s\<lparr>pl_dbm := m, pl_woken := pl_woken s + pl_waiting s, pl_waiting := 0\<rparr> else s)))"

definition pool_of :: "dbm \<Rightarrow> pool" where
  "pool_of m = \<lparr>pl_dbm = m, pl_lent = [], pl_waiting = 0, pl_woken = 0\<rparr>"

section \<open>Ownership\<close>

definition pool_ok :: "u32 \<Rightarrow> pool \<Rightarrow> bool" where
  "pool_ok cap s =
    (let m = pl_dbm s; owned = dbm_free m @ pl_lent s in
     distinct owned \<and> (\<forall>p\<in>set owned. p < dbm_next m) \<and>
     (dbm_running m \<longrightarrow>
        dbm_cap m = cap \<and> dbm_size m \<le> cap \<and> mset (dbm_conns m) = mset owned \<and> length (dbm_conns m) = unat (dbm_size m)))"
declare GetIdleConn.simps [simp del]

lemma CreateConn_Some:
  assumes "CreateConn net m = (Some p, m')"
  shows "p = dbm_next m" "\<exists>d. m' = m\<lparr>dbm_obj := (dbm_obj m)(p := d), dbm_next := Suc p, dbm_conns := dbm_conns m @ [p],
    dbm_size := dbm_size m + 1\<rparr>"
  using assms by (auto simp: CreateConn_def new_conn_def Let_def split: prod.splits if_splits)

lemma CreateConn_None:
  "CreateConn net m = (None, m') \<Longrightarrow> \<exists>d. m' = m\<lparr>dbm_obj := (dbm_obj m)(dbm_next m := d), dbm_next := Suc (dbm_next m)\<rparr>"
  by (auto simp: CreateConn_def new_conn_def Let_def split: prod.splits if_splits)

lemma GetIdleConn_free:
  "dbm_running m \<Longrightarrow> dbm_free m = p # q \<Longrightarrow> GetIdleConn net m = (Idle_Got p, m\<lparr>dbm_free := q\<rparr>)"
  by (simp add: GetIdleConn.simps)

lemma GetIdleConn_full:
  "dbm_running m \<Longrightarrow> dbm_free m = [] \<Longrightarrow> \<not> dbm_size m + 1 \<le> dbm_cap m \<Longrightarrow> GetIdleConn net m = (Idle_Wait, m)"
  by (simp add: GetIdleConn.simps)

text \<open>The ways \<open>GetIdleConn\<close> ends.\<close>

lemma GetIdleConn_cases:
  obtains (free) p q where "dbm_running m" "dbm_free m = p # q" "GetIdleConn net m = (Idle_Got p, m\<lparr>dbm_free := q\<rparr>)"
    | (created) p m' where "dbm_running m" "dbm_free m = []" "dbm_size m + 1 \<le> dbm_cap m" "CreateConn net m = (Some p, m')"
        "GetIdleConn net m = (Idle_Got p, m'\<lparr>dbm_free := []\<rparr>)"
    | (failed) m' where "dbm_running m" "dbm_free m = []" "CreateConn net m = (None, m')" "GetIdleConn net m = (Idle_Null, m')"
    | (full) "dbm_running m" "dbm_free m = []" "dbm_cap m < dbm_size m + 1" "GetIdleConn net m = (Idle_Wait, m)"
    | (stopped) "\<not> dbm_running m" "GetIdleConn net m = (Idle_Null, m)"
proof (cases "dbm_running m")
  case False
  then show ?thesis by (intro stopped) (simp_all add: GetIdleConn.simps [of net m])
next
  case run: True
  show ?thesis
  proof (cases "dbm_free m")
    case (Cons p q)
    then show ?thesis using run by (intro free) (simp_all add: GetIdleConn.simps [of net m])
  next
    case Nil
    show ?thesis
    proof (cases "dbm_size m + 1 \<le> dbm_cap m")
      case False
      then show ?thesis using run Nil by (intro full) (simp_all add: GetIdleConn.simps [of net m])
    next
      case room: True
      obtain r m' where c: "CreateConn net m = (r, m')" by fastforce
      show ?thesis
      proof (cases r)
        case None
        then show ?thesis using run Nil c room by (intro failed [of m']) (simp_all add: GetIdleConn.simps [of net m])
      next
        case (Some p)
        then have m': "dbm_free m' = []" "dbm_running m'" using CreateConn_Some(2) [of net m p m'] c Nil run by auto
        have "GetIdleConn net m = GetIdleConn net (m'\<lparr>dbm_free := [p]\<rparr>)"
          using run Nil room c Some m' by (simp add: GetIdleConn.simps [of net m])
        also have "\<dots> = (Idle_Got p, m'\<lparr>dbm_free := []\<rparr>)"
          using m' by (simp add: GetIdleConn.simps [of net "m'\<lparr>dbm_free := [p]\<rparr>"])
        finally show ?thesis using run Nil room c Some by (intro created) simp_all
      qed
    qed
  qed
qed

lemma pool_ok_ask:
  assumes ok: "pool_ok cap s" and small: "cap \<noteq> 0xFFFFFFFF" and ask: "pool_ask net s = (r, s')"
  shows "pool_ok cap s'"
proof -
  let ?m = "pl_dbm s"
  show ?thesis
  proof (cases rule: GetIdleConn_cases [of ?m net])
    case (free p q)
    then show ?thesis using ok ask by (auto simp: pool_ok_def pool_ask_def Let_def)
  next
    case (created p m')
    note m' = CreateConn_Some [OF created(4)]
    have "dbm_size ?m \<le> cap" using ok created(1) by (simp add: pool_ok_def Let_def)
    then have "unat (dbm_size ?m + 1) = Suc (unat (dbm_size ?m))"
      using unat_inc_le [of "dbm_size ?m" cap] small by simp
    then show ?thesis
      using ok ask created m' by (auto simp: pool_ok_def pool_ask_def Let_def less_Suc_eq)
  next
    case (failed m')
    then show ?thesis using ok ask CreateConn_None [OF failed(3)] by (auto simp: pool_ok_def pool_ask_def Let_def less_Suc_eq)
  next
    case full
    then show ?thesis using ok ask by (auto simp: pool_ok_def pool_ask_def Let_def)
  next
    case stopped
    then show ?thesis using ok ask by (auto simp: pool_ok_def pool_ask_def Let_def)
  qed
qed

lemma pool_ok_step:
  assumes small: "cap \<noteq> 0xFFFFFFFF" and ok: "pool_ok cap s" and step: "pool_step net ev s = Inr (out, s')"
  shows "pool_ok cap s'"
proof (cases ev)
  case Pl_Ask
  then show ?thesis using step pool_ok_ask [OF ok small, of net] by (cases "pool_ask net s") (simp add: pool_step_def)
next
  case Pl_Resume
  have "pool_ok cap (s\<lparr>pl_woken := pl_woken s - 1\<rparr>)" using ok by (simp add: pool_ok_def Let_def)
  from pool_ok_ask [OF this small, of net] show ?thesis
    using Pl_Resume step ok by (cases "pool_ask net (s\<lparr>pl_woken := pl_woken s - 1\<rparr>)") (auto simp: pool_step_def split: if_splits)
next
  case (Pl_Return p)
  then show ?thesis
    using step ok by (auto simp: pool_step_def ReturnIdleConn_def pool_ok_def Let_def split: if_splits)
next
  case Pl_Stop
  then show ?thesis
    using step ok by (auto simp: pool_step_def DBM_Stop_def close_all_def pool_ok_def Let_def split: if_splits)
qed

text \<open>Starting the pool.\<close>

lemma DBM_connect_True:
  "DBM_connect net n m = (True, m') \<Longrightarrow>
    dbm_conns m' = dbm_conns m @ [dbm_next m..<dbm_next m + n] \<and> dbm_next m' = dbm_next m + n \<and>
    dbm_free m' = dbm_free m \<and> dbm_running m' = dbm_running m"
proof (induction n arbitrary: m)
  case (Suc n)
  obtain ok d where d: "DBConn_Connect (net (dbm_next m)) DBConn_new = (ok, d)" by fastforce
  let ?m = "m\<lparr>dbm_obj := (dbm_obj m)(dbm_next m := d), dbm_next := Suc (dbm_next m), dbm_conns := dbm_conns m @ [dbm_next m]\<rparr>"
  have "ok" "DBM_connect net n ?m = (True, m')"
    using Suc.prems d by (auto simp: new_conn_def Let_def split: if_splits)
  from Suc.IH [OF this(2)] show ?case by (simp add: upt_rec [of "dbm_next m"])
qed simp

lemma DBM_connect_old: "DBM_connect net n m = (True, m') \<Longrightarrow> p < dbm_next m \<Longrightarrow> dbm_obj m' p = dbm_obj m p"
proof (induction n arbitrary: m)
  case (Suc n)
  obtain ok d where d: "DBConn_Connect (net (dbm_next m)) DBConn_new = (ok, d)" by fastforce
  let ?m = "m\<lparr>dbm_obj := (dbm_obj m)(dbm_next m := d), dbm_next := Suc (dbm_next m), dbm_conns := dbm_conns m @ [dbm_next m]\<rparr>"
  have "DBM_connect net n ?m = (True, m')"
    using Suc.prems(1) d by (auto simp: new_conn_def Let_def split: if_splits)
  from Suc.IH [OF this] Suc.prems(2) show ?case by simp
qed simp

lemma DBM_connect_obj:
  assumes "\<And>p. DBConn_Connect (net p) DBConn_new = (True, d)"
  shows "DBM_connect net n m = (True, m') \<Longrightarrow> dbm_next m \<le> p \<Longrightarrow> p < dbm_next m + n \<Longrightarrow> dbm_obj m' p = d"
proof (induction n arbitrary: m)
  case (Suc n)
  let ?m = "m\<lparr>dbm_obj := (dbm_obj m)(dbm_next m := d), dbm_next := Suc (dbm_next m), dbm_conns := dbm_conns m @ [dbm_next m]\<rparr>"
  have run: "DBM_connect net n ?m = (True, m')" using Suc.prems(1) assms by (simp add: new_conn_def Let_def)
  show ?case
  proof (cases "p = dbm_next m")
    case True
    then show ?thesis using DBM_connect_old [OF run, of p] by simp
  next
    case False
    then show ?thesis using Suc.IH [OF run] Suc.prems(2,3) by simp
  qed
qed simp

lemma pool_ok_Start:
  assumes start: "DBM_Start net conns cap DBM_new = (True, m)"
  shows "pool_ok cap (pool_of m)"
proof -
  obtain m' where m': "DBM_connect net (unat conns) DBM_new = (True, m')" "conns \<le> cap"
      "m = m'\<lparr>dbm_size := conns, dbm_cap := cap, dbm_running := True, dbm_free := dbm_free m' @ dbm_conns m'\<rparr>"
    using start by (auto simp: DBM_Start_def Let_def DBM_new_def split: prod.splits if_splits)
  from DBM_connect_True [OF m'(1)] have "dbm_conns m' = [0..<unat conns]" "dbm_next m' = unat conns" "dbm_free m' = []"
    by (simp_all add: DBM_new_def)
  then show ?thesis using m'(2,3) by (simp add: pool_ok_def pool_of_def)
qed

interpretation pool: run_invariant "pool_step net" "\<lambda>s. cap \<noteq> 0xFFFFFFFF \<and> pool_ok cap s" for net cap
  by unfold_locales (use pool_ok_step in blast)
section \<open>Properties\<close>

text \<open>
  C26: whatever the threads do, a connection is never free and lent, or lent to two threads, at the same
  time; while the pool runs, it never has more connections than its capacity; and a thread waits only
  when every connection of a full pool is lent.
\<close>

theorem pool_ownership:
  assumes "DBM_Start net conns cap DBM_new = (True, m)" and "cap \<noteq> 0xFFFFFFFF"
    and "run_steps (pool_step net) evs (pool_of m) = Inr (outs, s)"
  shows "distinct (dbm_free (pl_dbm s) @ pl_lent s) \<and>
    (dbm_running (pl_dbm s) \<longrightarrow> length (dbm_free (pl_dbm s) @ pl_lent s) \<le> unat cap) \<and>
    (pool_ask net s = (Idle_Wait, s') \<longrightarrow> dbm_free (pl_dbm s) = [] \<and> length (pl_lent s) = unat cap)"
proof -
  have ok: "pool_ok cap s" using pool.run_keeps [OF _ assms(3)] pool_ok_Start [OF assms(1)] assms(2) by blast
  have len: "dbm_running (pl_dbm s) \<Longrightarrow> length (dbm_free (pl_dbm s) @ pl_lent s) = unat (dbm_size (pl_dbm s)) \<and>
      dbm_size (pl_dbm s) \<le> cap \<and> dbm_cap (pl_dbm s) = cap"
    using ok mset_eq_length [of "dbm_conns (pl_dbm s)" "dbm_free (pl_dbm s) @ pl_lent s"] by (simp add: pool_ok_def Let_def)
  have wait: "dbm_free (pl_dbm s) = [] \<and> length (pl_lent s) = unat cap" if "pool_ask net s = (Idle_Wait, s')"
  proof (cases rule: GetIdleConn_cases [of "pl_dbm s" net])
    case full
    have "dbm_size (pl_dbm s) = cap" using inc_gt [of "dbm_size (pl_dbm s)" cap] full(1,3) len assms(2) by auto
    then show ?thesis using full len by auto
  qed (use that in \<open>simp_all add: pool_ask_def\<close>)
  show ?thesis using ok len wait by (auto simp: pool_ok_def Let_def word_le_nat_alt)
qed

theorem pool_ownership_witness:
  "\<exists>m s. DBM_Start (\<lambda>_. Connect_Done) 1 2 DBM_new = (True, m) \<and>
    run_steps (pool_step (\<lambda>_. Connect_Done)) [Pl_Ask, Pl_Ask, Pl_Return 0, Pl_Ask] (pool_of m) =
      Inr ([Some (Idle_Got 0), Some (Idle_Got 1), None, Some (Idle_Got 0)], s) \<and>
    distinct (dbm_free (pl_dbm s) @ pl_lent s) \<and> length (dbm_free (pl_dbm s) @ pl_lent s) \<le> unat (2 :: u32) \<and>
    (\<exists>s'. pool_ask (\<lambda>_. Connect_Done) s = (Idle_Wait, s')) \<and> length (pl_lent s) = unat (2 :: u32)"
proof -
  define net where "net = (\<lambda>_ :: nat. Connect_Done)"
  obtain m where m: "DBM_Start net 1 2 DBM_new = (True, m)"
      "m = DBM_new\<lparr>dbm_obj := (\<lambda>_. DBConn_new)(0 := \<lparr>dc_valid = True, dc_open = True, dc_stmts = True\<rparr>), dbm_next := 1,
        dbm_conns := [0], dbm_size := 1, dbm_cap := 2, dbm_running := True, dbm_free := [0]\<rparr>"
    by (simp add: DBM_Start_def net_def DBM_new_def new_conn_def DBConn_Connect_def ReconnectImpl_def DBConn_new_def)
  obtain s s' where s: "run_steps (pool_step net) [Pl_Ask, Pl_Ask, Pl_Return 0, Pl_Ask] (pool_of m) =
        Inr ([Some (Idle_Got 0), Some (Idle_Got 1), None, Some (Idle_Got 0)], s)"
      "pool_ask net s = (Idle_Wait, s')" "dbm_running (pl_dbm s)"
    by (simp add: m(2) pool_step_def pool_ask_def pool_of_def DBM_new_def GetIdleConn.simps CreateConn_def new_conn_def
        net_def DBConn_Connect_def ReconnectImpl_def DBConn_new_def ReturnIdleConn_def)
  have "(2 :: u32) \<noteq> 0xFFFFFFFF" by simp
  from pool_ownership [OF m(1) this s(1), of s'] m(1) s show ?thesis unfolding net_def by blast
qed


text \<open>
  A request whose evaluation throws, such as a login of a user whose stored hash does not parse,
  takes a connection out of the pool for good: it is neither free nor held by anyone afterwards. Once
  every connection went that way, all further requests wait.
\<close>

lemma exception_loses_connection:
  assumes "dbm_running m" and "dbm_free m = p # q" and "dc_stmts (dbm_obj m p)"
    and "my_login my username = Some ((uid, hash) # rows)" and "Verify c passcode hash = Inl ex"
  shows "DBM_VerifyUserInfo net c my username passcode m = (Some (Inl ex), m\<lparr>dbm_free := q\<rparr>) \<and>
    (q = [] \<and> dbm_size m = dbm_cap m \<and> dbm_cap m \<noteq> 0xFFFFFFFF \<longrightarrow>
      GetIdleConn net (m\<lparr>dbm_free := q\<rparr>) = (Idle_Wait, m\<lparr>dbm_free := q\<rparr>))"
proof
  show "DBM_VerifyUserInfo net c my username passcode m = (Some (Inl ex), m\<lparr>dbm_free := q\<rparr>)"
    using assms by (simp add: DBM_VerifyUserInfo_def with_conn_def GetIdleConn_free DBConn_VerifyUserInfo_def)
  have "\<not> n + 1 \<le> n" if "n \<noteq> 0xFFFFFFFF" for n :: u32
    using unat_inc [OF that] by (simp add: word_le_nat_alt)
  then show "q = [] \<and> dbm_size m = dbm_cap m \<and> dbm_cap m \<noteq> 0xFFFFFFFF \<longrightarrow>
      GetIdleConn net (m\<lparr>dbm_free := q\<rparr>) = (Idle_Wait, m\<lparr>dbm_free := q\<rparr>)"
    using assms(1) by (simp add: GetIdleConn_full)
qed

text \<open>
  Stopping the pool closes its connections but leaves them in the queue of free ones. After a stop
  and a new start the pool hands out connections that are closed.
\<close>

lemma restarted_pool_hands_out_closed:
  assumes "\<And>p. net p = Connect_Done" and "0 < n" and "DBM_Start net n n DBM_new = (True, m1)" and "DBM_Stop m1 = (True, m2)"
    and "DBM_Start net n n m2 = (True, m3)"
  shows "\<exists>p m4. GetIdleConn net m3 = (Idle_Got p, m4) \<and> \<not> dc_open (dbm_obj m4 p) \<and> p \<notin> set (dbm_conns m4)"
proof -
  have d: "DBConn_Connect (net p) DBConn_new = (True, \<lparr>dc_valid = True, dc_open = True, dc_stmts = True\<rparr>)" for p
    by (simp add: assms(1) DBConn_Connect_def ReconnectImpl_def DBConn_new_def)
  obtain m0 where m0: "DBM_connect net (unat n) DBM_new = (True, m0)"
      "m1 = m0\<lparr>dbm_size := n, dbm_cap := n, dbm_running := True, dbm_free := dbm_free m0 @ dbm_conns m0\<rparr>"
    using assms(3) by (auto simp: DBM_Start_def Let_def split: prod.splits if_splits)
  have n: "0 < unat n" using assms(2) by (simp add: word_less_nat_alt)
  have m1: "dbm_conns m0 = [0..<unat n]" "dbm_next m0 = unat n" "dbm_free m0 = []"
    using DBM_connect_True [OF m0(1)] by (simp_all add: DBM_new_def)
  have m2: "m2 = (close_all m1)\<lparr>dbm_running := False, dbm_size := 0, dbm_cap := 0\<rparr>"
    using assms(4) m0(2) by (simp add: DBM_Stop_def)
  have obj0: "dbm_obj m0 0 = \<lparr>dc_valid = True, dc_open = True, dc_stmts = True\<rparr>"
    using DBM_connect_obj [OF d m0(1), of 0] n by (simp add: DBM_new_def)
  have closed: "\<not> dc_open (dbm_obj m2 0)" "dbm_free m2 = [0..<unat n]" "dbm_next m2 = unat n" "dbm_conns m2 = []"
    using m2 n m0(2) m1 obj0 by (simp_all add: close_all_def DBConn_Close_def CloseImpl_def)
  obtain m where m: "DBM_connect net (unat n) m2 = (True, m)"
      "m3 = m\<lparr>dbm_size := n, dbm_cap := n, dbm_running := True, dbm_free := dbm_free m @ dbm_conns m\<rparr>"
    using assms(5) by (auto simp: DBM_Start_def Let_def split: prod.splits if_splits)
  note m' = DBM_connect_True [OF m(1)]
  have "dbm_free m3 = 0 # ([1..<unat n] @ dbm_conns m)" using m(2) m' closed(2) n by (simp add: upt_conv_Cons)
  moreover have "dbm_obj m3 0 = dbm_obj m2 0" using DBM_connect_old [OF m(1), of 0] m(2) closed(3) n by simp
  moreover have "0 \<notin> set (dbm_conns m3)" using m(2) m' closed(3,4) n by simp
  ultimately show ?thesis using m(2) closed(1) by (simp add: GetIdleConn_free)
qed



text \<open>
  When the statements cannot be prepared, \<open>ReconnectImpl\<close> calls \<open>Close\<close> before the connection counts as
  valid, so nothing is closed, and reports success all the same: the connection is marked valid and
  the first request on it is undefined behaviour.
\<close>

lemma prepare_failure_reported_as_success:
  "\<exists>d. DBConn_Connect Prepare_Failed DBConn_new = (True, d) \<and> dc_valid d \<and> dc_open d \<and>
    DBConn_VerifyUserInfo c my d username passcode = Inl Undefined_Behaviour"
  by (simp add: DBConn_Connect_def ReconnectImpl_def DBConn_Close_def DBConn_new_def DBConn_VerifyUserInfo_def)

end
