(* ===== verification/Snowflake.thy ===== *)
theory Snowflake
  imports Prelude Simulation
begin

text \<open>
  The generator of user ids, \<open>src/include/utils/snowflake_id.hpp\<close>: 42 bits of a time stamp in
  milliseconds, ten bits of the worker and twelve bits of a sequence number. The clock is the list of
  the milliseconds the system clock shows when the code reads it, one after the other; the generator gives no id when it spins and the
  list ends. The lemmas show that it returns as soon as the clock moves on, that ids increase while the
  clock does not go back, that workers never share an id, and that ids repeat when it goes back.
\<close>

section \<open>The generator\<close>

record uid_generator =
  ug_worker :: u16
  ug_seq :: u16
  ug_last :: u64
  ug_epoch :: u64

definition UIDGenerator_new :: "u16 \<Rightarrow> u64 \<Rightarrow> uid_generator" where
  "UIDGenerator_new worker_id begin_epoch =
    \<lparr>ug_worker = worker_id AND 0x3FF, ug_seq = 0, ug_last = 0, ug_epoch = begin_epoch\<rparr>"

text \<open>The loop that waits for the next millisecond: the time stamp that ends it and the clock after it.\<close>

fun wait_next :: "u64 \<Rightarrow> u64 \<Rightarrow> u64 \<Rightarrow> u64 list \<Rightarrow> (u64 \<times> u64 list) option" where
  "wait_next epoch last_ts ts clock =
    (if ts \<le> last_ts then (case clock of [] \<Rightarrow> None | now # clock' \<Rightarrow> wait_next epoch last_ts (now - epoch) clock')
     else Some (ts, clock))"

definition uid_of :: "u64 \<Rightarrow> u16 \<Rightarrow> u16 \<Rightarrow> u64" where
  "uid_of ts worker seq = push_bit 22 ts OR push_bit 12 (ucast worker) OR ucast seq"

definition Generate :: "uid_generator \<Rightarrow> u64 list \<Rightarrow> (u64 \<times> uid_generator \<times> u64 list) option" where
  "Generate g clock =
    (case clock of
       [] \<Rightarrow> None
     | now # clock \<Rightarrow>
         (let ts = now - ug_epoch g;
              r = (if ts = ug_last g then
                     (let seq = (ug_seq g + 1) AND 0xFFF in
                      if seq = 0 then map_option (\<lambda>(ts, clock). (seq, ts, clock)) (wait_next (ug_epoch g) (ug_last g) ts clock)
                      else Some (seq, ts, clock))
                   else Some (0, ts, clock))
          in map_option (\<lambda>(seq, ts, clock).
               (uid_of ts (ug_worker g) seq, g\<lparr>ug_seq := seq, ug_last := ts\<rparr>, clock)) r))"

primrec Generate_many :: "nat \<Rightarrow> uid_generator \<Rightarrow> u64 list \<Rightarrow> u64 list" where
  "Generate_many 0 g clock = []"
| "Generate_many (Suc n) g clock =
    (case Generate g clock of None \<Rightarrow> [] | Some (uid, g', clock') \<Rightarrow> uid # Generate_many n g' clock')"

section \<open>Fields of an id\<close>

declare wait_next.simps [simp del]

lemma and_mask_less: "unat (w AND 0xFFF) < 2 ^ 12" "unat (w AND 0x3FF) < 2 ^ 10" for w :: u16
proof -
  have "unat (w AND 0xFFF) = take_bit 12 (unat w)" "unat (w AND 0x3FF) = take_bit 10 (unat w)"
    by (simp_all add: unsigned_and_eq take_bit_eq_mask mask_eq_exp_minus_1)
  then show "unat (w AND 0xFFF) < 2 ^ 12" "unat (w AND 0x3FF) < 2 ^ 10"
    by (simp_all only: take_bit_nat_less_exp)
qed

lemma or_shifted: "0 \<le> y \<Longrightarrow> y < 2 ^ n \<Longrightarrow> push_bit n x OR y = x * 2 ^ n + y" for x y :: int
  using concat_bit_eq [of n y x] by (simp add: concat_bit_def take_bit_int_eq_self push_bit_eq_mult or.commute)

lemma unat_uid_of:
  assumes ts: "unat ts < 2 ^ 42" and w: "unat worker < 2 ^ 10" and seq: "unat seq < 2 ^ 12"
  shows "unat (uid_of ts worker seq) = unat ts * 2 ^ 22 + unat worker * 2 ^ 12 + unat seq"
proof -
  have "int (unat ts) < int (2 ^ 42)" "int (unat worker) < int (2 ^ 10)" "int (unat seq) < int (2 ^ 12)"
    using assms by (simp_all only: of_nat_less_iff)
  then have b: "uint ts < 2 ^ 42" "uint worker < 2 ^ 10" "uint seq < 2 ^ 12" by simp_all
  have "uint (uid_of ts worker seq) = push_bit 22 (uint ts) OR (push_bit 12 (uint worker) OR uint seq)"
    using b unfolding uid_of_def unsigned_or_eq unsigned_push_bit_eq unsigned_ucast_eq
    by (simp add: take_bit_int_eq_self push_bit_eq_mult or.assoc)
  also have "push_bit 12 (uint worker) OR uint seq = uint worker * 2 ^ 12 + uint seq"
    using b by (intro or_shifted) simp_all
  also have "push_bit 22 (uint ts) OR (uint worker * 2 ^ 12 + uint seq) = uint ts * 2 ^ 22 + (uint worker * 2 ^ 12 + uint seq)"
    using b by (intro or_shifted) simp_all
  finally have "int (unat (uid_of ts worker seq)) = int (unat ts * 2 ^ 22 + unat worker * 2 ^ 12 + unat seq)" by simp
  then show ?thesis by (simp only: of_nat_eq_iff)
qed

section \<open>Waiting and progress\<close>

lemma wait_next_some:
  assumes "ts \<le> prev" and "\<exists>now\<in>set clock. prev < now - ep"
  shows "\<exists>ts' clock'. wait_next ep prev ts clock = Some (ts', clock') \<and> prev < ts'"
  using assms
proof (induction clock arbitrary: ts)
  case (Cons now clock)
  show ?case
  proof (cases "now - ep \<le> prev")
    case True
    then show ?thesis using Cons.IH [of "now - ep"] Cons.prems by (auto simp: wait_next.simps [of ep prev ts])
  next
    case False
    then show ?thesis
      using Cons.prems(1) by (simp add: wait_next.simps [of ep prev ts] wait_next.simps [of ep prev "now - ep"])
  qed
qed simp

lemma wait_next_result:
  "wait_next ep prev ts clock = Some (ts', clock') \<Longrightarrow>
    prev < ts' \<and> (ts' = ts \<and> clock' = clock \<or> (\<exists>pre now. clock = pre @ now # clock' \<and> ts' = now - ep))"
proof (induction ep prev ts clock rule: wait_next.induct)
  case (1 ep prev ts clock)
  show ?case
  proof (cases "ts \<le> prev")
    case True
    then obtain now rest where "clock = now # rest" "wait_next ep prev (now - ep) rest = Some (ts', clock')"
      using "1.prems" by (auto simp: wait_next.simps [of ep prev ts] split: list.splits)
    then show ?thesis using "1.IH" [OF True] by (metis append_Cons append_Nil)
  next
    case False
    then show ?thesis using "1.prems" by (auto simp: wait_next.simps [of ep prev ts])
  qed
qed

text \<open>What one call does with a clock that does not go back.\<close>

definition gen_ok :: "uid_generator \<Rightarrow> bool" where
  "gen_ok g = (unat (ug_worker g) < 2 ^ 10 \<and> unat (ug_seq g) < 2 ^ 12)"

lemma UIDGenerator_new_ok: "gen_ok (UIDGenerator_new w ep)"
  by (simp add: gen_ok_def UIDGenerator_new_def and_mask_less [simplified])

lemma seq_step:
  fixes seq :: u16
  assumes "unat seq < 2 ^ 12" and "(seq + 1) AND 0xFFF \<noteq> 0"
  shows "unat ((seq + 1) AND 0xFFF) = Suc (unat seq)"
proof -
  have "unat (seq + 1) = Suc (unat seq)" using assms(1) by (simp add: unat_word_ariths)
  then have eq: "unat ((seq + 1) AND 0xFFF) = take_bit 12 (Suc (unat seq))"
    by (simp add: unsigned_and_eq take_bit_eq_mask mask_eq_exp_minus_1)
  moreover have "Suc (unat seq) \<noteq> 2 ^ 12" using assms(2) eq by (auto simp: take_bit_eq_mod simp flip: unat_eq_0)
  ultimately show ?thesis using assms(1) by (simp add: take_bit_eq_mod)
qed

text \<open>The time stamps of the readings, from the epoch of the generator on.\<close>

definition stamps :: "uid_generator \<Rightarrow> u64 list \<Rightarrow> u64 list" where
  "stamps g clock = map (\<lambda>now. now - ug_epoch g) clock"

lemma since_epoch_mono: "ep \<le> a \<Longrightarrow> a \<le> b \<Longrightarrow> a - ep \<le> b - ep" for ep a b :: u64
  by (simp add: word_le_nat_alt unat_sub)

lemma Generate_step:
  assumes ok: "gen_ok g" and mono: "sorted (ug_last g # stamps g clock)" and gen: "Generate g clock = Some (uid, g', clock')"
  shows "gen_ok g' \<and> sorted (ug_last g' # stamps g' clock') \<and> ug_worker g' = ug_worker g \<and> set (stamps g' clock') \<subseteq> set (stamps g clock) \<and>
    ug_last g' \<in> set (stamps g clock) \<and> uid = uid_of (ug_last g') (ug_worker g') (ug_seq g') \<and>
    (ug_last g < ug_last g' \<or> ug_last g' = ug_last g \<and> ug_seq g < ug_seq g')"
proof -
  obtain now rest where clock: "clock = now # rest" using gen by (cases clock) (auto simp: Generate_def)
  define ts where "ts = now - ug_epoch g"
  let ?seq = "(ug_seq g + 1) AND 0xFFF"
  consider (same) "ts = ug_last g" "?seq \<noteq> 0" "g' = g\<lparr>ug_seq := ?seq, ug_last := ts\<rparr>" "clock' = rest"
    | (spin) ts' where "ts = ug_last g" "wait_next (ug_epoch g) (ug_last g) ts rest = Some (ts', clock')" "g' = g\<lparr>ug_seq := 0, ug_last := ts'\<rparr>"
    | (fresh) "ts \<noteq> ug_last g" "g' = g\<lparr>ug_seq := 0, ug_last := ts\<rparr>" "clock' = rest"
    using gen unfolding clock Generate_def by (auto simp: Let_def ts_def split: if_splits)
  moreover have "uid = uid_of (ug_last g') (ug_worker g') (ug_seq g')"
    using gen unfolding clock Generate_def by (auto simp: Let_def split: if_splits)
  ultimately show ?thesis
  proof cases
    case same
    then show ?thesis using ok mono clock seq_step [of "ug_seq g"] and_mask_less(1) [of "ug_seq g + 1"] \<open>uid = _\<close>
      by (auto simp: gen_ok_def word_less_nat_alt stamps_def ts_def)
  next
    case (spin ts')
    from wait_next_result [OF spin(2)] spin(1)
    obtain pre later where pre: "rest = pre @ later # clock'" "ts' = later - ug_epoch g" "ug_last g < ts'" by auto
    then show ?thesis using spin ok mono clock \<open>uid = _\<close> by (auto simp: gen_ok_def sorted_append stamps_def ts_def)
  next
    case fresh
    then show ?thesis using ok mono clock \<open>uid = _\<close> by (auto simp: gen_ok_def stamps_def ts_def)
  qed
qed

lemma uid_less:
  assumes "gen_ok g" "gen_ok g'" "ug_worker g' = ug_worker g" "unat (ug_last g') < 2 ^ 42"
    and "ug_last g < ug_last g' \<or> ug_last g' = ug_last g \<and> ug_seq g < ug_seq g'"
  shows "uid_of (ug_last g) (ug_worker g) (ug_seq g) < uid_of (ug_last g') (ug_worker g') (ug_seq g')"
proof -
  have "unat (ug_last g) \<le> unat (ug_last g')" using assms(5) by (auto simp: word_less_nat_alt)
  then have "unat (ug_last g) < 2 ^ 42" using assms(4) by (rule order.strict_trans1)
  then show ?thesis
    using assms by (auto simp: word_less_nat_alt unat_uid_of gen_ok_def)
qed

lemma Generate_many_above:
  assumes "gen_ok g" and "sorted (ug_last g # stamps g clock)" and "\<forall>ts\<in>set (stamps g clock). unat ts < 2 ^ 42"
  shows "sorted_wrt (<) (uid_of (ug_last g) (ug_worker g) (ug_seq g) # Generate_many n g clock)"
  using assms
proof (induction n arbitrary: g clock)
  case (Suc n)
  show ?case
  proof (cases "Generate g clock")
    case (Some r)
    then obtain uid g' clock' where r: "Generate g clock = Some (uid, g', clock')" by (cases r) auto
    note step = Generate_step [OF Suc.prems(1,2) r]
    have "sorted_wrt (<) (uid_of (ug_last g') (ug_worker g') (ug_seq g') # Generate_many n g' clock')"
      using step Suc.prems(3) by (intro Suc.IH) auto
    moreover have "uid_of (ug_last g) (ug_worker g) (ug_seq g) < uid"
      using step Suc.prems uid_less [of g g'] by auto
    ultimately show ?thesis using r step by (auto intro: order.strict_trans)
  qed simp
qed simp

section \<open>Properties\<close>

text \<open>
  C28: while the clock does not go back behind an earlier reading or the epoch, and for the 139 years that 42 bits of milliseconds last, the ids
  a generator gives strictly increase, so no two are equal.
\<close>

theorem uids_increase:
  assumes "sorted clock" and "\<forall>now\<in>set clock. ep \<le> now \<and> unat (now - ep) < 2 ^ 42"
  shows "sorted_wrt (<) (Generate_many n (UIDGenerator_new w ep) clock)"
proof -
  let ?g = "UIDGenerator_new w ep"
  have "sorted (stamps ?g clock)"
    using assms by (induction clock) (auto simp: stamps_def UIDGenerator_new_def intro!: since_epoch_mono)
  then have "sorted (ug_last ?g # stamps ?g clock)" by (simp add: UIDGenerator_new_def)
  moreover have "\<forall>ts\<in>set (stamps ?g clock). unat ts < 2 ^ 42" using assms(2) by (simp add: stamps_def UIDGenerator_new_def)
  ultimately have "sorted_wrt (<) (uid_of (ug_last ?g) (ug_worker ?g) (ug_seq ?g) # Generate_many n ?g clock)"
    by (rule Generate_many_above [OF UIDGenerator_new_ok])
  then show ?thesis by simp
qed

theorem uids_increase_witness:
  "Generate_many 3 (UIDGenerator_new 1 1000) [1005, 1005, 1006] = [uid_of 5 1 0, uid_of 5 1 1, uid_of 6 1 0] \<and>
    sorted_wrt (<) (Generate_many 3 (UIDGenerator_new 1 1000) [1005, 1005, 1006])"
proof
  show "Generate_many 3 (UIDGenerator_new 1 1000) [1005, 1005, 1006] = [uid_of 5 1 0, uid_of 5 1 1, uid_of 6 1 0]"
    by (simp add: numeral_3_eq_3 Generate_def UIDGenerator_new_def)
  show "sorted_wrt (<) (Generate_many 3 (UIDGenerator_new 1 1000) [1005, 1005, 1006])" by (rule uids_increase) simp_all
qed

text \<open>
  \<open>Generate\<close> returns as soon as the clock shows a later millisecond: the loop it enters when the
  sequence numbers of a millisecond are used up ends with the first later reading.
\<close>

lemma Generate_returns:
  assumes "\<exists>later\<in>set clock. ug_last g < later - ug_epoch g"
  shows "\<exists>uid g' clock'. Generate g (now # clock) = Some (uid, g', clock')"
  using wait_next_some [OF order.refl assms] by (auto simp: Generate_def Let_def)

text \<open>
  An id determines the worker that made it, so generators with different worker numbers never give
  the same id.
\<close>

lemma workers_never_collide:
  assumes "gen_ok g" "gen_ok h" "ug_worker g \<noteq> ug_worker h"
    and "unat (ug_last g) < 2 ^ 42" "unat (ug_last h) < 2 ^ 42"
  shows "uid_of (ug_last g) (ug_worker g) (ug_seq g) \<noteq> uid_of (ug_last h) (ug_worker h) (ug_seq h)"
proof
  have worker: "unat (uid_of ts w seq) div 2 ^ 12 mod 2 ^ 10 = unat w"
    if "unat ts < 2 ^ 42" "unat w < 2 ^ 10" "unat seq < 2 ^ 12" for ts w seq
  proof -
    have "unat (uid_of ts w seq) = 2 ^ 12 * (unat ts * 2 ^ 10 + unat w) + unat seq"
      using unat_uid_of [OF that] by simp
    then have "unat (uid_of ts w seq) div 2 ^ 12 = unat ts * 2 ^ 10 + unat w" using that(3) by simp
    then show ?thesis using that(2) by simp
  qed
  assume "uid_of (ug_last g) (ug_worker g) (ug_seq g) = uid_of (ug_last h) (ug_worker h) (ug_seq h)"
  then have "unat (ug_worker g) = unat (ug_worker h)"
    using worker assms unfolding gen_ok_def by metis
  then show False using assms(3) by (simp add: word_unat_eq_iff)
qed

text \<open>
  A clock that is set back makes the generator give an id a second time: the sequence number starts
  again whenever the time stamp differs from the last one.
\<close>

lemma uids_repeat_when_clock_goes_back:
  assumes "later \<noteq> ep" and "earlier \<noteq> later"
  shows "\<exists>uid other. Generate_many 3 (UIDGenerator_new w ep) [later, earlier, later] = [uid, other, uid]"
  using assms by (simp add: numeral_3_eq_3 Generate_def UIDGenerator_new_def Let_def)

end
