(* ===== verification/Gateway.thy ===== *)
theory Gateway
  imports Db_Pool Snowflake Server_Redis
begin

text \<open>
  The HTTP gateway: what it asks of Redis, \<open>src/http/redis/gateway_redis.cpp\<close>, the request handler,
  \<open>src/http/req_handler.cpp\<close>, and a connection, \<open>src/http/http_server.cpp\<close>. The JSON library, the status
  service, Redis, MySQL, the random generator and the clock are arguments; commands that change Redis
  are values, collected in the order they are issued. The lemmas show that a token is given out only
  after the password was checked and the user's status claimed, what becomes of a login of a user who
  is online, and that a connection answers its requests one at a time and in order.
\<close>

section \<open>Redis\<close>

datatype gateway_cmd =
    Gw_Setex string int string
  | Gw_Hsetex string "(string \<times> string) list" int
  | Gw_Hset string "(string \<times> string) list"
  | Gw_Pexpire string string
  | Gw_Xadd string "(string \<times> string) list" int

definition RegisterUserToken :: "string \<Rightarrow> string \<Rightarrow> int \<Rightarrow> gateway_cmd" where
  "RegisterUserToken token user_id ttl = Gw_Setex (''token:'' @ token) ttl user_id"

definition UpdateUserInfo :: "u64 \<Rightarrow> string \<Rightarrow> string \<Rightarrow> gateway_cmd" where
  "UpdateUserInfo now user_id user_name =
    Gw_Hsetex (''userinfo:'' @ user_id) [(''user_name'', user_name), (''last_login'', to_string (unat now))] 3600000"

text \<open>
  The script runs as one step in Redis: its answer and the commands it issues. The result is whether
  the login may go on, and otherwise the server the user is on.
\<close>

definition login_script :: "(string \<Rightarrow> string \<Rightarrow> string option) \<Rightarrow> string \<Rightarrow> string \<Rightarrow> string \<times> gateway_cmd list" where
  "login_script hget key arg =
    (case hget key ''server_id'' of
       Some old_server \<Rightarrow> (old_server, [])
     | None \<Rightarrow> ('''', [Gw_Hset key [(''server_id'', ''unset''), (''status'', ''verifyed'')], Gw_Pexpire key arg]))"

definition UserLoginAttempt ::
  "(string \<Rightarrow> string \<Rightarrow> string option) \<Rightarrow> string \<Rightarrow> (bool \<times> string option) \<times> gateway_cmd list" where
  "UserLoginAttempt hget user_id =
    (let (ans, cmds) = login_script hget (''status:'' @ user_id) (to_string 60000)
     in if ans = '''' then ((True, None), cmds) else ((False, Some ans), cmds))"

definition SendServerKickCmd :: "string \<Rightarrow> u64 \<Rightarrow> gateway_cmd" where
  "SendServerKickCmd server_id uid =
    Gw_Xadd (''stream:serverctl:'' @ server_id) [(''type'', ''kick''), (''uid'', to_string (unat uid))] 1000"

section \<open>Requests and responses\<close>

datatype http_verb = Verb_Get | Verb_Post | Verb_Other

record http_request =
  rq_method :: http_verb
  rq_target :: string
  rq_version :: nat
  rq_keep_alive :: bool
  rq_body :: string

datatype json_value = J_Str string | J_Int int | J_Uint u64

datatype resp_body = Body_Text string | Body_Json "(string \<times> json_value) list"

record http_response =
  rs_status :: nat
  rs_version :: nat
  rs_content_type :: string
  rs_keep_alive :: bool
  rs_body :: resp_body

definition error_response :: "nat \<Rightarrow> http_request \<Rightarrow> string \<Rightarrow> http_response" where
  "error_response code req prompt =
    \<lparr>rs_status = code, rs_version = rq_version req, rs_content_type = ''text/html'', rs_keep_alive = rq_keep_alive req,
     rs_body = Body_Text prompt\<rparr>"

definition BadRequest :: "http_request \<Rightarrow> string \<Rightarrow> http_response" where
  "BadRequest req prompt = error_response 400 req prompt"

definition ForbiddenRequest :: "http_request \<Rightarrow> string \<Rightarrow> http_response" where
  "ForbiddenRequest req prompt = error_response 403 req prompt"

definition NotFound :: "http_request \<Rightarrow> http_response" where
  "NotFound req = error_response 404 req (''The resource '' @ [CHR 0x27] @ rq_target req @ [CHR 0x27] @ '' was not found.'')"

definition ServerError :: "http_request \<Rightarrow> string \<Rightarrow> http_response" where
  "ServerError req what = error_response 500 req what"

text \<open>A default constructed response has version 1.1.\<close>

definition json_response :: "nat \<Rightarrow> http_request \<Rightarrow> (string \<times> json_value) list \<Rightarrow> http_response" where
  "json_response code req obj =
    \<lparr>rs_status = code, rs_version = 11, rs_content_type = ''application/json'', rs_keep_alive = rq_keep_alive req,
     rs_body = Body_Json obj\<rparr>"

section \<open>The handler\<close>

text \<open>What the JSON library makes of a body: no document, fields that are no strings, or name and password.\<close>

datatype req_json = Req_Invalid | Req_Bad_Fields | Req_Fields string string

text \<open>
  \<open>gs_rpc\<close> is whether the call of the status service succeeds and the address in its answer, \<open>gs_b64\<close> the
  text \<open>EVP_EncodeBlock\<close> writes for the random bytes of a token, \<open>gs_clock\<close> the readings of the clock the
  generator of ids makes, \<open>gs_redis\<close> whether Redis answers; otherwise its calls throw.
\<close>

record gw_services =
  gs_json :: "string \<Rightarrow> req_json"
  gs_net :: "nat \<Rightarrow> conn_outcome"
  gs_crypto :: crypto
  gs_fill :: "nat \<Rightarrow> byte"
  gs_salt :: "byte list"
  gs_mysql :: mysql
  gs_rpc :: "bool \<times> string"
  gs_redis :: bool
  gs_hget :: "string \<Rightarrow> string \<Rightarrow> string option"
  gs_now :: u64
  gs_b64 :: string
  gs_clock :: "u64 list"

record gateway =
  gw_dbm :: dbm
  gw_uid_gen :: uid_generator
  gw_cmds :: "gateway_cmd list"

text \<open>
  What a handler comes to: \<open>None\<close> while its thread waits, an exception, or a response.
\<close>

type_synonym handled = "http_response result option \<times> gateway"

definition respond :: "http_response \<Rightarrow> gateway \<Rightarrow> handled" where
  "respond resp gw = (Some (Inr resp), gw)"

definition gw_issue :: "gateway_cmd list \<Rightarrow> gateway \<Rightarrow> gateway" where
  "gw_issue cmds gw = gw\<lparr>gw_cmds := gw_cmds gw @ cmds\<rparr>"

definition TokenGenerator :: "string \<Rightarrow> string" where
  "TokenGenerator b64 =
    filter (\<lambda>c. c \<noteq> CHR ''='') (map (\<lambda>c. if c = CHR ''+'' then CHR ''-'' else if c = CHR ''/'' then CHR ''_'' else c) b64)"

text \<open>\<open>LoginLogic\<close> from the call of the status service on.\<close>

definition login_verified :: "gw_services \<Rightarrow> http_request \<Rightarrow> string \<Rightarrow> u64 \<Rightarrow> gateway \<Rightarrow> handled" where
  "login_verified sv req username uid gw =
    (let (rpc_ok, addr) = gs_rpc sv; user_id = to_string (unat uid) in
     if \<not> rpc_ok then respond (ServerError req ''Server error'') gw
     else if \<not> gs_redis sv then (Some (Inl (Runtime_Error ''redis'')), gw)
     else
       (let gw = gw_issue [UpdateUserInfo (gs_now sv) user_id username] gw;
            (check_result, cmds) = UserLoginAttempt (gs_hget sv) user_id;
            gw = gw_issue cmds gw
        in if \<not> fst check_result then
             (case snd check_result of
                None \<Rightarrow> respond (ServerError req ''Server error'') gw
              | Some server \<Rightarrow>
                  if server = ''unset'' then respond (ForbiddenRequest req ''Another client is trying to login!'') gw
                  else
                    respond (json_response 409 req
                        [(''result'', J_Str ''retry''), (''message'', J_Str ''User already online, please retry later'')])
                      (gw_issue [SendServerKickCmd server uid] gw))
           else
             (let token = TokenGenerator (gs_b64 sv)
              in respond (json_response 200 req
                   [(''result'', J_Str ''ok''), (''token'', J_Str token), (''server_addr'', J_Str addr), (''uid'', J_Uint uid)])
                 (gw_issue [RegisterUserToken token user_id 50] gw))))"

definition LoginLogic :: "gw_services \<Rightarrow> http_request \<Rightarrow> gateway \<Rightarrow> handled" where
  "LoginLogic sv req gw =
    (case gs_json sv (rq_body req) of
       Req_Invalid \<Rightarrow> respond (BadRequest req ''Invalid request format'') gw
     | Req_Bad_Fields \<Rightarrow> respond (BadRequest req ''Invalid request format'') gw
     | Req_Fields username passcode \<Rightarrow>
         (let (ret, m) = DBM_VerifyUserInfo (gs_net sv) (gs_crypto sv) (gs_mysql sv) username passcode (gw_dbm gw);
              gw = gw\<lparr>gw_dbm := m\<rparr>
          in case ret of
               None \<Rightarrow> (None, gw)
             | Some (Inl ex) \<Rightarrow> (Some (Inl ex), gw)
             | Some (Inr (db_ret, uid)) \<Rightarrow>
                 if db_ret = GATEWAY_SUCCESS then login_verified sv req username (case uid of None \<Rightarrow> 0 | Some u \<Rightarrow> u) gw
                 else if db_ret = GATEWAY_USER_NOT_EXIST \<or> db_ret = GATEWAY_VERIFY_FAILED
                 then respond (ForbiddenRequest req ''Incorrect login username or password'') gw
                 else respond (ServerError req ''Server error'') gw))"

definition PostRegisterLogic :: "gw_services \<Rightarrow> http_request \<Rightarrow> gateway \<Rightarrow> handled" where
  "PostRegisterLogic sv req gw =
    (case gs_json sv (rq_body req) of
       Req_Invalid \<Rightarrow> respond (BadRequest req ''Invalid request format'') gw
     | Req_Bad_Fields \<Rightarrow> respond (BadRequest req ''Invalid request format'') gw
     | Req_Fields username passcode \<Rightarrow>
         (case Generate (gw_uid_gen gw) (gs_clock sv) of
            None \<Rightarrow> (None, gw)
          | Some (uid, gen, clock) \<Rightarrow>
              (let (ret, m) = DBM_RegisterNew (gs_net sv) (gs_crypto sv) (gs_fill sv) (gs_salt sv) (gs_mysql sv)
                     username passcode uid (gw_dbm gw);
                   gw = gw\<lparr>gw_uid_gen := gen, gw_dbm := m\<rparr>
               in case ret of
                    None \<Rightarrow> (None, gw)
                  | Some (Inl ex) \<Rightarrow> (Some (Inl ex), gw)
                  | Some (Inr (db_ret, row)) \<Rightarrow>
                      if db_ret = GATEWAY_SUCCESS
                      then respond (json_response 200 req [(''result'', J_Int 0), (''message'', J_Str ''success'')]) gw
                      else if db_ret = GATEWAY_REG_ALREADY_EXIST then respond (ForbiddenRequest req ''Username already exists'') gw
                      else if db_ret = GATEWAY_MYSQL_SERVER_ERROR then respond (ServerError req ''MySQL server error'') gw
                      else respond (ServerError req ''Server error'') gw)))"

definition PingLogic :: "http_request \<Rightarrow> http_response" where
  "PingLogic req =
    \<lparr>rs_status = 200, rs_version = 11, rs_content_type = ''text/html'', rs_keep_alive = rq_keep_alive req,
     rs_body = Body_Text ''pong''\<rparr>"

definition PostHandler :: "gw_services \<Rightarrow> http_request \<Rightarrow> gateway \<Rightarrow> handled" where
  "PostHandler sv req gw =
    (if rq_target req = ''/login'' then LoginLogic sv req gw
     else if rq_target req = ''/register'' then PostRegisterLogic sv req gw
     else if rq_target req = ''/ping'' then respond (PingLogic req) gw
     else respond (NotFound req) gw)"

definition GetHandler :: "http_request \<Rightarrow> http_response" where
  "GetHandler req =
    (if rq_target req = ''/login'' then BadRequest req ''Bad method for login''
     else if rq_target req = ''/register'' then BadRequest req ''Bad method for register''
     else if rq_target req = ''/ping'' then PingLogic req
     else NotFound req)"

definition RequestHandler :: "gw_services \<Rightarrow> http_request \<Rightarrow> gateway \<Rightarrow> handled" where
  "RequestHandler sv req gw =
    (case rq_method req of
       Verb_Get \<Rightarrow> respond (GetHandler req) gw
     | Verb_Post \<Rightarrow> PostHandler sv req gw
     | Verb_Other \<Rightarrow> respond (BadRequest req ''Unsupported HTTP-method for this server'') gw)"

section \<open>A connection\<close>

text \<open>
  A connection reads a request, waits for the handler, which runs on a thread pool, writes the
  response and reads again. \<open>hc_taken\<close> and \<open>hc_sent\<close> are the requests it passed on and the responses it
  started to write.
\<close>

datatype hc_phase = Hc_Reading | Hc_Handling http_request | Hc_Writing | Hc_Closed

record http_conn =
  hc_phase :: hc_phase
  hc_taken :: "http_request list"
  hc_sent :: "http_response list"

definition HTTPConnection_Start :: http_conn where
  "HTTPConnection_Start = \<lparr>hc_phase = Hc_Reading, hc_taken = [], hc_sent = []\<rparr>"

datatype hc_event = Hc_Read "http_request option" | Hc_Handled | Hc_Written bool

definition ReadRequest :: "http_conn \<Rightarrow> http_conn" where
  "ReadRequest s = s\<lparr>hc_phase := Hc_Reading\<rparr>"

definition hc_Close :: "http_conn \<Rightarrow> http_conn" where
  "hc_Close s = s\<lparr>hc_phase := Hc_Closed\<rparr>"

definition SendResponse :: "http_response \<Rightarrow> http_conn \<Rightarrow> http_conn" where
  "SendResponse msg s = s\<lparr>hc_phase := Hc_Writing, hc_sent := hc_sent s @ [msg]\<rparr>"

text \<open>\<open>answer\<close> is the response the handler computes; \<open>None\<close> in a read is an error, \<open>False\<close> in a write too.\<close>

definition hc_step :: "(http_request \<Rightarrow> http_response) \<Rightarrow> hc_event \<Rightarrow> http_conn \<Rightarrow> (unit \<times> http_conn) result" where
  "hc_step answer ev s =
    Inr ((), case (ev, hc_phase s) of
       (Hc_Read None, Hc_Reading) \<Rightarrow> hc_Close s
     | (Hc_Read (Some req), Hc_Reading) \<Rightarrow> s\<lparr>hc_phase := Hc_Handling req, hc_taken := hc_taken s @ [req]\<rparr>
     | (Hc_Handled, Hc_Handling req) \<Rightarrow> SendResponse (answer req) s
     | (Hc_Written ok, Hc_Writing) \<Rightarrow> if ok then ReadRequest s else hc_Close s
     | _ \<Rightarrow> s)"
section \<open>Lemmas\<close>

lemma DBM_VerifyUserInfo_success:
  assumes "DBM_VerifyUserInfo net c my username passcode m = (Some (Inr (GATEWAY_SUCCESS, uid)), m')"
  obtains u hash rows where "uid = Some u" "my_login my username = Some ((u, hash) # rows)" "Verify c passcode hash = Inr True"
proof -
  have "\<exists>d. DBConn_VerifyUserInfo c my d username passcode = Inr (GATEWAY_SUCCESS, uid)"
    using assms
    by (auto simp: DBM_VerifyUserInfo_def with_conn_def gateway_codes split: prod.splits idle.splits sum.splits)
  then show ?thesis
    using that
    by (auto simp: DBConn_VerifyUserInfo_def gateway_codes result_simps split: option.splits list.splits if_splits)
qed

text \<open>The outcomes of a login whose password was verified.\<close>

lemma login_verified_cases:
  assumes "gs_rpc sv = (True, addr)" and "gs_redis sv"
  shows "login_verified sv req username uid gw =
    (let info = UpdateUserInfo (gs_now sv) (to_string (unat uid)) username; token = TokenGenerator (gs_b64 sv) in
     case gs_hget sv (status_key uid) ''server_id'' of
       None \<Rightarrow>
         respond (json_response 200 req
             [(''result'', J_Str ''ok''), (''token'', J_Str token), (''server_addr'', J_Str addr), (''uid'', J_Uint uid)])
           (gw_issue [info, Gw_Hset (status_key uid) [(''server_id'', ''unset''), (''status'', ''verifyed'')],
              Gw_Pexpire (status_key uid) (to_string 60000), RegisterUserToken token (to_string (unat uid)) 50] gw)
     | Some server \<Rightarrow>
         if server = '''' then
           respond (json_response 200 req
               [(''result'', J_Str ''ok''), (''token'', J_Str token), (''server_addr'', J_Str addr), (''uid'', J_Uint uid)])
             (gw_issue [info, RegisterUserToken token (to_string (unat uid)) 50] gw)
         else if server = ''unset'' then respond (ForbiddenRequest req ''Another client is trying to login!'') (gw_issue [info] gw)
         else
           respond (json_response 409 req
               [(''result'', J_Str ''retry''), (''message'', J_Str ''User already online, please retry later'')])
             (gw_issue [info, SendServerKickCmd server uid] gw))"
  using assms
  by (simp add: login_verified_def UserLoginAttempt_def login_script_def status_key_def gw_issue_def Let_def split: option.splits)

lemma login_verified_200:
  assumes "login_verified sv req username uid gw = (Some (Inr resp), gw')" and "rs_status resp = 200"
  shows "\<exists>addr. gs_rpc sv = (True, addr) \<and> gs_redis sv"
proof -
  obtain ok addr where rpc: "gs_rpc sv = (ok, addr)" by fastforce
  have ok
  proof (rule ccontr)
    assume "\<not> ok"
    then have "login_verified sv req username uid gw = respond (ServerError req ''Server error'') gw"
      using rpc by (simp add: login_verified_def)
    then show False using assms by (auto simp: respond_def ServerError_def error_response_def)
  qed
  moreover have "gs_redis sv"
  proof (rule ccontr)
    assume "\<not> gs_redis sv"
    then have "login_verified sv req username uid gw = (Some (Inl (Runtime_Error ''redis'')), gw)"
      using rpc \<open>ok\<close> by (simp add: login_verified_def)
    then show False using assms by simp
  qed
  ultimately show ?thesis using rpc by simp
qed

lemma token_chars: "set (TokenGenerator b64) \<inter> {CHR ''+'', CHR ''/'', CHR ''=''} = {}"
  by (auto simp: TokenGenerator_def split: if_splits)

text \<open>Requests taken and responses sent.\<close>

definition hc_ok :: "(http_request \<Rightarrow> http_response) \<Rightarrow> http_conn \<Rightarrow> bool" where
  "hc_ok answer s =
    (case hc_phase s of
       Hc_Handling req \<Rightarrow> \<exists>reqs. hc_taken s = reqs @ [req] \<and> hc_sent s = map answer reqs
     | _ \<Rightarrow> hc_sent s = map answer (hc_taken s))"

lemma hc_ok_step: "hc_ok answer s \<Longrightarrow> hc_step answer ev s = Inr (out, s') \<Longrightarrow> hc_ok answer s'"
  by (auto simp: hc_step_def hc_ok_def hc_Close_def ReadRequest_def SendResponse_def
      split: hc_event.splits hc_phase.splits option.splits if_splits)

interpretation hc: run_invariant "hc_step answer" "hc_ok answer" for answer
  by unfold_locales (rule hc_ok_step)

lemma LoginLogic_200:
  assumes "LoginLogic sv req gw = (Some (Inr resp), gw')" and "rs_status resp = 200"
  shows "\<exists>username passcode uid hash rows addr token. gs_json sv (rq_body req) = Req_Fields username passcode \<and>
    my_login (gs_mysql sv) username = Some ((uid, hash) # rows) \<and> Verify (gs_crypto sv) passcode hash = Inr True \<and>
    gs_rpc sv = (True, addr) \<and> gs_hget sv (status_key uid) ''server_id'' \<in> {None, Some ''''} \<and>
    rs_body resp = Body_Json [(''result'', J_Str ''ok''), (''token'', J_Str token), (''server_addr'', J_Str addr), (''uid'', J_Uint uid)] \<and>
    last (gw_cmds gw') = Gw_Setex (''token:'' @ token) 50 (to_string (unat uid)) \<and>
    set token \<inter> {CHR ''+'', CHR ''/'', CHR ''=''} = {}"
proof -
  obtain username passcode where json: "gs_json sv (rq_body req) = Req_Fields username passcode"
    using assms by (cases "gs_json sv (rq_body req)")
      (auto simp: LoginLogic_def respond_def BadRequest_def error_response_def)
  obtain ret m where db: "DBM_VerifyUserInfo (gs_net sv) (gs_crypto sv) (gs_mysql sv) username passcode (gw_dbm gw) = (ret, m)"
    by fastforce
  obtain uid' where ok: "ret = Some (Inr (GATEWAY_SUCCESS, uid'))"
    and login: "login_verified sv req username (case uid' of None \<Rightarrow> 0 | Some u \<Rightarrow> u) (gw\<lparr>gw_dbm := m\<rparr>) = (Some (Inr resp), gw')"
    using assms json db
    by (auto simp: LoginLogic_def Let_def respond_def ForbiddenRequest_def ServerError_def error_response_def
        split: option.splits sum.splits if_splits)
  obtain uid hash rows where uid: "uid' = Some uid" "my_login (gs_mysql sv) username = Some ((uid, hash) # rows)"
      "Verify (gs_crypto sv) passcode hash = Inr True"
    using DBM_VerifyUserInfo_success [of "gs_net sv" "gs_crypto sv" "gs_mysql sv" username passcode "gw_dbm gw" uid' m] db ok by blast
  obtain addr where rpc: "gs_rpc sv = (True, addr)" "gs_redis sv"
    using login_verified_200 [OF login assms(2)] by blast
  have "gs_hget sv (status_key uid) ''server_id'' \<in> {None, Some ''''} \<and>
      rs_body resp = Body_Json [(''result'', J_Str ''ok''), (''token'', J_Str (TokenGenerator (gs_b64 sv))),
        (''server_addr'', J_Str addr), (''uid'', J_Uint uid)] \<and>
      last (gw_cmds gw') = Gw_Setex (''token:'' @ TokenGenerator (gs_b64 sv)) 50 (to_string (unat uid))"
    using login assms(2) uid(1) unfolding login_verified_cases [OF rpc]
    by (auto simp: Let_def respond_def json_response_def ForbiddenRequest_def error_response_def gw_issue_def RegisterUserToken_def
        split: option.splits if_splits)
  then show ?thesis using json uid(2,3) rpc(1) token_chars by blast
qed

lemma LoginLogic_verified:
  assumes "gs_json sv (rq_body req) = Req_Fields username passcode"
    and "DBM_VerifyUserInfo (gs_net sv) (gs_crypto sv) (gs_mysql sv) username passcode (gw_dbm gw) = (Some (Inr (GATEWAY_SUCCESS, Some uid)), m)"
  shows "LoginLogic sv req gw = login_verified sv req username uid (gw\<lparr>gw_dbm := m\<rparr>)"
  using assms by (simp add: LoginLogic_def)

section \<open>An example\<close>

text \<open>User 7 logs in with the password of the stored hash; the second argument is the status of user 7 in Redis.\<close>

definition ex_gw_services :: "string \<Rightarrow> string option \<Rightarrow> gw_services" where
  "ex_gw_services hash status =
    \<lparr>gs_json = (\<lambda>_. Req_Fields ''u'' ''pw''), gs_net = (\<lambda>_. Connect_Done), gs_crypto = ex_crypto, gs_fill = (\<lambda>_. 0),
     gs_salt = replicate 16 7, gs_mysql = \<lparr>my_login = (\<lambda>_. Some [(7, hash)]), my_count = (\<lambda>_. Some 0), my_insert = (\<lambda>_. Some True)\<rparr>,
     gs_rpc = (True, ''10.0.0.1:1235''), gs_redis = True, gs_hget = (\<lambda>k f. if k = status_key 7 then status else None),
     gs_now = 0, gs_b64 = ''ab+/'', gs_clock = [1]\<rparr>"

definition ex_gateway :: gateway where
  "ex_gateway = \<lparr>gw_dbm = DBM_new\<lparr>dbm_obj := (\<lambda>_. \<lparr>dc_valid = True, dc_open = True, dc_stmts = True\<rparr>), dbm_next := 1,
     dbm_conns := [0], dbm_size := 1, dbm_cap := 1, dbm_running := True, dbm_free := [0]\<rparr>, gw_uid_gen = UIDGenerator_new 0 1577836800000, gw_cmds = []\<rparr>"

definition ex_login :: http_request where
  "ex_login = \<lparr>rq_method = Verb_Post, rq_target = ''/login'', rq_version = 11, rq_keep_alive = True, rq_body = ''...''\<rparr>"

definition ex_hash :: string where
  "ex_hash = HashPassword ex_crypto (\<lambda>_. 0) (replicate 16 7) ''pw'' default_iter"

lemma ex_LoginLogic:
  "LoginLogic (ex_gw_services ex_hash status) ex_login ex_gateway =
    login_verified (ex_gw_services ex_hash status) ex_login ''u'' 7 ex_gateway"
proof -
  have "Verify ex_crypto ''pw'' ex_hash = Inr True"
    unfolding ex_hash_def by (subst Verify_HashPassword [OF ex_crypto_ok]) (simp_all add: default_iter_def ex_crypto_def)
  then show ?thesis
    by (simp add: LoginLogic_def ex_gw_services_def DBM_VerifyUserInfo_def with_conn_def ex_gateway_def GetIdleConn_free
        DBConn_VerifyUserInfo_def ReturnIdleConn_def DBM_new_def)
qed

section \<open>Properties\<close>

text \<open>
  C25: a token is given out only for a password that matches the stored hash of the user, at a time when
  no server and no other login holds the status of the user. The response then carries the token, the
  address the status service gave and the user id of the database, and the token is registered for that
  id in Redis. The token needs no escaping in a URL.
\<close>

theorem token_needs_password:
  assumes "LoginLogic sv req gw = (Some (Inr resp), gw')" and "rs_status resp = 200"
  shows "\<exists>username passcode uid hash rows addr token. gs_json sv (rq_body req) = Req_Fields username passcode \<and>
    my_login (gs_mysql sv) username = Some ((uid, hash) # rows) \<and> Verify (gs_crypto sv) passcode hash = Inr True \<and>
    gs_rpc sv = (True, addr) \<and> gs_hget sv (status_key uid) ''server_id'' \<in> {None, Some ''''} \<and>
    rs_body resp = Body_Json [(''result'', J_Str ''ok''), (''token'', J_Str token), (''server_addr'', J_Str addr), (''uid'', J_Uint uid)] \<and>
    last (gw_cmds gw') = Gw_Setex (''token:'' @ token) 50 (to_string (unat uid)) \<and>
    set token \<inter> {CHR ''+'', CHR ''/'', CHR ''=''} = {}"
  using assms by (rule LoginLogic_200)

theorem token_needs_password_witness:
  "\<exists>resp gw'. LoginLogic (ex_gw_services ex_hash None) ex_login ex_gateway = (Some (Inr resp), gw') \<and> rs_status resp = 200 \<and>
    (\<exists>username passcode uid hash rows addr token. gs_json (ex_gw_services ex_hash None) (rq_body ex_login) = Req_Fields username passcode \<and>
    my_login (gs_mysql (ex_gw_services ex_hash None)) username = Some ((uid, hash) # rows) \<and>
    Verify (gs_crypto (ex_gw_services ex_hash None)) passcode hash = Inr True \<and>
    gs_rpc (ex_gw_services ex_hash None) = (True, addr) \<and>
    gs_hget (ex_gw_services ex_hash None) (status_key uid) ''server_id'' \<in> {None, Some ''''} \<and>
    rs_body resp = Body_Json [(''result'', J_Str ''ok''), (''token'', J_Str token), (''server_addr'', J_Str addr), (''uid'', J_Uint uid)] \<and>
    last (gw_cmds gw') = Gw_Setex (''token:'' @ token) 50 (to_string (unat uid)) \<and>
    set token \<inter> {CHR ''+'', CHR ''/'', CHR ''=''} = {})"
proof -
  have sv: "gs_rpc (ex_gw_services ex_hash None) = (True, ''10.0.0.1:1235'')" "gs_redis (ex_gw_services ex_hash None)"
    by (simp_all add: ex_gw_services_def)
  obtain resp gw' where r: "LoginLogic (ex_gw_services ex_hash None) ex_login ex_gateway = (Some (Inr resp), gw')" "rs_status resp = 200"
    unfolding ex_LoginLogic login_verified_cases [OF sv]
    by (simp add: ex_gw_services_def respond_def json_response_def Let_def)
  show ?thesis
    by (rule exI [of _ resp], rule exI [of _ gw'], rule conjI [OF r(1) conjI [OF r(2) token_needs_password [OF r]]])
qed

text \<open>
  Only a login and a registration with the method POST reach the database, Redis or the generator of
  ids. Every other request is answered at once, and leaves the gateway as it was.
\<close>

lemma other_requests_change_nothing:
  assumes "rq_method req \<noteq> Verb_Post \<or> rq_target req \<notin> {''/login'', ''/register''}"
  shows "\<exists>resp. RequestHandler sv req gw = (Some (Inr resp), gw) \<and>
    rs_status resp = (if rq_method req = Verb_Other then 400 else if rq_target req = ''/ping'' then 200
      else if rq_target req \<in> {''/login'', ''/register''} then 400 else 404) \<and>
    rs_keep_alive resp = rq_keep_alive req"
  using assms
  by (cases "rq_method req")
    (auto simp: RequestHandler_def GetHandler_def PostHandler_def respond_def BadRequest_def NotFound_def
      error_response_def PingLogic_def)

text \<open>
  A connection answers its requests one after the other: the responses it started to write are the
  answers to the requests it took, in their order, with at most the last one missing, and it reads
  only when nothing is left to answer.
\<close>

lemma connection_answers_in_order:
  assumes "run_steps (hc_step answer) evs HTTPConnection_Start = Inr (outs, s)"
  shows "hc_sent s = map answer (take (length (hc_sent s)) (hc_taken s)) \<and> length (hc_taken s) \<le> Suc (length (hc_sent s)) \<and>
    (hc_phase s = Hc_Reading \<longrightarrow> hc_sent s = map answer (hc_taken s))"
proof -
  have "hc_ok answer HTTPConnection_Start" by (simp add: hc_ok_def HTTPConnection_Start_def)
  from hc.run_keeps [OF this assms] show ?thesis by (auto simp: hc_ok_def split: hc_phase.splits)
qed

end
