(* ===== verification/Server_Node.thy ===== *)
theory Server_Node
  imports Backend Status_Server
begin

text \<open>
  A backend server as a whole: its command line, \<open>src/server/server_main.cpp\<close>, the reports of its load to
  the status server, \<open>src/server/status_reporter.cpp\<close>, and its start, \<open>src/include/server/server_class.hpp\<close>.
  A report is a call into the model of the status server, so the lemmas are about the two programs
  together: a report reaches the registry with the number of sessions, and registers a server the
  status server does not know; but a server that was dropped from the last slot of the heap and comes
  back with its next report makes the status server write out of bounds.
\<close>

section \<open>Command line\<close>

record server_config =
  cf_id :: u32
  cf_addr :: string
  cf_port :: u32

text \<open>\<open>None\<close> is the exit with the usage; the numbers are converted with \<open>std::stoul\<close> and truncated.\<close>

definition server_args :: "string list \<Rightarrow> server_config option result" where
  "server_args argv =
    (let addr = ''192.168.56.101:'' @ to_string 1235 in
     case argv of
       [prog] \<Rightarrow> Inr (Some \<lparr>cf_id = 100, cf_addr = addr, cf_port = 1235\<rparr>)
     | [prog, a1] \<Rightarrow> bindR (stoul a1) (\<lambda>id. Inr (Some \<lparr>cf_id = ucast id, cf_addr = addr, cf_port = 1235\<rparr>))
     | [prog, a1, a2] \<Rightarrow>
         bindR (stoul a1) (\<lambda>id. Inr (Some \<lparr>cf_id = ucast id, cf_addr = a2 @ '':3000'', cf_port = 1235\<rparr>))
     | [prog, a1, a2, a3] \<Rightarrow>
         bindR (stoul a1) (\<lambda>id. bindR (stoul a3) (\<lambda>port.
           let listen_port = ucast port :: u32
           in Inr (Some \<lparr>cf_id = ucast id, cf_addr = a2 @ '':'' @ to_string (unat listen_port), cf_port = listen_port\<rparr>)))
     | _ \<Rightarrow> Inr None)"

section \<open>The reporter\<close>

record reporter =
  rp_id :: u32
  rp_addr :: string
  rp_timer :: timed_task
  rp_stopped :: bool

definition StatusReporter_new :: "server_config \<Rightarrow> reporter" where
  "StatusReporter_new cf =
    \<lparr>rp_id = cf_id cf, rp_addr = cf_addr cf, rp_timer = Activate (SetTimer True TimedTask_new), rp_stopped = False\<rparr>"

text \<open>
  A call of the status service: its status, \<open>UNKNOWN\<close> when the server cannot be reached, and the state of
  the status server. \<open>now\<close> is its clock and \<open>p\<close> the address its allocator gives.
\<close>

record link =
  lk_up :: bool
  lk_now :: u64
  lk_alloc :: nat

definition ReportLoad :: "link \<Rightarrow> u32 \<Rightarrow> u32 \<Rightarrow> status_server \<Rightarrow> (grpc_code \<times> status_server) result" where
  "ReportLoad lk sid load st =
    (if \<not> lk_up lk then Inr (UNKNOWN, st)
     else bindR (ReportServerLoad sid load (lk_now lk) st) (\<lambda>((status, ret), st). Inr (fst status, st)))"

definition ReportServerRegister :: "link \<Rightarrow> u32 \<Rightarrow> string \<Rightarrow> u32 \<Rightarrow> status_server \<Rightarrow> (grpc_code \<times> status_server) result" where
  "ReportServerRegister lk sid addr load st =
    (if \<not> lk_up lk then Inr (UNKNOWN, st)
     else bindR (RegisterServer sid addr load (lk_now lk) (lk_alloc lk) st) (\<lambda>((status, ret), st). Inr (fst status, st)))"

definition ReportServerLeave :: grpc_code where
  "ReportServerLeave = UNIMPLEMENTED"

definition Register :: "link \<Rightarrow> reporter \<Rightarrow> session_manager \<Rightarrow> status_server \<Rightarrow> (bool \<times> status_server) result" where
  "Register lk r m st =
    bindR (GetSessionCount m) (\<lambda>n.
    bindR (ReportServerRegister lk (rp_id r) (rp_addr r) n st) (\<lambda>(status, st). Inr (status = GRPC_OK, st)))"

definition ReportImpl :: "link \<Rightarrow> reporter \<Rightarrow> session_manager \<Rightarrow> status_server \<Rightarrow> status_server result" where
  "ReportImpl lk r m st =
    bindR (GetSessionCount m) (\<lambda>sess_count.
    bindR (GetTempSessionCount m) (\<lambda>tmps_count.
    bindR (ReportLoad lk (rp_id r) (sess_count + tmps_count) st) (\<lambda>(status, st).
      if status = NOT_FOUND then
        bindR (ReportServerRegister lk (rp_id r) (rp_addr r) (sess_count + tmps_count) st) (\<lambda>(status, st). Inr st)
      else Inr st)))"

definition rp_UpdateNow :: "link \<Rightarrow> reporter \<Rightarrow> session_manager \<Rightarrow> status_server \<Rightarrow> (reporter \<times> status_server) result" where
  "rp_UpdateNow lk r m st =
    (let r = r\<lparr>rp_timer := Cancel (rp_timer r)\<rparr> in
     bindR (ReportImpl lk r m st) (\<lambda>st. Inr (r\<lparr>rp_timer := Activate (rp_timer r)\<rparr>, st)))"

definition ResetTimer :: "reporter \<Rightarrow> reporter" where
  "ResetTimer r = r\<lparr>rp_timer := Activate (Cancel (rp_timer r))\<rparr>"

definition StartTimer :: "reporter \<Rightarrow> reporter" where
  "StartTimer r = r\<lparr>rp_timer := Activate (rp_timer r)\<rparr>"

text \<open>\<open>Stop\<close> cancels the task and takes it off the list of the timer manager; the second call does nothing.\<close>

definition rp_Stop :: "reporter \<Rightarrow> reporter" where
  "rp_Stop r = (if rp_stopped r then r else r\<lparr>rp_stopped := True, rp_timer := Cancel (Cancel (rp_timer r))\<rparr>)"

text \<open>\<open>Listen\<close>: the server registers and starts to accept.\<close>

definition Listen :: "link \<Rightarrow> reporter \<Rightarrow> backend \<Rightarrow> status_server \<Rightarrow> (bool \<times> status_server) result" where
  "Listen lk r be st = Register lk r (be_mgr be) st"

section \<open>Lemmas\<close>

lemma mgr_counts:
  assumes "\<not> mgr_lck m" "\<not> mgr_temp_lck m"
  shows "GetSessionCount m = Inr (of_nat (card (dom (mgr_sess m))))" "GetTempSessionCount m = Inr (of_nat (card (mgr_temp m)))"
  using assms by (simp_all add: GetSessionCount_def GetTempSessionCount_def)

definition mgr_load :: "session_manager \<Rightarrow> u32" where
  "mgr_load m = of_nat (card (dom (mgr_sess m)) + card (mgr_temp m))"

lemma ReportImpl_load:
  assumes "\<not> mgr_lck m" "\<not> mgr_temp_lck m" "lk_up lk"
  shows "ReportImpl lk r m st =
    bindR (UpdateServerLoad (ss_lb st) (rp_id r) (mgr_load m) (lk_now lk)) (\<lambda>(ret, lb).
      if ret then Inr (st\<lparr>ss_lb := lb\<rparr>)
      else bindR (RegisterServer (rp_id r) (rp_addr r) (mgr_load m) (lk_now lk) (lk_alloc lk) (st\<lparr>ss_lb := lb\<rparr>)) (\<lambda>(ret, st). Inr st))"
  using assms
  by (auto simp: ReportImpl_def ReportLoad_def ReportServerRegister_def ReportServerLoad_def mgr_counts mgr_load_def
      bindR_def split: sum.splits if_splits)

lemma CheckTTL_loop_alive:
  "(\<And>x. x \<in> set ids \<Longrightarrow> \<exists>s. registry lb x = Some s \<and> \<not> timed_out now s) \<Longrightarrow> CheckTTL_loop (\<lambda>_. now) ids n k lb = Inr (k, lb)"
proof (induction ids arbitrary: n)
  case (Cons x ids)
  obtain s where s: "registry lb x = Some s" "\<not> timed_out now s" using Cons.prems by fastforce
  then have "the (lb_mem lb (the (lb_hm lb x))) = s" by (auto simp: registry_def bind_eq_Some_conv)
  then show ?case using Cons s by simp
qed simp

lemma CheckTTL_loop_one:
  assumes inv: "lb_inv lb" and s: "registry lb sid = Some s" "timed_out now s"
    and h': "AnyRemove (GetID (lb_mem lb)) (SrvInfoComp (lb_mem lb)) (lb_heap lb) sid = Inr h'"
      "registry (hm_erase (lb\<lparr>lb_heap := h'\<rparr>) sid) = (registry lb)(sid := None)"
  shows "distinct ids \<Longrightarrow> sid \<in> set ids \<Longrightarrow> (\<And>x. x \<in> set ids \<Longrightarrow> x \<noteq> sid \<Longrightarrow> \<exists>y. registry lb x = Some y \<and> \<not> timed_out now y) \<Longrightarrow>
    \<exists>k'. CheckTTL_loop (\<lambda>_. now) ids n k lb = Inr (k', hm_erase (lb\<lparr>lb_heap := h'\<rparr>) sid)"
proof (induction ids arbitrary: n k)
  case (Cons x ids)
  have cell: "the (lb_mem lb (the (lb_hm lb x))) = y" if "registry lb x = Some y" for x y
    using that by (auto simp: registry_def bind_eq_Some_conv)
  show ?case
  proof (cases "x = sid")
    case True
    have "CheckTTL_loop (\<lambda>_. now) ids (Suc n) (k + 1) (hm_erase (lb\<lparr>lb_heap := h'\<rparr>) sid) = Inr (k + 1, hm_erase (lb\<lparr>lb_heap := h'\<rparr>) sid)"
      using Cons.prems True by (intro CheckTTL_loop_alive) (auto simp: h'(2))
    then show ?thesis using True s cell [OF s(1)] registry_id [OF inv s(1)] h'(1) by simp
  next
    case False
    obtain y where y: "registry lb x = Some y" "\<not> timed_out now y" using Cons.prems(3) [of x] False by auto
    have "sid \<in> set ids" "distinct ids" using Cons.prems False by auto
    from Cons.IH [OF this(2,1), of "Suc n" k] Cons.prems(3) show ?thesis using y cell [OF y(1)] by simp
  qed
qed simp

text \<open>A report, with the registration that follows when the status server does not know the backend.\<close>

lemma ReportImpl_registers:
  assumes inv: "lb_inv (ss_lb st)" "small_loads (ss_lb st)" "lb_mem (ss_lb st) (lk_alloc lk) = None"
    and stale: "rp_id r \<in> dom (registry (ss_lb st)) \<or> rp_id r \<notin> stale_ids (ss_lb st)"
    and m: "\<not> mgr_lck m" "\<not> mgr_temp_lck m" "small_load (mgr_load m)" and up: "lk_up lk"
  shows "\<exists>st' s. ReportImpl lk r m st = Inr st' \<and> lb_inv (ss_lb st') \<and>
    registry (ss_lb st') = (registry (ss_lb st))(rp_id r \<mapsto> s) \<and> si_load s = mgr_load m \<and> \<not> timed_out (lk_now lk) s"
proof (cases "registry (ss_lb st) (rp_id r)")
  case None
  obtain lb' where lb': "RegisterServerInfo (ss_lb st) (rp_id r) (rp_addr r) (mgr_load m) (lk_now lk) (lk_alloc lk) = Inr (True, lb')"
      "lb_inv lb'" "registry lb' = (registry (ss_lb st))(rp_id r \<mapsto> ServerInfo_new (rp_id r) (rp_addr r) (mgr_load m) (lk_now lk))"
    using RegisterServerInfo_ok [OF inv(1,2) m(3) stale inv(3)] by blast
  have "ReportImpl lk r m st = Inr (st\<lparr>ss_lb := lb', ss_up := UpdateNow (ss_up st)\<rparr>)"
    unfolding ReportImpl_load [OF m(1,2) up] UpdateServerLoad_unknown [OF inv(1) None]
    using lb'(1) by (simp add: RegisterServer_def)
  then show ?thesis using lb' by (auto simp: ServerInfo_new_def timed_out_def SERVER_TIMEOUT_def)
next
  case (Some s0)
  obtain lb' where lb': "UpdateServerLoad (ss_lb st) (rp_id r) (mgr_load m) (lk_now lk) = Inr (True, lb')" "lb_inv lb'"
      "registry lb' = (registry (ss_lb st))(rp_id r \<mapsto> s0\<lparr>si_load := mgr_load m, si_last_ts := lk_now lk\<rparr>)"
    using UpdateServerLoad_ok [OF inv(1) Some] small_loadsD [OF inv(2) Some] m(3) by blast
  then show ?thesis
    unfolding ReportImpl_load [OF m(1,2) up] by (auto simp: timed_out_def SERVER_TIMEOUT_def)
qed

section \<open>Properties\<close>

text \<open>
  C33: a report of a backend reaches the status server: afterwards its registry has the server, alive, with
  the number of connections the backend has, whether the status server knew it or not, as long as the
  server was not dropped in a way that left its id in the heap. Other servers are untouched.
\<close>

theorem report_reaches_registry:
  assumes inv: "lb_inv (ss_lb st)" "small_loads (ss_lb st)" "lb_mem (ss_lb st) (lk_alloc lk) = None"
    and stale: "rp_id r \<in> dom (registry (ss_lb st)) \<or> rp_id r \<notin> stale_ids (ss_lb st)"
    and m: "\<not> mgr_lck m" "\<not> mgr_temp_lck m" "small_load (mgr_load m)" and up: "lk_up lk"
  shows "\<exists>st' s. ReportImpl lk r m st = Inr st' \<and> lb_inv (ss_lb st') \<and>
    registry (ss_lb st') = (registry (ss_lb st))(rp_id r \<mapsto> s) \<and> si_load s = mgr_load m \<and> \<not> timed_out (lk_now lk) s"
  using assms by (rule ReportImpl_registers)

theorem report_reaches_registry_witness:
  "\<exists>st' s. ReportImpl \<lparr>lk_up = True, lk_now = 500, lk_alloc = 9\<rparr> (StatusReporter_new \<lparr>cf_id = 100, cf_addr = ''h:1'', cf_port = 1\<rparr>)
      (be_mgr (ex_server [])) one_server = Inr st' \<and> lb_inv (ss_lb st') \<and>
    registry (ss_lb st') = (registry (ss_lb one_server))(100 \<mapsto> s) \<and> si_load s = 3 \<and> \<not> timed_out 500 s"
proof -
  let ?lk = "\<lparr>lk_up = True, lk_now = 500, lk_alloc = 9\<rparr>"
  let ?r = "StatusReporter_new \<lparr>cf_id = 100, cf_addr = ''h:1'', cf_port = 1\<rparr>"
  have load: "mgr_load (be_mgr (ex_server [])) = 3" by (simp add: mgr_load_def)
  have "small_loads (ss_lb one_server)" by (simp add: small_loads_def one_server_registry small_load_def)
  moreover have "rp_id ?r \<notin> stale_ids (ss_lb one_server)" by (simp add: StatusReporter_new_def stale_ids_def one_server_def)
  ultimately show ?thesis
    using report_reaches_registry [of one_server ?lk ?r "be_mgr (ex_server [])"] one_server_inv
    by (simp add: load small_load_def StatusReporter_new_def) (simp add: one_server_def)
qed

text \<open>
  The sweep of the status server and the reports of a backend work against each other. When the sweep
  drops the server in the last slot of the heap, the backend's next report is answered with
  \<open>NOT_FOUND\<close>, the backend registers again, and the status server runs into undefined behaviour.
\<close>

lemma report_after_sweep_undefined:
  assumes inv: "lb_inv (ss_lb st)" and s: "registry (ss_lb st) (rp_id r) = Some s" "timed_out now s" "last_slot (ss_lb st) (rp_id r)"
    and rest: "\<And>x y. x \<noteq> rp_id r \<Longrightarrow> registry (ss_lb st) x = Some y \<Longrightarrow> \<not> timed_out now y"
    and ids: "distinct ids" "set ids = dom (registry (ss_lb st))"
    and m: "\<not> mgr_lck m" "\<not> mgr_temp_lck m" and up: "lk_up lk"
  shows "\<exists>k lb'. CheckTTL (\<lambda>_. now) ids (ss_lb st) = Inr (k, lb') \<and> ReportImpl lk r m (st\<lparr>ss_lb := lb'\<rparr>) = Inl Undefined_Behaviour"
proof -
  let ?lb = "ss_lb st"
  obtain h' where h': "AnyRemove (GetID (lb_mem ?lb)) (SrvInfoComp (lb_mem ?lb)) (lb_heap ?lb) (rp_id r) = Inr h'"
      "lb_inv (hm_erase (?lb\<lparr>lb_heap := h'\<rparr>) (rp_id r))"
      "registry (hm_erase (?lb\<lparr>lb_heap := h'\<rparr>) (rp_id r)) = (registry ?lb)(rp_id r := None)"
      "heap_idx h' (rp_id r) = Some (length (heap_vec h'))"
    using AnyRemove_hm_erase [OF inv s(1)] s(3) by blast
  let ?lb' = "hm_erase (?lb\<lparr>lb_heap := h'\<rparr>) (rp_id r)"
  have "\<exists>y. registry ?lb x = Some y \<and> \<not> timed_out now y" if "x \<in> set ids" "x \<noteq> rp_id r" for x
    using that rest ids(2) by (auto simp: dom_def)
  moreover have "rp_id r \<in> set ids" using ids(2) s(1) by auto
  ultimately obtain k where k: "CheckTTL (\<lambda>_. now) ids ?lb = Inr (k, ?lb')"
    unfolding CheckTTL_def using CheckTTL_loop_one [OF inv s(1,2) h'(1,3) ids(1), of 0 0] by blast
  have none: "registry ?lb' (rp_id r) = None" using h'(3) by simp
  have "lb_heap ?lb' = h'" by (simp add: hm_erase_def split: option.split)
  then have "RegisterServerInfo ?lb' (rp_id r) (rp_addr r) (mgr_load m) (lk_now lk) (lk_alloc lk) = Inl Undefined_Behaviour"
    using h'(4) by (intro RegisterServerInfo_stale [OF h'(2) none]) auto
  then have "ReportImpl lk r m (st\<lparr>ss_lb := ?lb'\<rparr>) = Inl Undefined_Behaviour"
    unfolding ReportImpl_load [OF m up]
    using UpdateServerLoad_unknown [OF h'(2) none] by (simp add: RegisterServer_def)
  with k show ?thesis by blast
qed

definition swept_server :: status_server where
  "swept_server = one_server\<lparr>ss_lb :=
    \<lparr>lb_heap = \<lparr>heap_vec = [0, 1], heap_idx = [7 \<mapsto> 0, 8 \<mapsto> 1]\<rparr>, lb_hm = [7 \<mapsto> 0, 8 \<mapsto> 1],
     lb_mem = [0 \<mapsto> \<lparr>si_id = 7, si_addr = ''h1'', si_load = 4, si_last_ts = 100000\<rparr>,
               1 \<mapsto> \<lparr>si_id = 8, si_addr = ''h2'', si_load = 9, si_last_ts = 100\<rparr>]\<rparr>\<rparr>"

lemma swept_server_inv: "lb_inv (ss_lb swept_server)"
  by (auto simp: swept_server_def lb_inv_def heap_ok_def is_heap_def idx_ok_def GetID_def SrvInfoComp_def less_Suc_eq
      heap_parent_def split: if_splits)

text \<open>
  The address a server advertises names the port it listens on, unless it is started with an id and
  an address: then it advertises port 3000 and listens on port 1235.
\<close>

lemma advertised_port:
  assumes "server_args argv = Inr (Some cf)"
  shows "\<exists>host. cf_addr cf = host @ '':'' @ (if length argv = 3 then to_string 3000 else to_string (unat (cf_port cf))) \<and>
    (length argv = 3 \<longrightarrow> cf_port cf = 1235)"
proof -
  have port: "'':3000'' = '':'' @ to_string 3000" by (simp add: to_string.simps digit_char_def char_of_def bit_0)
  consider p where "argv = [p]" | p a where "argv = [p, a]" | p a b where "argv = [p, a, b]" | p a b c where "argv = [p, a, b, c]"
    using assms by (auto simp: server_args_def Let_def split: list.splits)
  then show ?thesis
    using assms by cases (auto simp: server_args_def port result_simps Let_def)
qed

end
