(* ===== verification/Client.thy ===== *)
theory Client
  imports Session Gateway
begin

text \<open>
  The terminal client, \<open>src/client/client_class.cpp\<close>, \<open>src/include/client/client_class.hpp\<close> and
  \<open>src/client/client_main.cpp\<close>: login and registration at the gateway with its retries, the connection to
  a backend (receiving, the queue and the thread that writes it) and the commands the user types. The
  gateway's answers, the socket and the lines typed are the environment. The lemmas show that a login
  ends after at most five requests, that receiving refines the same splitter of the byte stream as a
  session of the backend, that a command puts exactly the frame of its message into the queue, and
  that a chat message too short for the id of its sender throws.
\<close>

section \<open>Login and registration\<close>

record gateway_helper =
  gh_host :: string
  gh_port :: string

definition SetRemoteAddress :: "string \<Rightarrow> string \<Rightarrow> gateway_helper \<Rightarrow> gateway_helper" where
  "SetRemoteAddress host port g = g\<lparr>gh_host := host, gh_port := port\<rparr>"

text \<open>The request; \<open>write\<close> is the writer of the JSON library.\<close>

definition user_request :: "((string \<times> json_value) list \<Rightarrow> string) \<Rightarrow> string \<Rightarrow> string \<Rightarrow> string \<Rightarrow> http_request" where
  "user_request write target username passcode =
    \<lparr>rq_method = Verb_Post, rq_target = target, rq_version = 11, rq_keep_alive = True,
     rq_body = write [(''username'', J_Str username), (''passcode'', J_Str passcode)]\<rparr>"

definition login_request :: "((string \<times> json_value) list \<Rightarrow> string) \<Rightarrow> string \<Rightarrow> string \<Rightarrow> http_request" where
  "login_request write username passcode = user_request write ''/login'' username passcode"

definition register_request :: "((string \<times> json_value) list \<Rightarrow> string) \<Rightarrow> string \<Rightarrow> string \<Rightarrow> http_request" where
  "register_request write username passcode = user_request write ''/register'' username passcode"

text \<open>
  What the JSON library reads from the body of an answer: no document, a field of another type (the
  conversion throws), or the token, the address of the backend and the user id.
\<close>

datatype login_json = Login_Invalid | Login_Bad_Fields | Login_Fields string string u64

text \<open>
  \<open>net k\<close> is the answer to request number \<open>k\<close>, \<open>None\<close> if the connection fails and the call throws. A login
  comes to what it returns, the three values it sets when it succeeds, and the seconds it slept.
\<close>

type_synonym login_result = "(string \<times> string \<times> u64) option \<times> nat list"

definition wait_time :: "nat list" where
  "wait_time = [1, 1, 2, 3]"

text \<open>The loop after a conflict: the body of an answer with status 200, if there is one.\<close>

function login_retry :: "(nat \<Rightarrow> http_response option) \<Rightarrow> nat \<Rightarrow> nat list \<Rightarrow> (resp_body option \<times> nat list) result" where
  "login_retry net attempt slept =
    (if attempt < 4 then
       (let slept = slept @ [wait_time ! attempt] in
        case net (Suc attempt) of
          None \<Rightarrow> Inl (Runtime_Error ''system_error'')
        | Some resp \<Rightarrow>
            if rs_status resp = 200 then Inr (Some (rs_body resp), slept)
            else if rs_status resp = 409 then login_retry net (attempt + 1) slept
            else Inr (None, slept))
     else Inr (None, slept))"
  by pat_completeness auto

termination
  by (relation "measure (\<lambda>(net, attempt, slept). 4 - attempt)") auto

declare login_retry.simps [simp del]

definition login_body :: "(resp_body \<Rightarrow> login_json) \<Rightarrow> resp_body \<Rightarrow> (string \<times> string \<times> u64) option" where
  "login_body parse body =
    (case parse body of
       Login_Invalid \<Rightarrow> None
     | Login_Bad_Fields \<Rightarrow> None
     | Login_Fields token server_addr uid \<Rightarrow> Some (token, server_addr, uid))"

definition Login :: "(resp_body \<Rightarrow> login_json) \<Rightarrow> (nat \<Rightarrow> http_response option) \<Rightarrow> login_result result" where
  "Login parse net =
    (case net 0 of
       None \<Rightarrow> Inl (Runtime_Error ''system_error'')
     | Some resp \<Rightarrow>
         if rs_status resp = 200 then Inr (login_body parse (rs_body resp), [])
         else if rs_status resp = 409 then
           bindR (login_retry net 0 []) (\<lambda>(body, slept).
             case body of
               None \<Rightarrow> Inr (None, slept)
             | Some body \<Rightarrow> Inr (login_body parse body, slept))
         else Inr (None, []))"

definition gh_Register :: "http_response option \<Rightarrow> bool result" where
  "gh_Register answer =
    (case answer of
       None \<Rightarrow> Inl (Runtime_Error ''system_error'')
     | Some resp \<Rightarrow> Inr (rs_status resp = 200))"

text \<open>The address of the backend, host and port around the first colon; \<open>None\<close> ends the program.\<close>

definition split_addr :: "string \<Rightarrow> (string \<times> string) option" where
  "split_addr server_addr =
    (case find_char CHR '':'' 0 server_addr of
       None \<Rightarrow> None
     | Some pos \<Rightarrow> Some (take pos server_addr, drop (pos + 1) server_addr))"

section \<open>The connection\<close>

text \<open>What appears on the terminal.\<close>

datatype client_output =
    Shown_Verify string
  | Shown_Chat u64 string
  | Shown_Unknown u32
  | Shown_Closed
  | Shown_Usage
  | Shown_Invalid_Uid string
  | Shown_Sent u64
  | Shown_Bye
  | Shown_Unknown_Command string

text \<open>
  \<open>cl_reading\<close> is the outstanding read, \<open>cl_written\<close> what the worker wrote to the socket, \<open>cl_open\<close> whether the
  socket is open.
\<close>

record client =
  cl_recv :: msg_node
  cl_reading :: "read_phase option"
  cl_send_q :: "msg_node list"
  cl_sending :: "msg_node option"
  cl_written :: "byte list list"
  cl_running :: bool
  cl_open :: bool
  cl_out :: "client_output list"

definition AsyncClient_new :: "(nat \<Rightarrow> byte) \<Rightarrow> client" where
  "AsyncClient_new fill =
    \<lparr>cl_recv = MsgNode_new fill 1024, cl_reading = None, cl_send_q = [], cl_sending = None, cl_written = [],
     cl_running = False, cl_open = False, cl_out = []\<rparr>"

definition cl_print :: "client_output list \<Rightarrow> client \<Rightarrow> client" where
  "cl_print outs cl = cl\<lparr>cl_out := cl_out cl @ outs\<rparr>"

definition cl_Close :: "client \<Rightarrow> client" where
  "cl_Close cl = (if cl_running cl then cl\<lparr>cl_running := False, cl_open := False\<rparr> else cl)"

definition cl_ReceiveHead :: "client \<Rightarrow> client" where
  "cl_ReceiveHead cl = cl\<lparr>cl_reading := Some Read_Head\<rparr>"

definition cl_ReceiveContent :: "client \<Rightarrow> client" where
  "cl_ReceiveContent cl = cl\<lparr>cl_reading := Some Read_Content\<rparr>"

definition Receiver :: "client \<Rightarrow> client" where
  "Receiver cl = (if node_cur_pos (cl_recv cl) < of_nat HEAD_LEN then cl_ReceiveHead cl else cl_ReceiveContent cl)"

definition ConnectedHandler :: "client \<Rightarrow> client" where
  "ConnectedHandler cl = cl\<lparr>cl_running := True\<rparr>"

text \<open>\<open>Start\<close>: the socket is opened, and once the connection stands the handler and the receiver run.\<close>

definition cl_Start :: "client \<Rightarrow> client" where
  "cl_Start cl = Receiver (ConnectedHandler (cl\<lparr>cl_open := True\<rparr>))"

definition cl_ReceiveHandler :: "endian \<Rightarrow> u32 \<Rightarrow> u32 \<Rightarrow> client \<Rightarrow> client result" where
  "cl_ReceiveHandler e len tag cl =
    (case node_data (cl_recv cl) of
       None \<Rightarrow> Inl Undefined_Behaviour
     | Some d \<Rightarrow>
         bindR (memcpy_from d HEAD_LEN (unat (node_ctx_len (cl_recv cl)))) (\<lambda>bs.
           let content = text_of_bytes bs in
           if tag = TAG_VERIFY_DONE then Inr (cl_print [Shown_Verify content] cl)
           else if tag = TAG_CHAT_MSG_TOCLI then
             bindR (ReadNetField64 e (GetContent (cl_recv cl)) 0) (\<lambda>from_uid.
             bindR (substr content 8 (length content)) (\<lambda>content.
               Inr (cl_print [Shown_Chat from_uid content] cl)))
           else Inr (cl_print [Shown_Unknown tag] cl)))"

definition cl_ReceiveHead_cb :: "endian \<Rightarrow> (nat \<Rightarrow> byte) \<Rightarrow> client \<Rightarrow> read_result \<Rightarrow> client result" where
  "cl_ReceiveHead_cb e fill cl0 r =
    (let cl = cl0\<lparr>cl_reading := None\<rparr> in
     case r of
       Read_Error \<Rightarrow> Inr (cl_Close cl)
     | Read_Done bs \<Rightarrow>
         bindR (store_bytes (cl_recv cl) bs) (\<lambda>n.
           let n = n\<lparr>node_cur_pos := node_cur_pos n + of_nat (length bs)\<rparr> in
           if node_cur_pos n \<ge> of_nat HEAD_LEN then
             bindR (UpdateContentLenField e n) (\<lambda>(content_len, n).
               if content_len > MAX_CTX_LEN then Inr (cl\<lparr>cl_recv := n, cl_open := False\<rparr>)
               else
                 bindR (if content_len + of_nat HEAD_LEN > node_max_len n
                        then Reallocate fill n (content_len + of_nat HEAD_LEN) else Inr n) (\<lambda>n.
                   Inr (cl_ReceiveContent (cl\<lparr>cl_recv := n\<rparr>))))
           else Inr (cl_ReceiveHead (cl\<lparr>cl_recv := n\<rparr>))))"

definition cl_ReceiveContent_cb :: "endian \<Rightarrow> client \<Rightarrow> read_result \<Rightarrow> client result" where
  "cl_ReceiveContent_cb e cl0 r =
    (let cl = cl0\<lparr>cl_reading := None\<rparr> in
     case r of
       Read_Error \<Rightarrow> Inr (cl_Close cl)
     | Read_Done bs \<Rightarrow>
         bindR (store_bytes (cl_recv cl) bs) (\<lambda>n.
           let n = n\<lparr>node_cur_pos := node_cur_pos n + of_nat (length bs)\<rparr>; cl = cl\<lparr>cl_recv := n\<rparr> in
           if node_cur_pos n \<ge> node_ctx_len n + of_nat HEAD_LEN then
             bindR (GetTagField e n) (\<lambda>tag.
             bindR (cl_ReceiveHandler e (node_ctx_len n) tag cl) (\<lambda>cl.
               Inr (cl_ReceiveHead (cl\<lparr>cl_recv := MsgNode_Zero (cl_recv cl)\<rparr>))))
           else Inr (cl_ReceiveContent cl)))"

definition client_read :: "endian \<Rightarrow> (nat \<Rightarrow> byte) \<Rightarrow> client \<Rightarrow> read_result \<Rightarrow> client result" where
  "client_read e fill cl r =
    (case cl_reading cl of
       None \<Rightarrow> Inr cl
     | Some Read_Head \<Rightarrow> cl_ReceiveHead_cb e fill cl r
     | Some Read_Content \<Rightarrow> cl_ReceiveContent_cb e cl r)"

definition cl_Send :: "endian \<Rightarrow> (nat \<Rightarrow> byte) \<Rightarrow> byte list \<Rightarrow> u32 \<Rightarrow> u32 \<Rightarrow> client \<Rightarrow> client result" where
  "cl_Send e fill msg msg_len tag cl =
    bindR (MsgNode_msg e fill msg msg_len tag) (\<lambda>send_msg. Inr (cl\<lparr>cl_send_q := cl_send_q cl @ [send_msg]\<rparr>))"

text \<open>One round of the worker; without a message it waits. \<open>ec\<close> is whether the write fails.\<close>

definition WorkerFn :: "bool \<Rightarrow> client \<Rightarrow> client result" where
  "WorkerFn ec cl =
    (if \<not> cl_running cl then Inr cl
     else
       (case cl_send_q cl of
          [] \<Rightarrow> Inr cl
        | sending # q \<Rightarrow>
            (let cl = cl\<lparr>cl_sending := Some sending, cl_send_q := q\<rparr> in
             case node_data sending of
               None \<Rightarrow> Inl Undefined_Behaviour
             | Some d \<Rightarrow>
                 bindR (memcpy_from d 0 (unat (node_ctx_len sending + of_nat HEAD_LEN))) (\<lambda>bs.
                   if ec then Inr (cl_Close cl) else Inr (cl\<lparr>cl_written := cl_written cl @ [bs]\<rparr>)))))"

definition cl_Verify :: "endian \<Rightarrow> (nat \<Rightarrow> byte) \<Rightarrow> ((string \<times> json_value) list \<Rightarrow> string) \<Rightarrow> u64 \<Rightarrow> string \<Rightarrow> client \<Rightarrow> client result" where
  "cl_Verify e fill write uid token cl =
    (let msg = write [(''uid'', J_Uint uid), (''token'', J_Str token)]
     in cl_Send e fill (bytes_of_text msg) (of_nat (length msg)) TAG_VERIFY cl)"

section \<open>Commands\<close>

text \<open>The heartbeat of the timer.\<close>

definition cl_ping :: "endian \<Rightarrow> (nat \<Rightarrow> byte) \<Rightarrow> client \<Rightarrow> client result" where
  "cl_ping e fill cl = cl_Send e fill (bytes_of_text ''PING'') 4 TAG_PING cl"

lemma find_char_bound: "find_char c n s = Some k \<Longrightarrow> n \<le> k \<and> k < length s"
  by (auto simp: find_char_def Let_def split: if_splits)

function split_args :: "string \<Rightarrow> nat \<Rightarrow> string list" where
  "split_args arg_str start =
    (case find_char CHR '' '' start arg_str of
       Some end_pos \<Rightarrow> take (end_pos - start) (drop start arg_str) # split_args arg_str (end_pos + 1)
     | None \<Rightarrow> if start < length arg_str then [drop start arg_str] else [])"
  by pat_completeness auto

termination
  by (relation "measure (\<lambda>(arg_str, start). length arg_str - start)") (auto dest: find_char_bound)

declare split_args.simps [simp del]

definition parse_command :: "string \<Rightarrow> string \<times> string list" where
  "parse_command inp =
    (case find_char CHR '' '' 0 inp of
       Some sep \<Rightarrow> (drop 1 (take sep inp), split_args (drop (sep + 1) inp) 0)
     | None \<Rightarrow> (drop 1 inp, []))"

text \<open>One line of input; the result says whether the loop goes on.\<close>

definition client_line :: "endian \<Rightarrow> (nat \<Rightarrow> byte) \<Rightarrow> string \<Rightarrow> client \<Rightarrow> (bool \<times> client) result" where
  "client_line e fill inp cl =
    (if inp = [] then Inr (True, cl)
     else if \<not> cl_running cl then Inr (False, cl_print [Shown_Closed] cl)
     else if inp ! 0 = CHR 0x5C then
       (let (command, args) = parse_command inp in
        if command = ''send'' then
          (if length args \<noteq> 2 then Inr (True, cl_print [Shown_Usage] cl)
           else
             (case stoull (args ! 0) of
                Inl ex \<Rightarrow> Inr (True, cl_print [Shown_Invalid_Uid (args ! 0)] cl)
              | Inr whom_uid \<Rightarrow>
                  (let msg_data = replicate (length (args ! 1) + 8) 0 in
                   bindR (WriteNetField64 e msg_data 0 whom_uid) (\<lambda>msg_data.
                   bindR (memcpy_to msg_data 8 (bytes_of_text (args ! 1))) (\<lambda>msg_data.
                   bindR (cl_Send e fill msg_data (of_nat (length msg_data)) TAG_CHAT_MSG cl) (\<lambda>cl.
                     Inr (True, cl_print [Shown_Sent whom_uid] cl)))))))
        else if command = ''exit'' then Inr (False, cl_print [Shown_Bye] cl)
        else Inr (True, cl_print [Shown_Unknown_Command command] cl))
     else
       bindR (cl_Send e fill (bytes_of_text inp) (of_nat (length inp)) TAG_DEBUG cl) (\<lambda>cl. Inr (True, cl)))"
section \<open>Login ends\<close>

text \<open>The first \<open>k\<close> answers are conflicts, and the answer that ends the waiting.\<close>

definition conflicts :: "(nat \<Rightarrow> http_response option) \<Rightarrow> nat \<Rightarrow> bool" where
  "conflicts net k = (\<forall>j<k. \<exists>r. net j = Some r \<and> rs_status r = 409)"

definition is_conflict :: "http_response option \<Rightarrow> bool" where
  "is_conflict a = (\<exists>r. a = Some r \<and> rs_status r = 409)"

definition answer_result :: "(resp_body \<Rightarrow> 'a option) \<Rightarrow> http_response option \<Rightarrow> nat list \<Rightarrow> ('a option \<times> nat list) result" where
  "answer_result f a slept =
    (case a of
       None \<Rightarrow> Inl (Runtime_Error ''system_error'')
     | Some r \<Rightarrow> Inr (if rs_status r = 200 then f (rs_body r) else None, slept))"

lemma login_retry_conflict:
  "attempt < 4 \<Longrightarrow> is_conflict (net (Suc attempt)) \<Longrightarrow>
    login_retry net attempt slept = login_retry net (Suc attempt) (slept @ [wait_time ! attempt])"
  by (subst login_retry.simps) (auto simp: is_conflict_def)

lemma login_retry_answer:
  "attempt < 4 \<Longrightarrow> \<not> is_conflict (net (Suc attempt)) \<Longrightarrow>
    login_retry net attempt slept = answer_result Some (net (Suc attempt)) (slept @ [wait_time ! attempt])"
  by (subst login_retry.simps) (auto simp: is_conflict_def answer_result_def split: option.splits)

lemma login_retry_run:
  "k \<le> 4 \<Longrightarrow> conflicts net (Suc k) \<Longrightarrow> login_retry net 0 [] = login_retry net k (take k wait_time)"
proof (induction k)
  case (Suc k)
  have "is_conflict (net (Suc k))" and c: "conflicts net (Suc k)"
    using Suc.prems(2) by (auto simp: conflicts_def is_conflict_def)
  moreover have "take (Suc k) wait_time = take k wait_time @ [wait_time ! k]"
    using Suc.prems(1) by (intro take_Suc_conv_app_nth) (simp add: wait_time_def)
  ultimately show ?case using Suc.IH [OF _ c] Suc.prems(1) by (simp add: login_retry_conflict)
qed simp

lemma Login_first: "\<not> is_conflict (net 0) \<Longrightarrow> Login parse net = answer_result (login_body parse) (net 0) []"
  by (auto simp: Login_def answer_result_def is_conflict_def split: option.splits)

lemma Login_later:
  assumes "is_conflict (net 0)"
  shows "Login parse net = bindR (login_retry net 0 []) (\<lambda>(body, slept). Inr (Option.bind body (login_body parse), slept))"
  using assms by (auto simp: Login_def is_conflict_def bindR_def split: option.splits sum.splits)

lemma conflicts_Suc: "conflicts net (Suc k) \<longleftrightarrow> conflicts net k \<and> is_conflict (net k)"
  by (auto simp: conflicts_def is_conflict_def less_Suc_eq)

lemma first_answer: "conflicts net n \<or> (\<exists>k<n. conflicts net k \<and> \<not> is_conflict (net k))"
proof (induction n)
  case 0
  then show ?case by (simp add: conflicts_def)
next
  case (Suc n)
  then show ?case by (auto simp: conflicts_Suc less_Suc_eq)
qed

text \<open>
  C35: a login always comes to an end, after at most five requests and seven seconds. It asks again only
  as long as the answer is a conflict, waits 1, 1, 2 and 3 seconds in between, and its outcome is that
  of the first answer of another kind: it succeeds if that has status 200 and a body with the three
  fields, and fails otherwise; after five conflicts it fails.
\<close>

theorem Login_ends:
  "(\<exists>k. k < 5 \<and> conflicts net k \<and> \<not> is_conflict (net k) \<and>
      Login parse net = answer_result (login_body parse) (net k) (take k [1, 1, 2, 3])) \<or>
    (conflicts net 5 \<and> Login parse net = Inr (None, [1, 1, 2, 3]))"
proof -
  consider "conflicts net 5" | k where "k < 5" "conflicts net k" "\<not> is_conflict (net k)"
    using first_answer [of net 5] by blast
  then show ?thesis
  proof cases
    case 1
    then have "is_conflict (net 0)" by (simp add: conflicts_def is_conflict_def)
    moreover have "login_retry net 0 [] = login_retry net 4 [1, 1, 2, 3]"
      using login_retry_run [of 4 net] 1 by (simp add: wait_time_def)
    ultimately have "Login parse net = Inr (None, [1, 1, 2, 3])"
      by (simp add: Login_later login_retry.simps [of net 4])
    with 1 show ?thesis by blast
  next
    case 2
    have "Login parse net = answer_result (login_body parse) (net k) (take k [1, 1, 2, 3])"
    proof (cases k)
      case 0
      then show ?thesis using 2 by (simp add: Login_first)
    next
      case (Suc m)
      then have m: "m < 4" and c: "is_conflict (net 0)" using 2 by (auto simp: conflicts_def is_conflict_def)
      have "take (Suc m) wait_time = take m wait_time @ [wait_time ! m]"
        using m by (intro take_Suc_conv_app_nth) (simp add: wait_time_def)
      then have "login_retry net 0 [] = answer_result Some (net k) (take k wait_time)"
        using login_retry_run [of m net] login_retry_answer [of m net] m 2 Suc by simp
      then show ?thesis
        using Login_later [of net] c by (auto simp: answer_result_def wait_time_def split: option.splits)
    qed
    with 2 show ?thesis by blast
  qed
qed
section \<open>Receiving\<close>

text \<open>What a whole frame shows on the terminal.\<close>

definition show_frame :: "byte list \<Rightarrow> client_output result" where
  "show_frame f =
    (let tag = be_word (take 4 f); content = drop 8 f in
     if tag = TAG_VERIFY_DONE then Inr (Shown_Verify (text_of_bytes content))
     else if tag = TAG_CHAT_MSG_TOCLI then
       (if length content < 8 then Inl Out_Of_Range
        else Inr (Shown_Chat (be_word (take 8 content)) (text_of_bytes (drop 8 content))))
     else Inr (Shown_Unknown tag))"

definition shows_frame :: "byte list \<Rightarrow> bool" where
  "shows_frame f = (\<exists>t. show_frame f = Inr t)"

text \<open>The splitter of the session, with what the frames show as its output.\<close>

definition show_step :: "byte list \<Rightarrow> byte list option \<Rightarrow> client_output list \<Rightarrow> byte list option \<Rightarrow> bool" where
  "show_step c a outs a' = (\<exists>fs. split_step c a fs a' \<and> map show_frame fs = map Inr outs)"

definition show_pre :: "byte list \<Rightarrow> byte list option \<Rightarrow> bool" where
  "show_pre c a = (split_pre c a \<and> (\<forall>fs a'. split_step c a fs a' \<longrightarrow> list_all shows_frame fs))"

definition client_recv_step :: "endian \<Rightarrow> (nat \<Rightarrow> byte) \<Rightarrow> byte list \<Rightarrow> client \<Rightarrow> (client_output list \<times> client) result" where
  "client_recv_step e fill c cl =
    bindR (client_read e fill cl (Read_Done c)) (\<lambda>cl'. Inr (drop (length (cl_out cl)) (cl_out cl'), cl'))"

text \<open>The session that receives as the client does.\<close>

definition ses_of :: "client \<Rightarrow> session" where
  "ses_of cl = (Session_new (\<lambda>_. 0) True False)\<lparr>ses_recv := cl_recv cl, ses_reading := cl_reading cl, ses_down := \<not> cl_open cl\<rparr>"

definition with_ses :: "session \<Rightarrow> client \<Rightarrow> client" where
  "with_ses s cl = cl\<lparr>cl_recv := ses_recv s, cl_reading := ses_reading s, cl_open := \<not> ses_down s\<rparr>"

definition client_sim :: "client \<Rightarrow> byte list option \<Rightarrow> bool" where
  "client_sim cl a = recv_sim (ses_of cl) a"

lemma ses_of_fields [simp]:
  "ses_recv (ses_of cl) = cl_recv cl" "ses_reading (ses_of cl) = cl_reading cl" "ses_down (ses_of cl) = (\<not> cl_open cl)"
  "ses_handler (ses_of cl)" "\<not> ses_mgr (ses_of cl)"
  by (simp_all add: ses_of_def Session_new_def)

lemma client_sim_with_ses: "recv_sim s a \<Longrightarrow> client_sim (with_ses s cl) a"
  by (auto simp: client_sim_def recv_sim_def with_ses_def split: option.splits)

text \<open>Up to a whole frame, the callbacks of the client and of the session do the same.\<close>

lemma head_as_session:
  assumes "cl_open cl"
  shows "cl_ReceiveHead_cb e fill cl (Read_Done c) =
    bindR (ReceiveHead_cb e fill (ses_of cl) (Read_Done c)) (\<lambda>s. Inr (with_ses s cl))"
  using assms
  by (auto simp: cl_ReceiveHead_cb_def ReceiveHead_cb_def bindR_def with_ses_def cl_ReceiveContent_def ReceiveContent_def
      cl_ReceiveHead_def ReceiveHead_def Close_def emit_def Let_def split: sum.splits prod.splits)
lemma content_as_session:
  assumes "cl_open cl" and store: "store_bytes (cl_recv cl) c = Inr (n\<lparr>node_cur_pos := p\<rparr>)"
    and n: "p + of_nat (length c) = node_cur_pos n" and part: "\<not> node_ctx_len n + 8 \<le> node_cur_pos n"
  shows "cl_ReceiveContent_cb e cl (Read_Done c) =
    bindR (ReceiveContent_cb e fill (ses_of cl) (Read_Done c)) (\<lambda>s. Inr (with_ses s cl))"
  using assms
  by (simp add: cl_ReceiveContent_cb_def ReceiveContent_cb_def with_ses_def cl_ReceiveContent_def ReceiveContent_def Let_def)

lemma ReceiveHandler_shows:
  assumes d: "node_data (cl_recv cl) = Some (f @ junk)" and len: "length f = 8 + unat (node_ctx_len (cl_recv cl))"
  shows "show_frame f = Inr t \<Longrightarrow> cl_ReceiveHandler e len (be_word (take 4 f)) cl = Inr (cl_print [t] cl)"
    and "show_frame f = Inl x \<Longrightarrow> \<exists>y. cl_ReceiveHandler e len (be_word (take 4 f)) cl = Inl y"
proof -
  have copy: "memcpy_from (f @ junk) HEAD_LEN (unat (node_ctx_len (cl_recv cl))) = Inr (drop 8 f)"
    using len by (simp add: memcpy_from_Inr)
  have content: "GetContent (cl_recv cl) = drop 8 f @ junk" using d len by (simp add: GetContent_def)
  show "show_frame f = Inr t \<Longrightarrow> cl_ReceiveHandler e len (be_word (take 4 f)) cl = Inr (cl_print [t] cl)"
    using d copy content
    by (auto simp: cl_ReceiveHandler_def show_frame_def Let_def field_simps_net substr_def text_of_bytes_def
        take_map drop_map split: if_splits)
  show "show_frame f = Inl x \<Longrightarrow> \<exists>y. cl_ReceiveHandler e len (be_word (take 4 f)) cl = Inl y"
    using d copy
    by (auto simp: cl_ReceiveHandler_def show_frame_def Let_def substr_def tag_defs bindR_def split: if_splits sum.splits)
qed

lemma show_step_quiet: "split_step c a [] a' \<Longrightarrow> show_step c a [] a'"
  unfolding show_step_def by (intro exI [of _ "[]"]) simp

lemma client_step_head:
  assumes sim: "client_sim cl (Some b)" and b: "length b < 8" and c: "length c \<le> want b"
  shows "\<exists>outs cl' a'. client_recv_step e fill c cl = Inr (outs, cl') \<and> show_step c (Some b) outs a' \<and> client_sim cl' a'"
proof -
  have rd: "cl_reading cl = Some Read_Head" "cl_open cl"
    using sim b by (auto simp: client_sim_def recv_sim_def)
  obtain fs s' a' where s': "recv_step e fill c (ses_of cl) = Inr (fs, s')" "split_step c (Some b) fs a'" "recv_sim s' a'"
    using recv_step_head [OF _ b c] sim unfolding client_sim_def by blast
  have "fs = []" using s'(2) b by (auto simp: split_step_def split: if_splits)
  moreover have "client_recv_step e fill c cl = Inr ([], with_ses s' cl)"
    using s'(1) rd head_as_session [of cl e fill c]
    by (auto simp: client_recv_step_def client_read_def recv_step_def read_complete_def with_ses_def)
  ultimately show ?thesis
    using s'(2) client_sim_with_ses [OF s'(3)] show_step_quiet by blast
qed

lemma client_step_content:
  assumes sim: "client_sim cl (Some b)" and b: "8 \<le> length b" and c: "length c \<le> want b"
    and shown: "length (b @ c) = 8 + frame_len b \<Longrightarrow> shows_frame (b @ c)"
  shows "\<exists>outs cl' a'. client_recv_step e fill c cl = Inr (outs, cl') \<and> show_step c (Some b) outs a' \<and> client_sim cl' a'"
proof -
  let ?n = "cl_recv cl"
  have rd: "cl_reading cl = Some Read_Content" "cl_open cl" "8 \<le> unat (node_max_len ?n)"
    using sim b by (auto simp: client_sim_def recv_sim_def)
  obtain n junk where store: "store_bytes ?n c = Inr (n\<lparr>node_cur_pos := node_cur_pos ?n\<rparr>)"
    and n: "n = ?n\<lparr>node_data := Some ((b @ c) @ junk), node_cur_pos := node_cur_pos ?n + of_nat (length c)\<rparr>"
    and wf: "node_wf n" and ctx: "unat (node_ctx_len n) = frame_len b"
    and full: "node_ctx_len n + 8 \<le> node_cur_pos n \<longleftrightarrow> length (b @ c) = 8 + frame_len b"
    by (rule content_advance [OF sim [unfolded client_sim_def] b c, unfolded ses_of_fields]) blast
  show ?thesis
  proof (cases "length (b @ c) = 8 + frame_len b")
    case True
    obtain t where t: "show_frame (b @ c) = Inr t" using shown [OF True] by (auto simp: shows_frame_def)
    let ?cl = "cl\<lparr>cl_reading := None, cl_recv := n\<rparr>"
    define cl' where "cl' = cl_ReceiveHead (cl_print [t] ?cl\<lparr>cl_recv := MsgNode_Zero n\<rparr>)"
    have d: "node_data n = Some ((b @ c) @ junk)" by (simp add: n)
    have "GetTagField e n = Inr (be_word (take 4 ((b @ c) @ junk)))" using b by (intro GetTagField_Some) (simp_all add: n)
    also have "take 4 ((b @ c) @ junk) = take 4 (b @ c)" using b by simp
    finally have tag: "GetTagField e n = Inr (be_word (take 4 (b @ c)))" .
    have "cl_ReceiveHandler e (node_ctx_len n) (be_word (take 4 (b @ c))) ?cl = Inr (cl_print [t] ?cl)"
      using True ctx d by (intro ReceiveHandler_shows(1) [OF _ _ t]) simp_all
    then have "client_read e fill cl (Read_Done c) = Inr cl'"
      using rd store full True tag n
      by (simp add: client_read_def cl_ReceiveContent_cb_def Let_def cl'_def cl_print_def del: take_append)
    then have "client_recv_step e fill c cl = Inr ([t], cl')"
      by (simp add: client_recv_step_def cl'_def cl_ReceiveHead_def cl_print_def)
    moreover have "show_step c (Some b) [t] (Some [])"
      using True b t by (auto simp: show_step_def split_step_def)
    moreover have "client_sim cl' (Some [])"
      using rd wf MsgNode_Zero_wf [OF wf]
      by (auto simp: client_sim_def recv_sim_def cl'_def cl_ReceiveHead_def cl_print_def MsgNode_Zero_def n)
    ultimately show ?thesis by blast
  next
    case False
    obtain fs s' a' where s': "recv_step e fill c (ses_of cl) = Inr (fs, s')" "split_step c (Some b) fs a'" "recv_sim s' a'"
      using recv_step_content [OF _ b c] sim unfolding client_sim_def by blast
    have "fs = []" using s'(2) b False by (auto simp: split_step_def split: if_splits)
    moreover have "cl_ReceiveContent_cb e cl (Read_Done c) =
        bindR (ReceiveContent_cb e fill (ses_of cl) (Read_Done c)) (\<lambda>s. Inr (with_ses s cl))"
      using rd(2) store False full by (intro content_as_session [OF _ store]) (simp_all add: n)
    then have "client_recv_step e fill c cl = Inr ([], with_ses s' cl)"
      using s'(1) rd by (auto simp: client_recv_step_def client_read_def recv_step_def read_complete_def with_ses_def)
    ultimately show ?thesis
      using s'(2) client_sim_with_ses [OF s'(3)] show_step_quiet by blast
  qed
qed

interpretation shown: refinement client_sim "client_recv_step e fill" show_pre show_step for e fill
proof
  fix cl a c
  assume sim: "client_sim cl a" and pre: "show_pre c a"
  then obtain b where b: "a = Some b" "length c \<le> want b"
    by (auto simp: show_pre_def split_pre_def split: option.splits)
  have "shows_frame (b @ c)" if "8 \<le> length b" "length (b @ c) = 8 + frame_len b"
    using pre that b by (auto simp: show_pre_def split_step_def)
  then show "\<exists>outs cl' a'. client_recv_step e fill c cl = Inr (outs, cl') \<and> show_step c a outs a' \<and> client_sim cl' a'"
    using sim b client_step_head client_step_content by (cases "length b < 8") auto
qed
lemma show_run_split:
  assumes "spec_run show_step cs a outs a'"
  shows "\<exists>fss. spec_run split_step cs a fss a' \<and> map show_frame (concat fss) = map Inr (concat outs)"
  using assms
proof (induction cs arbitrary: a outs)
  case (Cons c cs)
  then obtain out b outs' where o: "outs = out # outs'" "show_step c a out b" "spec_run show_step cs b outs' a'" by auto
  then obtain fs where fs: "split_step c a fs b" "map show_frame fs = map Inr out" by (auto simp: show_step_def)
  obtain fss where fss: "spec_run split_step cs b fss a'" "map show_frame (concat fss) = map Inr (concat outs')"
    using Cons.IH [OF o(3)] by blast
  have "spec_run split_step (c # cs) a (fs # fss) a'" using fs fss by auto
  moreover have "map show_frame (concat (fs # fss)) = map Inr (concat outs)" using fs fss o by simp
  ultimately show ?case by blast
qed simp

lemma shows_frames: "list_all shows_frame fs \<Longrightarrow> \<exists>outs. map show_frame fs = map Inr outs"
proof (induction fs)
  case (Cons f fs)
  then obtain t outs where "show_frame f = Inr t" "map show_frame fs = map Inr outs" by (auto simp: shows_frame_def)
  then show ?case by (intro exI [of _ "t # outs"]) simp
qed simp

lemma show_admissible_split:
  "admissible show_pre show_step cs a \<Longrightarrow> admissible split_pre split_step cs a"
proof (induction cs arbitrary: a)
  case (Cons c cs)
  have "admissible split_pre split_step cs a'" if "split_step c a fs a'" for fs a'
  proof -
    have "list_all shows_frame fs" using Cons.prems that by (auto simp: show_pre_def)
    then obtain outs where "map show_frame fs = map Inr outs" using shows_frames by blast
    with that have "show_step c a outs a'" unfolding show_step_def by blast
    with Cons.prems have "admissible show_pre show_step cs a'" by auto
    then show ?thesis by (rule Cons.IH)
  qed
  with Cons.prems show ?case by (auto simp: show_pre_def)
qed simp

lemma client_sim_Start: "client_sim (cl_Start (AsyncClient_new fill)) (Some [])"
  by (simp add: client_sim_def recv_sim_def cl_Start_def Receiver_def ConnectedHandler_def AsyncClient_new_def
      cl_ReceiveHead_def MsgNode_new_def node_wf_def)

text \<open>A whole frame, read as its header and then its content, is shown.\<close>

lemma client_shows_frame:
  assumes sim: "client_sim cl (Some [])" and len: "length content \<le> unat MAX_CTX_LEN"
    and t: "show_frame (frame tag content) = Inr t"
  shows "\<exists>cl'. run_steps (client_recv_step e fill) [take 8 (frame tag content), drop 8 (frame tag content)] cl =
    Inr ([[], [t]], cl') \<and> client_sim cl' (Some [])"
proof -
  let ?f = "frame tag content"
  have fl: "frame_len ?f = length content" "frame_len (take 8 ?f) = length content"
    using whole_frame_of_frame(2) [OF len, of tag "[]"] by (simp_all add: frame_len_def drop_take)
  have len8: "length (take 8 ?f) = 8" by simp
  have step1: "split_step (take 8 ?f) (Some []) fs a \<longleftrightarrow> fs = [] \<and> a = Some (take 8 ?f)" for fs a
    using fl len by (auto simp: split_step_def)
  have step2: "split_step (drop 8 ?f) (Some (take 8 ?f)) fs a \<longleftrightarrow> fs = [?f] \<and> a = Some []" for fs a
    using fl by (simp add: split_step_def)
  have pre: "show_pre (take 8 ?f) (Some [])" "show_pre (drop 8 ?f) (Some (take 8 ?f))"
    using fl t step1 step2 by (auto simp: show_pre_def split_pre_def want_def shows_frame_def)
  have show1: "show_step (take 8 ?f) (Some []) outs a \<longleftrightarrow> outs = [] \<and> a = Some (take 8 ?f)" for outs a
    by (auto simp: show_step_def step1)
  have show2: "show_step (drop 8 ?f) (Some (take 8 ?f)) outs a \<longleftrightarrow> outs = [t] \<and> a = Some []" for outs a
    using t by (auto simp: show_step_def step2 map_eq_Cons_conv)
  have "admissible show_pre show_step [take 8 ?f, drop 8 ?f] (Some [])"
    using pre show1 by simp
  from shown.run_refines [OF sim this]
  obtain outs cl' a' where "run_steps (client_recv_step e fill) [take 8 ?f, drop 8 ?f] cl = Inr (outs, cl')"
    "spec_run show_step [take 8 ?f, drop 8 ?f] (Some []) outs a'" "client_sim cl' a'" by blast
  moreover from this(2) have "outs = [[], [t]]" "a' = Some []" by (auto simp: show1 show2)
  ultimately show ?thesis by blast
qed

section \<open>Commands and the worker\<close>

lemma find_char_suffix: "find_char c (length p) (p @ s) = map_option ((+) (length p)) (find_char c 0 s)"
  by (rule find_char_shift)

lemma split_args_suffix: "split_args (p @ s) (length p) = split_args s 0"
proof (induction "length s" arbitrary: p s rule: less_induct)
  case less
  show ?case
  proof (cases "find_char CHR '' '' 0 s")
    case None
    then show ?thesis
      by (subst (1 2) split_args.simps) (simp add: find_char_suffix)
  next
    case (Some k)
    have k: "k < length s" using find_char_bound [OF Some] by simp
    let ?p = "p @ take (Suc k) s"
    have "split_args (?p @ drop (Suc k) s) (length ?p) = split_args (drop (Suc k) s) 0"
      using k by (intro less.hyps) simp
    then have "split_args (p @ s) (Suc (length p + k)) = split_args (drop (Suc k) s) 0" using k by simp
    moreover have "split_args s (k + 1) = split_args (drop (Suc k) s) 0"
      using less.hyps [of "drop (Suc k) s" "take (Suc k) s"] k by (simp add: min_absorb2 Suc_leI)
    ultimately show ?thesis
      using Some by (subst (1 2) split_args.simps) (simp add: find_char_suffix)
  qed
qed

lemma split_args_word:
  assumes "CHR '' '' \<notin> set w"
  shows "split_args (w @ CHR '' '' # s) 0 = w # split_args s 0" "w \<noteq> [] \<Longrightarrow> split_args w 0 = [w]"
proof -
  have "find_char CHR '' '' 0 (w @ CHR '' '' # s) = Some (length w)" using find_char_append [OF assms] by simp
  then show "split_args (w @ CHR '' '' # s) 0 = w # split_args s 0"
    using split_args_suffix [of "w @ '' ''" s] by (subst split_args.simps) simp
  show "w \<noteq> [] \<Longrightarrow> split_args w 0 = [w]"
    using find_char_None [OF assms] by (subst split_args.simps) simp
qed

lemma split_args_nonempty: "s \<noteq> [] \<Longrightarrow> split_args s 0 \<noteq> []"
  by (subst split_args.simps) (auto split: option.splits)

text \<open>A line with the send command.\<close>

definition send_line :: "string \<Rightarrow> string \<Rightarrow> string" where
  "send_line whom text = CHR 0x5C # ''send'' @ CHR '' '' # whom @ CHR '' '' # text"

lemma parse_send_line:
  assumes "CHR '' '' \<notin> set whom"
  shows "parse_command (send_line whom text) = (''send'', whom # split_args text 0)"
proof -
  have "find_char CHR '' '' 0 ((CHR 0x5C # ''send'') @ CHR '' '' # whom @ CHR '' '' # text) = Some 5"
    by (subst find_char_append) simp_all
  then show ?thesis using split_args_word(1) [OF assms] by (simp add: parse_command_def send_line_def)
qed

lemma isdigit_not_blank: "isdigit c \<Longrightarrow> c \<noteq> CHR '' ''"
  by (auto simp: isdigit_def)

definition chat_content :: "u64 \<Rightarrow> string \<Rightarrow> byte list" where
  "chat_content uid text = be_bytes 8 uid @ bytes_of_text text"

definition chat_node :: "u64 \<Rightarrow> string \<Rightarrow> msg_node" where
  "chat_node uid text =
    \<lparr>node_data = Some (frame TAG_CHAT_MSG (chat_content uid text)), node_cur_pos = 0,
     node_ctx_len = of_nat (length text + 8), node_max_len = 8 + of_nat (length text + 8)\<rparr>"

lemma chat_node_sendable:
  assumes "length text + 16 < 2 ^ 32"
  shows "sendable (chat_node uid text)" "node_wire (chat_node uid text) = frame TAG_CHAT_MSG (chat_content uid text)"
proof -
  have "unat (of_nat (length text + 8) :: u32) = length text + 8" using assms by (subst unat_of_nat) simp
  then show "sendable (chat_node uid text)" "node_wire (chat_node uid text) = frame TAG_CHAT_MSG (chat_content uid text)"
    using assms by (simp_all add: sendable_def chat_node_def chat_content_def node_wire_def)
qed

lemma client_line_send:
  assumes "cl_running cl" and "CHR '' '' \<notin> set text" and "text \<noteq> []" and "length text + 16 < 2 ^ 32"
  shows "client_line e fill (send_line (to_string (unat uid)) text) cl =
    Inr (True, cl_print [Shown_Sent uid] (cl\<lparr>cl_send_q := cl_send_q cl @ [chat_node uid text]\<rparr>))"
proof -
  have "CHR '' '' \<notin> set (to_string (unat uid))" using to_string_digits isdigit_not_blank by blast
  from parse_send_line [OF this]
  have cmd: "parse_command (send_line (to_string (unat uid)) text) = (''send'', [to_string (unat uid), text])"
    using split_args_word(2) [OF assms(2,3)] by simp
  have len: "unat (of_nat (length text + 8) :: u32) = length text + 8" using assms(4) by (subst unat_of_nat) simp
  have "MsgNode_msg e fill (chat_content uid text) (of_nat (length text + 8)) TAG_CHAT_MSG = Inr (chat_node uid text)"
    using assms(4) len by (subst MsgNode_msg_frame) (simp_all add: chat_node_def chat_content_def word_less_nat_alt)
  then have snd: "cl_Send e fill (chat_content uid text) (of_nat (length (chat_content uid text))) TAG_CHAT_MSG cl =
      Inr (cl\<lparr>cl_send_q := cl_send_q cl @ [chat_node uid text]\<rparr>)"
    by (simp add: cl_Send_def chat_content_def add.commute)
  have "WriteNetField64 e (replicate (length text + 8) 0) 0 uid = Inr (be_bytes 8 uid @ replicate (length text) 0)"
    by (simp add: field_simps_net overwrite_def)
  moreover have "memcpy_to (be_bytes 8 uid @ replicate (length text) 0) 8 (bytes_of_text text) = Inr (chat_content uid text)"
    by (simp add: memcpy_to_Inr overwrite_def chat_content_def)
  ultimately show ?thesis
    using assms(1) cmd snd unfolding client_line_def by (simp add: Let_def) (simp add: send_line_def)
qed

definition worker_step :: "bool \<Rightarrow> client \<Rightarrow> (unit \<times> client) result" where
  "worker_step ec cl = bindR (WorkerFn ec cl) (\<lambda>cl. Inr ((), cl))"

lemma WorkerFn_writes:
  assumes "cl_running cl" and "cl_send_q cl = n # q" and "sendable n"
  shows "WorkerFn False cl = Inr (cl\<lparr>cl_sending := Some n, cl_send_q := q, cl_written := cl_written cl @ [node_wire n]\<rparr>)"
  using assms write_bytes_sendable [OF assms(3)]
  by (auto simp: WorkerFn_def sendable_def write_bytes_def)

lemma worker_drains:
  assumes "cl_running cl" and "list_all sendable (cl_send_q cl)"
  shows "\<exists>outs cl'. run_steps worker_step (replicate (length (cl_send_q cl)) False) cl = Inr (outs, cl') \<and>
    cl_written cl' = cl_written cl @ map node_wire (cl_send_q cl) \<and> cl_send_q cl' = [] \<and> cl_running cl' \<and> cl_out cl' = cl_out cl"
  using assms
proof (induction "cl_send_q cl" arbitrary: cl)
  case Nil
  then show ?case by simp
next
  case (Cons n q)
  let ?cl = "cl\<lparr>cl_sending := Some n, cl_send_q := q, cl_written := cl_written cl @ [node_wire n]\<rparr>"
  have q: "cl_send_q cl = n # q" using Cons.hyps(2) by simp
  then have "worker_step False cl = Inr ((), ?cl)"
    using WorkerFn_writes [of cl n q] Cons.prems by (simp add: worker_step_def)
  moreover obtain outs cl' where "run_steps worker_step (replicate (length q) False) ?cl = Inr (outs, cl')"
    "cl_written cl' = cl_written ?cl @ map node_wire q" "cl_send_q cl' = []" "cl_running cl'" "cl_out cl' = cl_out cl"
    using Cons.hyps(1) [of ?cl] Cons.prems q by auto
  ultimately show ?case using q by simp
qed

lemma client_writes_chat:
  fixes uid :: u64
  assumes "cl_running cl" and "list_all sendable (cl_send_q cl)" and "CHR '' '' \<notin> set text" and "text \<noteq> []"
    and "length text + 16 < 2 ^ 32"
  shows "\<exists>cl1 outs cl2. client_line e fill (send_line (to_string (unat uid)) text) cl = Inr (True, cl1) \<and>
      run_steps worker_step (replicate (length (cl_send_q cl) + 1) False) cl1 = Inr (outs, cl2) \<and>
      cl_written cl2 = cl_written cl @ map node_wire (cl_send_q cl) @ [frame TAG_CHAT_MSG (be_bytes 8 uid @ bytes_of_text text)] \<and>
      cl_send_q cl2 = []"
proof -
  let ?cl = "cl_print [Shown_Sent uid] (cl\<lparr>cl_send_q := cl_send_q cl @ [chat_node uid text]\<rparr>)"
  have "cl_running ?cl" "list_all sendable (cl_send_q ?cl)"
    using assms chat_node_sendable [OF assms(5)] by (simp_all add: cl_print_def)
  from worker_drains [OF this]
  obtain outs cl2 where cl2: "run_steps worker_step (replicate (length (cl_send_q cl) + 1) False) ?cl = Inr (outs, cl2)"
      "cl_written cl2 = cl_written cl @ map node_wire (cl_send_q cl @ [chat_node uid text])" "cl_send_q cl2 = []"
    by (auto simp: cl_print_def)
  have "cl_written cl2 = cl_written cl @ map node_wire (cl_send_q cl) @ [frame TAG_CHAT_MSG (be_bytes 8 uid @ bytes_of_text text)]"
    using cl2(2) chat_node_sendable(2) [OF assms(5), of uid] by (simp add: chat_content_def)
  with client_line_send [OF assms(1,3,4,5), of e fill uid] cl2 show ?thesis by blast
qed

section \<open>Properties\<close>


lemma welcome_chunks_admissible:
  "admissible show_pre show_step [[0, 0, 0, 2, 0, 0], [0, 2], [104], [105]] (Some [])"
  by (simp add: show_pre_def show_step_def split_pre_def split_step_def want_def frame_len_def be_word_def MAX_CTX_LEN_def
      shows_frame_def show_frame_def tag_defs)

text \<open>
  The send command with a user id and a message of one word is written to the socket, after the
  messages queued before it and in their order, as the chat frame of that id and that text. A message
  of several words is answered with the usage, and nothing is sent.
\<close>

lemma send_command_written:
  fixes uid :: u64
  assumes "cl_running cl" and "list_all sendable (cl_send_q cl)" and "CHR '' '' \<notin> set text" and "text \<noteq> []"
    and "length text + 16 < 2 ^ 32"
  shows "(\<exists>cl1 outs cl2. client_line e fill (send_line (to_string (unat uid)) text) cl = Inr (True, cl1) \<and>
      run_steps worker_step (replicate (length (cl_send_q cl) + 1) False) cl1 = Inr (outs, cl2) \<and>
      cl_written cl2 = cl_written cl @ map node_wire (cl_send_q cl) @ [frame TAG_CHAT_MSG (be_bytes 8 uid @ bytes_of_text text)] \<and>
      cl_send_q cl2 = []) \<and>
    (rest \<noteq> [] \<longrightarrow> client_line e fill (send_line (to_string (unat uid)) (text @ CHR '' '' # rest)) cl =
      Inr (True, cl_print [Shown_Usage] cl))"
proof (intro conjI impI)
  show "\<exists>cl1 outs cl2. client_line e fill (send_line (to_string (unat uid)) text) cl = Inr (True, cl1) \<and>
      run_steps worker_step (replicate (length (cl_send_q cl) + 1) False) cl1 = Inr (outs, cl2) \<and>
      cl_written cl2 = cl_written cl @ map node_wire (cl_send_q cl) @ [frame TAG_CHAT_MSG (be_bytes 8 uid @ bytes_of_text text)] \<and>
      cl_send_q cl2 = []" by (rule client_writes_chat [OF assms])
next
  assume rest: "rest \<noteq> []"
  have "CHR '' '' \<notin> set (to_string (unat uid))" using to_string_digits isdigit_not_blank by blast
  then have "parse_command (send_line (to_string (unat uid)) (text @ CHR '' '' # rest)) =
      (''send'', to_string (unat uid) # text # split_args rest 0)"
    using split_args_word(1) [OF assms(3), of rest] by (simp add: parse_send_line)
  then show "client_line e fill (send_line (to_string (unat uid)) (text @ CHR '' '' # rest)) cl = Inr (True, cl_print [Shown_Usage] cl)"
    using assms(1) split_args_nonempty [OF rest] unfolding client_line_def by (simp add: Let_def) (simp add: send_line_def)
qed

text \<open>
  Once the header of a chat message is read whose content is shorter than the eight bytes of the
  sender's id, the arrival of the content ends the receiver with an exception.
\<close>

lemma short_chat_frame_throws:
  assumes "client_sim cl (Some (take 8 (frame TAG_CHAT_MSG_TOCLI content)))" and "length content < 8"
  shows "\<exists>x. client_read e fill cl (Read_Done content) = Inl x"
proof -
  let ?b = "take 8 (frame TAG_CHAT_MSG_TOCLI content)"
  have fl: "frame_len ?b = length content"
    using whole_frame_of_frame(2) [of content TAG_CHAT_MSG_TOCLI "[]"] assms(2) by (simp add: frame_len_def drop_take MAX_CTX_LEN_def)
  have bc: "?b @ content = frame TAG_CHAT_MSG_TOCLI content" by (simp add: frame_def)
  have b: "8 \<le> length ?b" and c: "length content \<le> want ?b" using fl by (simp_all add: want_def)
  have rd: "cl_reading cl = Some Read_Content" using assms(1) b by (auto simp: client_sim_def recv_sim_def)
  obtain n junk where store: "store_bytes (cl_recv cl) content = Inr (n\<lparr>node_cur_pos := node_cur_pos (cl_recv cl)\<rparr>)"
    and n: "n = (cl_recv cl)\<lparr>node_data := Some ((?b @ content) @ junk), node_cur_pos := node_cur_pos (cl_recv cl) + of_nat (length content)\<rparr>"
    and ctx: "unat (node_ctx_len n) = frame_len ?b"
    and full: "node_ctx_len n + 8 \<le> node_cur_pos n \<longleftrightarrow> length (?b @ content) = 8 + frame_len ?b"
    by (rule content_advance [OF assms(1) [unfolded client_sim_def] b c, unfolded ses_of_fields]) blast
  have d: "node_data n = Some (frame TAG_CHAT_MSG_TOCLI content @ junk)" unfolding n bc by simp
  have tag: "GetTagField e n = Inr (be_word (take 4 (frame TAG_CHAT_MSG_TOCLI content)))"
    using GetTagField_Some [OF d, of e] by simp
  have "show_frame (frame TAG_CHAT_MSG_TOCLI content) = Inl Out_Of_Range"
    using assms(2) frame_fields(1) [of TAG_CHAT_MSG_TOCLI content "[]"] by (simp add: show_frame_def Let_def tag_defs)
  from ReceiveHandler_shows(2) [OF _ _ this, of "cl\<lparr>cl_reading := None, cl_recv := n\<rparr>" junk e "node_ctx_len n"]
  obtain y where "cl_ReceiveHandler e (node_ctx_len n) (be_word (take 4 (frame TAG_CHAT_MSG_TOCLI content)))
      (cl\<lparr>cl_reading := None, cl_recv := n\<rparr>) = Inl y"
    using d ctx fl by auto
  then show ?thesis
    using rd store full fl tag n by (simp add: client_read_def cl_ReceiveContent_cb_def Let_def)
qed

definition ex_short :: client where
  "ex_short = (cl_Start (AsyncClient_new (\<lambda>_. 0)))\<lparr>cl_reading := Some Read_Content,
    cl_recv := \<lparr>node_data = Some ([0, 0, 0, 4, 0, 0, 0, 1] @ replicate 16 0), node_cur_pos = 8, node_ctx_len = 1, node_max_len = 24\<rparr>\<rparr>"

end
