(* ===== verification/Io_Pool.thy ===== *)
theory Io_Pool
  imports Prelude Simulation
begin

text \<open>
  The pools of I/O threads of the backend, \<open>src/server/io_context_pool.cpp\<close> (one context per thread,
  handed out in turn) and \<open>src/server/io_thread_pool.cpp\<close> (one context run by all threads). A context keeps
  its thread running while it has a work object or an operation that is outstanding. The lemmas show that
  the contexts are handed out in turn, so that connections are spread evenly, and when stopping returns.
\<close>

section \<open>The pool of contexts\<close>

record io_context =
  ic_work :: bool
  ic_pending :: nat

text \<open>\<open>ip_threads\<close> tells of each thread whether it can be joined.\<close>

record io_context_pool =
  ip_ctxs :: "io_context list"
  ip_threads :: "bool list"
  ip_nxt :: nat

definition IOContextPool_new :: "nat \<Rightarrow> io_context_pool" where
  "IOContextPool_new sz =
    (let sz = (if sz = 0 then 4 else sz)
     in \<lparr>ip_ctxs = replicate sz \<lparr>ic_work = True, ic_pending = 0\<rparr>, ip_threads = replicate sz True, ip_nxt = 0\<rparr>)"

text \<open>The result is the index of the context.\<close>

definition GetNextIOContext :: "io_context_pool \<Rightarrow> nat \<times> io_context_pool" where
  "GetNextIOContext p = (let nxt = ip_nxt p mod length (ip_ctxs p) in (nxt, p\<lparr>ip_nxt := nxt + 1\<rparr>))"

text \<open>A thread returns from \<open>run\<close> when nothing keeps its context.\<close>

definition run_ends :: "io_context \<Rightarrow> bool" where
  "run_ends c = (\<not> ic_work c \<and> ic_pending c = 0)"

text \<open>
  Joining the threads one after the other: \<open>Inl\<close> when a thread was joined before, which throws, \<open>None\<close> when
  a thread keeps running.
\<close>

fun join_threads :: "io_context list \<Rightarrow> bool list \<Rightarrow> bool list option result" where
  "join_threads (c # cs) (t # ts) =
    (if \<not> t then Inl (Invalid_Argument ''join'')
     else if \<not> run_ends c then Inr None
     else bindR (join_threads cs ts) (\<lambda>r. Inr (map_option (\<lambda>ts. False # ts) r)))"
| "join_threads _ ts = Inr (Some ts)"

definition IOContextPool_Stop :: "io_context_pool \<Rightarrow> io_context_pool option result" where
  "IOContextPool_Stop p =
    (let ctxs = map (\<lambda>c. c\<lparr>ic_work := False\<rparr>) (ip_ctxs p) in
     bindR (join_threads ctxs (ip_threads p)) (\<lambda>r.
       Inr (map_option (\<lambda>ts. p\<lparr>ip_ctxs := ctxs, ip_threads := ts\<rparr>) r)))"

section \<open>The pool of threads\<close>

record io_thread_pool =
  it_ctx :: io_context
  it_threads :: "bool list"

definition IOThreadPool_new :: "nat \<Rightarrow> io_thread_pool" where
  "IOThreadPool_new sz =
    (let sz = (if sz = 0 then 4 else sz) in \<lparr>it_ctx = \<lparr>ic_work = True, ic_pending = 0\<rparr>, it_threads = replicate sz True\<rparr>)"

definition it_GetNextIOContext :: "io_thread_pool \<Rightarrow> io_context" where
  "it_GetNextIOContext p = it_ctx p"

definition IOThreadPool_Stop :: "io_thread_pool \<Rightarrow> io_thread_pool option result" where
  "IOThreadPool_Stop p =
    (let ctx = (it_ctx p)\<lparr>ic_work := False\<rparr> in
     bindR (join_threads (replicate (length (it_threads p)) ctx) (it_threads p)) (\<lambda>r.
       Inr (map_option (\<lambda>ts. p\<lparr>it_ctx := ctx, it_threads := ts\<rparr>) r)))"

section \<open>Lemmas\<close>

primrec next_contexts :: "nat \<Rightarrow> io_context_pool \<Rightarrow> nat list" where
  "next_contexts 0 p = []"
| "next_contexts (Suc k) p = (let (i, p) = GetNextIOContext p in i # next_contexts k p)"

lemma next_contexts_run:
  "ip_nxt p mod length (ip_ctxs p) = m mod length (ip_ctxs p) \<Longrightarrow>
    next_contexts k p = map (\<lambda>i. i mod length (ip_ctxs p)) [m..<m + k]"
proof (induction k arbitrary: p m)
  case (Suc k)
  let ?n = "length (ip_ctxs p)"
  have "(ip_nxt p mod ?n + 1) mod ?n = Suc m mod ?n" using Suc.prems by (simp add: mod_Suc_eq)
  then have "next_contexts k (p\<lparr>ip_nxt := ip_nxt p mod ?n + 1\<rparr>) = map (\<lambda>i. i mod ?n) [Suc m..<Suc m + k]"
    using Suc.IH [of "p\<lparr>ip_nxt := ip_nxt p mod ?n + 1\<rparr>" "Suc m"] by simp
  moreover have "[m..<m + Suc k] = m # [Suc m..<Suc m + k]" by (subst upt_conv_Cons) simp_all
  ultimately show ?case using Suc.prems by (simp add: GetNextIOContext_def Let_def del: upt_Suc)
qed simp

lemma mod_window:
  fixes x y n :: nat
  assumes "x \<le> y" and "y < x + n" and "x mod n = y mod n"
  shows "x = y"
proof (rule ccontr)
  assume "x \<noteq> y"
  then have "0 < y - x" using assms(1) by simp
  moreover have "n dvd y - x" using mod_eq_dvd_iff_nat [OF assms(1), of n] assms(3) by simp
  ultimately have "n \<le> y - x" by (intro dvd_imp_le)
  with assms(1,2) show False by simp
qed

lemma window_distinct: "distinct (map (\<lambda>i. i mod n) [m..<m + n])"
proof -
  have "inj_on (\<lambda>i. i mod n) {m..<m + n}"
  proof (rule inj_onI)
    fix x y assume "x \<in> {m..<m + n}" "y \<in> {m..<m + n}" "x mod n = y mod n"
    then show "x = y" using mod_window [of x y n] mod_window [of y x n] by (cases "x \<le> y") simp_all
  qed
  then show ?thesis by (simp add: distinct_map)
qed

lemma join_threads_idle:
  "length ts = length cs \<Longrightarrow> list_all run_ends cs \<Longrightarrow> list_all id ts \<Longrightarrow>
    join_threads cs ts = Inr (Some (replicate (length ts) False))"
  by (induction cs ts rule: join_threads.induct) auto

lemma join_threads_busy:
  "length ts = length cs \<Longrightarrow> \<not> list_all run_ends cs \<Longrightarrow> list_all id ts \<Longrightarrow> join_threads cs ts = Inr None"
  by (induction cs ts rule: join_threads.induct) auto

section \<open>Properties\<close>

text \<open>
  The contexts are handed out in turn. Whatever was handed out before, among as many consecutive calls
  as there are contexts every context is given exactly once, so no I/O thread gets two connections more
  than another.
\<close>

lemma round_robin_even:
  assumes "ip_ctxs p \<noteq> []"
  shows "distinct (next_contexts (length (ip_ctxs p)) p) \<and>
    set (next_contexts (length (ip_ctxs p)) p) = {..<length (ip_ctxs p)}"
proof -
  let ?n = "length (ip_ctxs p)"
  have run: "next_contexts ?n p = map (\<lambda>i. i mod ?n) [ip_nxt p..<ip_nxt p + ?n]"
    by (rule next_contexts_run) simp
  have d: "distinct (next_contexts ?n p)" unfolding run by (rule window_distinct)
  have "set (next_contexts ?n p) \<subseteq> {..<?n}" using assms unfolding run by auto
  moreover have "card (set (next_contexts ?n p)) = ?n" using distinct_card [OF d] by (simp add: run)
  ultimately have "set (next_contexts ?n p) = {..<?n}" by (intro card_subset_eq) simp_all
  with d show ?thesis by blast
qed

text \<open>
  Stopping a pool that nobody stopped before joins every thread when no context has an operation
  outstanding, and otherwise waits: the operations are not cancelled, so a client that stays connected
  and silent keeps the server from ending. Stopping it a second time throws.
\<close>

lemma IOContextPool_Stop_outcomes:
  assumes "length (ip_threads p) = length (ip_ctxs p)" and "list_all id (ip_threads p)"
  shows "(list_all (\<lambda>c. ic_pending c = 0) (ip_ctxs p) \<longrightarrow>
      (\<exists>p'. IOContextPool_Stop p = Inr (Some p') \<and> (ip_ctxs p \<noteq> [] \<longrightarrow> IOContextPool_Stop p' = Inl (Invalid_Argument ''join'')))) \<and>
    (\<not> list_all (\<lambda>c. ic_pending c = 0) (ip_ctxs p) \<longrightarrow> IOContextPool_Stop p = Inr None)"
proof -
  let ?cs = "map (\<lambda>c. c\<lparr>ic_work := False\<rparr>) (ip_ctxs p)"
  have ends: "list_all run_ends ?cs \<longleftrightarrow> list_all (\<lambda>c. ic_pending c = 0) (ip_ctxs p)"
    by (simp add: list_all_iff run_ends_def)
  have len: "length (ip_threads p) = length ?cs" using assms(1) by simp
  show ?thesis
  proof (intro conjI impI)
    assume "list_all (\<lambda>c. ic_pending c = 0) (ip_ctxs p)"
    then have "join_threads ?cs (ip_threads p) = Inr (Some (replicate (length (ip_threads p)) False))"
      using join_threads_idle [OF len] assms(2) ends by blast
    then show "\<exists>p'. IOContextPool_Stop p = Inr (Some p') \<and> (ip_ctxs p \<noteq> [] \<longrightarrow> IOContextPool_Stop p' = Inl (Invalid_Argument ''join''))"
      using assms(1) by (auto simp: IOContextPool_Stop_def Let_def neq_Nil_conv)
  next
    assume "\<not> list_all (\<lambda>c. ic_pending c = 0) (ip_ctxs p)"
    then show "IOContextPool_Stop p = Inr None"
      using join_threads_busy [OF len] assms(2) ends by (simp add: IOContextPool_Stop_def Let_def)
  qed
qed

end
