(* ===== verification/Connections.thy ===== *)
theory Connections
  imports Cpp_Text
begin

text \<open>
  What the servers share to reach Redis and the status service: the owner of a Redis object,
  \<open>src/common/redis/base_redis_mgr.cpp\<close>, the lock on a Redis key of \<open>src/include/common/redis/redis_lock.hpp\<close>,
  and the clients of the status service, \<open>src/include/http/rpc/status_rpc_client.hpp\<close> and
  \<open>src/include/server/rpc/status_rpc_client.hpp\<close>. The Redis library is a parameter: whether connecting
  succeeds, and what its commands do. The lemmas show when a Redis object can be used, that the lock is
  held by one owner at a time and released only by its owner, and that the stub of the gateway, which
  several threads create at their first use, can be destroyed under a thread that uses it.
\<close>

section \<open>The owner of a Redis object\<close>

text \<open>The address of the Redis object, if there is one.\<close>

record redis_mgr =
  rm_redis :: "nat option"

definition BaseRedisMgr_new :: redis_mgr where
  "BaseRedisMgr_new = \<lparr>rm_redis = None\<rparr>"

definition GetRedis :: "'a redis_mgr_scheme \<Rightarrow> nat result" where
  "GetRedis m = (case rm_redis m of None \<Rightarrow> Inl (Runtime_Error ''Redis connection not initialized'') | Some r \<Rightarrow> Inr r)"

definition IsConnected :: "'a redis_mgr_scheme \<Rightarrow> bool" where
  "IsConnected m = (rm_redis m \<noteq> None)"

text \<open>The move constructor and assignment: the new owner and the old one.\<close>

definition BaseRedisMgr_move :: "redis_mgr \<Rightarrow> redis_mgr \<times> redis_mgr" where
  "BaseRedisMgr_move rhs = (\<lparr>rm_redis = rm_redis rhs\<rparr>, rhs\<lparr>rm_redis := None\<rparr>)"

definition BaseRedisMgr_assign :: "bool \<Rightarrow> redis_mgr \<Rightarrow> redis_mgr \<Rightarrow> redis_mgr \<times> redis_mgr" where
  "BaseRedisMgr_assign same m rhs = (if same then (m, rhs) else (m\<lparr>rm_redis := rm_redis rhs\<rparr>, rhs\<lparr>rm_redis := None\<rparr>))"

text \<open>
  \<open>built\<close> is what constructing the Redis object comes to, an exception or its address, and \<open>script\<close> the
  virtual function \<open>RegisterScript\<close>, with the manager it leaves; \<open>base_RegisterScript\<close> is that of the base
  class. The manager is changed also when the call throws. The two overloads differ only in the arguments
  the object is built from.
\<close>

definition base_RegisterScript :: "'a redis_mgr_scheme \<Rightarrow> unit result \<times> 'a redis_mgr_scheme" where
  "base_RegisterScript m = (Inr (), m)"

definition ConnectTo ::
  "nat result \<Rightarrow> ('a redis_mgr_scheme \<Rightarrow> unit result \<times> 'a redis_mgr_scheme) \<Rightarrow> 'a redis_mgr_scheme \<Rightarrow>
    unit result \<times> 'a redis_mgr_scheme" where
  "ConnectTo built script m =
    (let m = (if IsConnected m then m\<lparr>rm_redis := None\<rparr> else m) in
     case built of
       Inl ex \<Rightarrow> (Inl ex, m)
     | Inr r \<Rightarrow>
         (let m = m\<lparr>rm_redis := Some r\<rparr> in
          case script m of
            (Inl ex, m) \<Rightarrow> (Inl ex, m\<lparr>rm_redis := None\<rparr>)
          | (Inr _, m) \<Rightarrow> (Inr (), m)))"

section \<open>A lock on a key\<close>

text \<open>
  The commands on keys, on a state \<open>'r\<close> of the database: \<open>SET\<close> with \<open>NX\<close> and a time to live, \<open>GET\<close> and \<open>DEL\<close>;
  \<open>SCRIPT LOAD\<close> with the hash it answers, and the scripts that are loaded.
\<close>

record 'r key_commands =
  kc_set_nx :: "string \<Rightarrow> string \<Rightarrow> u32 \<Rightarrow> 'r \<Rightarrow> bool \<times> 'r"
  kc_get :: "string \<Rightarrow> 'r \<Rightarrow> string option"
  kc_del :: "string \<Rightarrow> 'r \<Rightarrow> int \<times> 'r"
  kc_script_load :: "'r \<Rightarrow> string \<times> 'r"
  kc_loaded :: "string \<Rightarrow> 'r \<Rightarrow> bool"

definition lock_key :: "string \<Rightarrow> string" where
  "lock_key lock_name = ''tmplock:'' @ lock_name"

text \<open>
  \<open>rnd\<close> is the random number and \<open>now\<close> the time stamp the mark of the owner is made of. No part of the
  program includes the header, and the function it calls for the time stamp is declared nowhere.
\<close>

definition AcquireTempLock :: "'r key_commands \<Rightarrow> u64 \<Rightarrow> u64 \<Rightarrow> string \<Rightarrow> u32 \<Rightarrow> 'r \<Rightarrow> string \<times> 'r" where
  "AcquireTempLock kc rnd now lock_name lock_timeout_ms r =
    (let lock_info = to_string (unat rnd) @ to_string (unat now);
         (ans, r) = kc_set_nx kc (lock_key lock_name) lock_info lock_timeout_ms r
     in (if ans then lock_info else '''', r))"

text \<open>The Lua script, which Redis runs as one step, and running it by its hash.\<close>

definition release_script :: "'r key_commands \<Rightarrow> string \<Rightarrow> string \<Rightarrow> 'r \<Rightarrow> int \<times> 'r" where
  "release_script kc key arg r = (if kc_get kc key r = Some arg then kc_del kc key r else (0, r))"

definition evalsha :: "'r key_commands \<Rightarrow> string \<Rightarrow> string \<Rightarrow> string \<Rightarrow> 'r \<Rightarrow> (int \<times> 'r) result" where
  "evalsha kc hash key arg r =
    (if kc_loaded kc hash r then Inr (release_script kc key arg r) else Inl (Runtime_Error ''NOSCRIPT''))"

text \<open>\<open>script_hash\<close> is the static variable: the script is loaded by the first call of the process only.\<close>

definition ReleaseTempLock :: "'r key_commands \<Rightarrow> string \<Rightarrow> string \<Rightarrow> string \<Rightarrow> 'r \<Rightarrow> (bool \<times> string \<times> 'r) result" where
  "ReleaseTempLock kc script_hash lock_name lock_info r =
    (let (script_hash, r) = (if script_hash = '''' then kc_script_load kc r else (script_hash, r)) in
     bindR (evalsha kc script_hash (lock_key lock_name) lock_info r) (\<lambda>(ans, r).
       Inr (if ans = 0 then False else True, script_hash, r)))"

text \<open>Documented behaviour of the commands.\<close>

definition key_commands_ok :: "'r key_commands \<Rightarrow> bool" where
  "key_commands_ok kc =
    (\<forall>k v ttl r.
      (kc_get kc k r = None \<longrightarrow> fst (kc_set_nx kc k v ttl r) \<and> kc_get kc k (snd (kc_set_nx kc k v ttl r)) = Some v) \<and>
      (kc_get kc k r \<noteq> None \<longrightarrow> kc_set_nx kc k v ttl r = (False, r)) \<and>
      (kc_get kc k r \<noteq> None \<longrightarrow> fst (kc_del kc k r) = 1 \<and> kc_get kc k (snd (kc_del kc k r)) = None))"

section \<open>Clients of the status service\<close>

text \<open>
  The gateway keeps one stub, made at its first use, without a lock. A call of \<open>GetStatusStub\<close> is the
  test of the pointer, and, when it was null, the construction of a stub and the assignment, which
  destroys a stub that is there; then the pointer is read. \<open>sc_next\<close> is the next free address.
\<close>

record stub_client =
  sc_channel :: bool
  sc_stub :: "nat option"
  sc_dead :: "nat set"
  sc_next :: nat

definition StatusRPCClient_new :: stub_client where
  "StatusRPCClient_new = \<lparr>sc_channel = True, sc_stub = None, sc_dead = {}, sc_next = 0\<rparr>"

definition make_stub :: "stub_client \<Rightarrow> stub_client" where
  "make_stub c = c\<lparr>sc_stub := Some (sc_next c), sc_next := Suc (sc_next c),
    sc_dead := sc_dead c \<union> set_option (sc_stub c)\<rparr>"

definition GetStatusStub :: "stub_client \<Rightarrow> nat option \<times> stub_client" where
  "GetStatusStub c =
    (if sc_channel c then (let c = (if sc_stub c = None then make_stub c else c) in (sc_stub c, c))
     else (None, c))"

text \<open>Threads in \<open>GetStatusStub\<close>: one that has found the pointer null goes on to make a stub.\<close>

datatype stub_event = Stub_Test nat | Stub_Make nat

record stub_race =
  sr_client :: stub_client
  sr_making :: "nat set"
  sr_got :: "nat \<rightharpoonup> nat"

definition stub_step :: "stub_event \<Rightarrow> stub_race \<Rightarrow> stub_race" where
  "stub_step ev s =
    (case ev of
       Stub_Test t \<Rightarrow>
         if \<not> sc_channel (sr_client s) then s
         else
           (case sc_stub (sr_client s) of
              None \<Rightarrow> s\<lparr>sr_making := insert t (sr_making s)\<rparr>
            | Some a \<Rightarrow> s\<lparr>sr_got := (sr_got s)(t \<mapsto> a)\<rparr>)
     | Stub_Make t \<Rightarrow>
         if t \<in> sr_making s then
           (let c = make_stub (sr_client s)
            in s\<lparr>sr_client := c, sr_making := sr_making s - {t}, sr_got := (sr_got s)(t := sc_stub c)\<rparr>)
         else s)"

text \<open>
  The backend keeps a stub per thread, a variable of the function and not of the client: \<open>local\<close> maps the
  threads that called it to the channels of their stubs.
\<close>

definition GetThreadStatusStub :: "'c option \<Rightarrow> nat \<Rightarrow> (nat \<rightharpoonup> 'c) \<Rightarrow> 'c option \<times> (nat \<rightharpoonup> 'c)" where
  "GetThreadStatusStub ch_status t local =
    (case ch_status of
       None \<Rightarrow> (None, local)
     | Some ch \<Rightarrow> (let local = (if local t = None then local(t \<mapsto> ch) else local) in (local t, local)))"

section \<open>The clock\<close>

text \<open>The monotonic clock in milliseconds, from its seconds and nanoseconds.\<close>

definition GetTimestampMs :: "u64 \<Rightarrow> u64 \<Rightarrow> u64" where
  "GetTimestampMs tv_sec tv_nsec = tv_sec * 1000 + tv_nsec div 1000000"

section \<open>Properties\<close>

text \<open>
  After \<open>ConnectTo\<close> the Redis object is there exactly if the call returned; a failure of the connection or
  of the scripts leaves the manager without one, also when it had one before, and every use then throws.
\<close>

lemma ConnectTo_outcomes:
  assumes script: "\<And>m ret m'. script m = (ret, m') \<Longrightarrow> rm_redis m' = rm_redis m"
    and c: "ConnectTo built script m = (ret, m')"
  shows "IsConnected m' \<longleftrightarrow> (\<exists>u. ret = Inr u)" and "(\<exists>r. GetRedis m' = Inr r) \<longleftrightarrow> (\<exists>u. ret = Inr u)"
proof -
  have "IsConnected m' \<longleftrightarrow> (\<exists>u. ret = Inr u)"
  proof (cases built)
    case (Inl ex)
    with c show ?thesis by (cases "rm_redis m") (auto simp: ConnectTo_def IsConnected_def Let_def)
  next
    case (Inr r)
    obtain x y where "script (m\<lparr>rm_redis := Some r\<rparr>) = (x, y)" by fastforce
    moreover from script [OF this] have "rm_redis y = Some r" by simp
    ultimately show ?thesis
      using c Inr by (cases "rm_redis m"; cases x) (auto simp: ConnectTo_def IsConnected_def Let_def)
  qed
  then show "IsConnected m' \<longleftrightarrow> (\<exists>u. ret = Inr u)" "(\<exists>r. GetRedis m' = Inr r) \<longleftrightarrow> (\<exists>u. ret = Inr u)"
    by (auto simp: IsConnected_def GetRedis_def split: option.splits)
qed

text \<open>
  While an owner holds the lock on a key nobody else acquires it.
\<close>

lemma acquired:
  assumes kc: "key_commands_ok kc" and acq: "AcquireTempLock kc rnd now name ttl r = (mark, r')" "mark \<noteq> ''''"
  shows "kc_get kc (lock_key name) r = None" and "kc_get kc (lock_key name) r' = Some mark"
proof -
  let ?k = "lock_key name" and ?m = "to_string (unat rnd) @ to_string (unat now)"
  have set: "fst (kc_set_nx kc ?k ?m ttl r)" "mark = ?m" "r' = snd (kc_set_nx kc ?k ?m ttl r)"
    using acq by (auto simp: AcquireTempLock_def Let_def case_prod_unfold split: if_splits)
  show free: "kc_get kc ?k r = None"
  proof (rule ccontr)
    assume "kc_get kc ?k r \<noteq> None"
    then have "kc_set_nx kc ?k ?m ttl r = (False, r)" using kc unfolding key_commands_ok_def by blast
    then show False using set(1) by simp
  qed
  then show "kc_get kc ?k r' = Some mark" using kc set unfolding key_commands_ok_def by blast
qed

lemma release_by_other:
  assumes "kc_get kc (lock_key name) r = Some mark" and "other \<noteq> mark" and "h \<noteq> ''''" and "kc_loaded kc h r"
  shows "ReleaseTempLock kc h name other r = Inr (False, h, r)"
  using assms by (simp add: ReleaseTempLock_def evalsha_def release_script_def)

lemma release_by_owner:
  assumes "key_commands_ok kc" and "kc_get kc (lock_key name) r = Some mark" and "h \<noteq> ''''" and "kc_loaded kc h r"
  obtains r' where "ReleaseTempLock kc h name mark r = Inr (True, h, r')" and "kc_get kc (lock_key name) r' = None"
proof -
  let ?d = "kc_del kc (lock_key name) r"
  have "fst ?d = 1 \<and> kc_get kc (lock_key name) (snd ?d) = None"
    using assms(1,2) unfolding key_commands_ok_def by blast
  then show ?thesis
    using assms(2-) by (intro that [of "snd ?d"]) (simp_all add: ReleaseTempLock_def evalsha_def release_script_def case_prod_unfold)
qed

text \<open>
  C38: the lock on a key excludes. While an owner holds it nobody else acquires it, and a release with
  another mark changes nothing, so an owner whose lock has expired does not release the lock of the next
  one; a release with the mark of the owner frees the key. When Redis has lost its scripts every release
  throws, and the lock is left to its time limit.
\<close>

theorem lock_excludes:
  assumes kc: "key_commands_ok kc" and acq: "AcquireTempLock kc rnd now name ttl r = (mark, r')" "mark \<noteq> ''''"
    and h: "h \<noteq> ''''"
  shows "AcquireTempLock kc rnd' now' name ttl' r' = ('''', r') \<and>
    (if kc_loaded kc h r'
     then (other = mark \<or> ReleaseTempLock kc h name other r' = Inr (False, h, r')) \<and>
       (\<exists>r''. ReleaseTempLock kc h name mark r' = Inr (True, h, r'') \<and> kc_get kc (lock_key name) r'' = None)
     else ReleaseTempLock kc h name other r' = Inl (Runtime_Error ''NOSCRIPT''))"
proof -
  note held = acquired(2) [OF kc acq]
  have "kc_set_nx kc (lock_key name) v ttl' r' = (False, r')" for v
    using kc held unfolding key_commands_ok_def by blast
  then have "AcquireTempLock kc rnd' now' name ttl' r' = ('''', r')" by (simp add: AcquireTempLock_def)
  moreover have "other = mark \<or> ReleaseTempLock kc h name other r' = Inr (False, h, r')" if "kc_loaded kc h r'"
    using release_by_other [OF held _ h that] by blast
  moreover have "\<exists>r''. ReleaseTempLock kc h name mark r' = Inr (True, h, r'') \<and> kc_get kc (lock_key name) r'' = None"
    if "kc_loaded kc h r'" using release_by_owner [OF kc held h that] by blast
  ultimately show ?thesis using h by (simp add: ReleaseTempLock_def evalsha_def)
qed

text \<open>Keys and values without expiry; the script is loaded.\<close>

definition ex_keys :: "(string \<rightharpoonup> string) key_commands" where
  "ex_keys =
    \<lparr>kc_set_nx = (\<lambda>k v ttl m. if m k = None then (True, m(k \<mapsto> v)) else (False, m)),
     kc_get = (\<lambda>k m. m k),
     kc_del = (\<lambda>k m. (if m k = None then 0 else 1, m(k := None))),
     kc_script_load = (\<lambda>m. (''f00'', m)),
     kc_loaded = (\<lambda>h m. h = ''f00'')\<rparr>"

lemma ex_keys_ok: "key_commands_ok ex_keys"
  by (auto simp: key_commands_ok_def ex_keys_def)

theorem lock_excludes_witness:
  "\<exists>r'. AcquireTempLock ex_keys 12 3 ''a'' 100 Map.empty = (''123'', r') \<and>
    AcquireTempLock ex_keys 4 5 ''a'' 100 r' = ('''', r') \<and>
    ReleaseTempLock ex_keys ''f00'' ''a'' ''45'' r' = Inr (False, ''f00'', r')"
proof -
  obtain r' where r': "AcquireTempLock ex_keys 12 3 ''a'' 100 Map.empty = (''123'', r')"
    by (simp add: AcquireTempLock_def ex_keys_def digit_char_def to_string.simps Let_def char_of_def bit_0)
  have "kc_loaded ex_keys ''f00'' r'" by (simp add: ex_keys_def)
  with lock_excludes [OF ex_keys_ok r', of "''f00''" 4 5 100 "''45''"] show ?thesis using r' by auto
qed

text \<open>
  A mark does not always tell two owners apart: its two numbers are written without a separator.
\<close>

lemma marks_collide: "to_string 12 @ to_string 3 = to_string 1 @ to_string 23"
  by (simp add: digit_char_def to_string.simps)

text \<open>
  Two threads of the gateway that make the stub at the same time: both find none and both make one; the
  second assignment destroys the stub the first thread got and goes on to use. One after the other the
  threads get the same stub, which stays alive.
\<close>

lemma stub_made_twice:
  assumes "a \<noteq> b" and "sc_channel c" and "sc_stub c = None"
  shows "\<exists>p. sr_got (fold stub_step [Stub_Test a, Stub_Test b, Stub_Make a, Stub_Make b]
        \<lparr>sr_client = c, sr_making = {}, sr_got = Map.empty\<rparr>) a = Some p \<and>
      p \<in> sc_dead (sr_client (fold stub_step [Stub_Test a, Stub_Test b, Stub_Make a, Stub_Make b]
        \<lparr>sr_client = c, sr_making = {}, sr_got = Map.empty\<rparr>))"
  using assms by (simp add: stub_step_def make_stub_def Let_def)

lemma stub_made_once:
  assumes "sc_channel c" and "GetStatusStub c = (p, c')"
  shows "p \<noteq> None \<and> GetStatusStub c' = (p, c') \<and> sc_dead c' = sc_dead c"
  using assms by (auto simp: make_stub_def GetStatusStub_def Let_def split: if_splits)

text \<open>
  A thread of the backend gets the same stub in every call, that of the first client it asked, whichever
  client it asks later; other threads are not affected.
\<close>

lemma thread_stub:
  assumes "GetThreadStatusStub (Some ch) t local = (stub, local')"
  shows "stub \<noteq> None \<and> GetThreadStatusStub (Some ch') t local' = (stub, local') \<and> (\<forall>t'. t' \<noteq> t \<longrightarrow> local' t' = local t')"
  using assms by (auto simp: GetThreadStatusStub_def Let_def split: if_splits)

text \<open>
  The time stamps follow the clock: as long as the seconds times a thousand stay in the range of 64 bits,
  a later reading does not give a smaller stamp.
\<close>

lemma GetTimestampMs_unat:
  assumes "unat s < 2 ^ 53" and "unat n < 1000000000"
  shows "unat (GetTimestampMs s n) = unat s * 1000 + unat n div 1000000"
proof -
  have "unat s * 1000 + unat n div 1000000 < 2 ^ 64" using assms by simp
  then show ?thesis by (simp add: GetTimestampMs_def unat_word_ariths unat_div)
qed

lemma GetTimestampMs_mono:
  assumes "unat s < 2 ^ 53" "unat s' < 2 ^ 53" "unat n < 1000000000" "unat n' < 1000000000"
    and "unat s < unat s' \<or> s = s' \<and> unat n \<le> unat n'"
  shows "GetTimestampMs s n \<le> GetTimestampMs s' n'"
proof -
  have "unat n div 1000000 < 1000" using assms(3) by simp
  then have "unat s * 1000 + unat n div 1000000 \<le> unat s' * 1000 + unat n' div 1000000"
    using assms(5) by (auto simp: div_le_mono)
  then show ?thesis by (simp add: word_le_nat_alt GetTimestampMs_unat [OF assms(1,3)] GetTimestampMs_unat [OF assms(2,4)])
qed

end
