(* ===== verification/Gateway_Node.thy ===== *)
theory Gateway_Node
  imports Gateway Connections
begin

text \<open>
  The gateway as a program: its Redis manager, \<open>src/http/redis/gateway_redis.cpp\<close>, the HTTP server that
  accepts connections, \<open>src/http/http_server.cpp\<close>, the assembly of its parts, \<open>src/http/gateway_class.cpp\<close> and
  \<open>src/include/http/gateway_class.hpp\<close>, and \<open>src/http/gateway_main.cpp\<close>. Every connection is one of theory
  Gateway; all of them share the request handler. A handler is one step, taken when it ends. The lemmas
  show that every connection is answered in order by the handler whatever the other connections do, that
  one failed accept ends accepting for good, and that a failure of Redis during a login ends the program.
\<close>

section \<open>The Redis manager\<close>

record gateway_redis = redis_mgr +
  gr_sha_server_by_user :: string

definition gw_RedisMgr_new :: gateway_redis where
  "gw_RedisMgr_new = \<lparr>rm_redis = None, gr_sha_server_by_user = ''''\<rparr>"

definition SERVER_TABLE :: string where
  "SERVER_TABLE = ''server_list''"

definition get_server_by_userid :: "string list" where
  "get_server_by_userid =
    [''local server_id = redis.call(\"GET\", KEYS[1])'',
     ''if not server_id then'',
     ''   return nil'',
     ''end'',
     ''return redis.call(\"HGET\", '' @ SERVER_TABLE @ '', server_id)'']"

text \<open>\<open>load\<close> is \<open>SCRIPT LOAD\<close> of the lines of a script, which answers the hash or throws.\<close>

definition RegisterScript :: "(string list \<Rightarrow> string result) \<Rightarrow> gateway_redis \<Rightarrow> unit result \<times> gateway_redis" where
  "RegisterScript load m =
    (if \<not> IsConnected m then (Inl (Runtime_Error ''Redis connection not initialized''), m)
     else
       (case GetRedis m of
          Inl ex \<Rightarrow> (Inl ex, m)
        | Inr _ \<Rightarrow>
            (case load get_server_by_userid of
               Inl ex \<Rightarrow> (Inl ex, m)
             | Inr sha \<Rightarrow> (Inr (), m\<lparr>gr_sha_server_by_user := sha\<rparr>))))"

section \<open>The HTTP server\<close>

text \<open>
  \<open>hn_open\<close> tells that the acceptor is open, \<open>hn_accepting\<close> that an \<open>async_accept\<close> is outstanding; connections
  are objects at addresses.
\<close>

record http_node =
  hn_gw :: gateway
  hn_open :: bool
  hn_accepting :: bool
  hn_conns :: "nat \<rightharpoonup> http_conn"

definition ReqHandler_new :: "dbm \<Rightarrow> u16 \<Rightarrow> gateway" where
  "ReqHandler_new dbm worker_id = \<lparr>gw_dbm = dbm, gw_uid_gen = UIDGenerator_new worker_id 1577836800000, gw_cmds = []\<rparr>"

text \<open>The error messages of opening, setting the option, binding and listening.\<close>

definition HTTPServer_new ::
  "string option \<Rightarrow> string option \<Rightarrow> string option \<Rightarrow> string option \<Rightarrow> gateway \<Rightarrow> http_node result" where
  "HTTPServer_new e_open e_reuse e_bind e_listen req =
    (case e_open of Some msg \<Rightarrow> Inl (Runtime_Error (''Failed to open acceptor: '' @ msg)) | None \<Rightarrow>
     case e_reuse of Some msg \<Rightarrow> Inl (Runtime_Error (''Failed to set reuse_address: '' @ msg)) | None \<Rightarrow>
     case e_bind of Some msg \<Rightarrow> Inl (Runtime_Error (''Failed to bind acceptor: '' @ msg)) | None \<Rightarrow>
     case e_listen of Some msg \<Rightarrow> Inl (Runtime_Error (''Failed to listen on acceptor: '' @ msg)) | None \<Rightarrow>
       Inr \<lparr>hn_gw = req, hn_open = True, hn_accepting = False, hn_conns = Map.empty\<rparr>)"

definition Acceptor :: "http_node \<Rightarrow> http_node" where
  "Acceptor n = n\<lparr>hn_accepting := True\<rparr>"

text \<open>The completion of an accept: \<open>None\<close> is an error, \<open>Some p\<close> the new connection.\<close>

definition Acceptor_cb :: "nat option \<Rightarrow> http_node \<Rightarrow> http_node" where
  "Acceptor_cb sess n =
    (let n = n\<lparr>hn_accepting := False\<rparr> in
     case sess of
       None \<Rightarrow> n
     | Some p \<Rightarrow> Acceptor (n\<lparr>hn_conns := (hn_conns n)(p \<mapsto> HTTPConnection_Start)\<rparr>))"

definition HTTPServer_Start :: "http_node \<Rightarrow> http_node" where
  "HTTPServer_Start n = Acceptor n"

text \<open>Closing the acceptor makes an outstanding accept complete with an error.\<close>

definition HTTPServer_Stop :: "http_node \<Rightarrow> http_node" where
  "HTTPServer_Stop n = n\<lparr>hn_open := False\<rparr>"

section \<open>The gateway\<close>

definition Initialize ::
  "nat result \<Rightarrow> (string list \<Rightarrow> string result) \<Rightarrow> string option \<Rightarrow> string option \<Rightarrow> string option \<Rightarrow> string option \<Rightarrow>
    http_node result" where
  "Initialize built load e_open e_reuse e_bind e_listen =
    bindR (fst (ConnectTo built (RegisterScript load) gw_RedisMgr_new)) (\<lambda>_.
      HTTPServer_new e_open e_reuse e_bind e_listen (ReqHandler_new DBM_new 0))"

definition gw_Run :: "(nat \<Rightarrow> conn_outcome) \<Rightarrow> u32 \<Rightarrow> http_node \<Rightarrow> http_node result" where
  "gw_Run net db_conn n =
    (let (ret, m) = DBM_Start net db_conn db_conn (gw_dbm (hn_gw n)); n = n\<lparr>hn_gw := (hn_gw n)\<lparr>gw_dbm := m\<rparr>\<rparr>
     in if \<not> ret then Inl (Runtime_Error ''Error when starting dbm'') else Inr (HTTPServer_Start n))"

text \<open>\<open>main\<close> up to the event loop; an exception leaves \<open>main\<close> and ends the program.\<close>

definition gateway_main ::
  "nat result \<Rightarrow> (string list \<Rightarrow> string result) \<Rightarrow> string option \<Rightarrow> string option \<Rightarrow> string option \<Rightarrow> string option \<Rightarrow>
    (nat \<Rightarrow> conn_outcome) \<Rightarrow> http_node result" where
  "gateway_main built load e_open e_reuse e_bind e_listen net =
    bindR (Initialize built load e_open e_reuse e_bind e_listen) (\<lambda>n. gw_Run net 10 n)"

text \<open>
  The request a pool thread took for connection \<open>p\<close> is answered. An exception leaves the thread of the
  pool and ends the program; a handler that has to wait has not ended yet.
\<close>

definition PostRequest :: "gw_services \<Rightarrow> nat \<Rightarrow> http_node \<Rightarrow> http_node result" where
  "PostRequest sv p n =
    (case hn_conns n p of
       None \<Rightarrow> Inr n
     | Some s \<Rightarrow>
         (case hc_phase s of
            Hc_Handling req \<Rightarrow>
              (case RequestHandler sv req (hn_gw n) of
                 (None, gw) \<Rightarrow> Inr n
               | (Some (Inl ex), gw) \<Rightarrow> Inl ex
               | (Some (Inr resp), gw) \<Rightarrow> Inr (n\<lparr>hn_gw := gw, hn_conns := (hn_conns n)(p \<mapsto> SendResponse resp s)\<rparr>))
          | _ \<Rightarrow> Inr n))"

text \<open>
  Events of the program; an event that does not fit the state changes nothing. Reading and writing do not
  use the answer \<open>hc_step\<close> is given.
\<close>

datatype gn_event =
    Gn_Accept "nat option"
  | Gn_Io nat hc_event
  | Gn_Handle nat gw_services
  | Gn_Stop

definition gn_step :: "gn_event \<Rightarrow> http_node \<Rightarrow> (unit \<times> http_node) result" where
  "gn_step ev n =
    (case ev of
       Gn_Accept sess \<Rightarrow>
         Inr ((), if hn_accepting n \<and> (case sess of None \<Rightarrow> True | Some p \<Rightarrow> hn_open n \<and> hn_conns n p = None)
                  then Acceptor_cb sess n else n)
     | Gn_Io p io \<Rightarrow>
         (case hn_conns n p of
            None \<Rightarrow> Inr ((), n)
          | Some s \<Rightarrow>
              if io = Hc_Handled then Inr ((), n)
              else bindR (hc_step NotFound io s) (\<lambda>(out, s). Inr ((), n\<lparr>hn_conns := (hn_conns n)(p \<mapsto> s)\<rparr>)))
     | Gn_Handle p sv \<Rightarrow> bindR (PostRequest sv p n) (\<lambda>n. Inr ((), n))
     | Gn_Stop \<Rightarrow> Inr ((), HTTPServer_Stop n))"

section \<open>Lemmas\<close>

text \<open>The handler gave this response to the request, in some state of the gateway.\<close>

definition answered :: "http_request \<Rightarrow> http_response \<Rightarrow> bool" where
  "answered req resp = (\<exists>sv gw gw'. RequestHandler sv req gw = (Some (Inr resp), gw'))"

definition conn_ok :: "http_conn \<Rightarrow> bool" where
  "conn_ok s =
    (case hc_phase s of
       Hc_Handling req \<Rightarrow> \<exists>reqs. hc_taken s = reqs @ [req] \<and> list_all2 answered reqs (hc_sent s)
     | _ \<Rightarrow> list_all2 answered (hc_taken s) (hc_sent s))"

definition node_ok :: "http_node \<Rightarrow> bool" where
  "node_ok n = (\<forall>p s. hn_conns n p = Some s \<longrightarrow> conn_ok s)"

lemma conn_ok_Start: "conn_ok HTTPConnection_Start"
  by (simp add: conn_ok_def HTTPConnection_Start_def)

lemma conn_ok_io: "conn_ok s \<Longrightarrow> io \<noteq> Hc_Handled \<Longrightarrow> hc_step answer io s = Inr (out, s') \<Longrightarrow> conn_ok s'"
  by (auto simp: conn_ok_def hc_step_def hc_Close_def ReadRequest_def
      split: hc_event.splits hc_phase.splits option.splits if_splits)

lemma conn_ok_SendResponse:
  "conn_ok s \<Longrightarrow> hc_phase s = Hc_Handling req \<Longrightarrow> answered req resp \<Longrightarrow> conn_ok (SendResponse resp s)"
  by (auto simp: conn_ok_def SendResponse_def intro: list_all2_appendI)

lemma node_ok_update: "node_ok n \<Longrightarrow> conn_ok s \<Longrightarrow> node_ok (n\<lparr>hn_conns := (hn_conns n)(p \<mapsto> s)\<rparr>)"
  by (simp add: node_ok_def)

lemma node_ok_PostRequest:
  assumes "node_ok n" and "PostRequest sv p n = Inr n'"
  shows "node_ok n'"
proof (cases "n' = n")
  case False
  then obtain s req resp gw where s: "hn_conns n p = Some s" "hc_phase s = Hc_Handling req"
      "RequestHandler sv req (hn_gw n) = (Some (Inr resp), gw)"
      "n' = n\<lparr>hn_gw := gw, hn_conns := (hn_conns n)(p \<mapsto> SendResponse resp s)\<rparr>"
    using assms(2)
    by (auto simp: PostRequest_def split: option.splits hc_phase.splits prod.splits sum.splits)
  have "conn_ok (SendResponse resp s)"
    using assms(1) s(1-3) by (intro conn_ok_SendResponse) (auto simp: node_ok_def answered_def)
  then show ?thesis using assms(1) s(4) by (simp add: node_ok_def)
qed (use assms in simp)

lemma node_ok_step: "node_ok n \<Longrightarrow> gn_step ev n = Inr (out, n') \<Longrightarrow> node_ok n'"
proof (cases ev)
  case (Gn_Accept sess)
  moreover assume "node_ok n" "gn_step ev n = Inr (out, n')"
  ultimately show ?thesis
    by (auto simp: gn_step_def Acceptor_cb_def Acceptor_def node_ok_def conn_ok_Start split: if_splits option.splits)
next
  case (Gn_Io p io)
  moreover assume n: "node_ok n" "gn_step ev n = Inr (out, n')"
  moreover have "conn_ok s'" if "hn_conns n p = Some s" "io \<noteq> Hc_Handled" "hc_step NotFound io s = Inr (out', s')" for s s' out'
    using conn_ok_io [OF _ that(2,3)] n(1) that(1) by (auto simp: node_ok_def)
  ultimately show ?thesis
    by (auto simp: gn_step_def intro!: node_ok_update split: if_splits option.splits)
next
  case (Gn_Handle p sv)
  moreover assume "node_ok n" "gn_step ev n = Inr (out, n')"
  ultimately show ?thesis using node_ok_PostRequest by (auto simp: gn_step_def)
next
  case Gn_Stop
  moreover assume "node_ok n" "gn_step ev n = Inr (out, n')"
  ultimately show ?thesis by (auto simp: gn_step_def HTTPServer_Stop_def node_ok_def)
qed

interpretation gnode: run_invariant gn_step node_ok
  by unfold_locales (rule node_ok_step)

lemma RegisterScript_keeps: "RegisterScript load m = (ret, m') \<Longrightarrow> rm_redis m' = rm_redis m"
  by (auto simp: RegisterScript_def split: if_splits sum.splits)

lemma RegisterScript_connected:
  "rm_redis m = Some r \<Longrightarrow> (\<exists>u. fst (RegisterScript load m) = Inr u) \<longleftrightarrow> (\<exists>sha. load get_server_by_userid = Inr sha)"
  by (auto simp: RegisterScript_def IsConnected_def GetRedis_def split: sum.splits)

lemma gateway_redis_connects:
  "(\<exists>u. fst (ConnectTo built (RegisterScript load) gw_RedisMgr_new) = Inr u) \<longleftrightarrow>
    (\<exists>r. built = Inr r) \<and> (\<exists>sha. load get_server_by_userid = Inr sha)"
proof (cases built)
  case (Inr r)
  let ?m = "gw_RedisMgr_new\<lparr>rm_redis := Some r\<rparr>"
  have "(\<exists>u. fst (RegisterScript load ?m) = Inr u) \<longleftrightarrow> (\<exists>sha. load get_server_by_userid = Inr sha)"
    by (rule RegisterScript_connected) simp
  moreover have "ConnectTo built (RegisterScript load) gw_RedisMgr_new =
      (case RegisterScript load ?m of (Inl ex, m) \<Rightarrow> (Inl ex, m\<lparr>rm_redis := None\<rparr>) | (Inr _, m) \<Rightarrow> (Inr (), m))"
    using Inr by (simp add: ConnectTo_def IsConnected_def gw_RedisMgr_new_def Let_def)
  ultimately show ?thesis using Inr by (auto split: prod.splits sum.splits)
qed (simp add: ConnectTo_def Let_def)

text \<open>What accepting has to do with the connections there are.\<close>

lemma not_accepting_step:
  "\<not> hn_accepting n \<Longrightarrow> gn_step ev n = Inr (out, n') \<Longrightarrow> \<not> hn_accepting n' \<and> dom (hn_conns n') = dom (hn_conns n)"
  by (cases ev)
    (auto simp: gn_step_def PostRequest_def HTTPServer_Stop_def
      split: option.splits if_splits hc_phase.splits prod.splits sum.splits)

lemma not_accepting_run:
  "\<not> hn_accepting n \<Longrightarrow> run_steps gn_step evs n = Inr (outs, n') \<Longrightarrow> dom (hn_conns n') = dom (hn_conns n)"
proof (induction evs arbitrary: n outs)
  case (Cons ev evs)
  then obtain out n1 outs1 where n1: "gn_step ev n = Inr (out, n1)" "run_steps gn_step evs n1 = Inr (outs1, n')" by auto
  from not_accepting_step [OF Cons.prems(1) n1(1)] Cons.IH [OF _ n1(2)] show ?case by simp
qed simp

section \<open>Properties\<close>

text \<open>
  The program reaches its event loop exactly if Redis can be reached and takes the script, the acceptor
  can be set up and all ten connections to the database can be made; then it accepts connections.
\<close>

lemma gateway_main_outcomes:
  "(\<exists>n. gateway_main built load e_open e_reuse e_bind e_listen net = Inr n) \<longleftrightarrow>
    (\<exists>r. built = Inr r) \<and> (\<exists>sha. load get_server_by_userid = Inr sha) \<and>
    e_open = None \<and> e_reuse = None \<and> e_bind = None \<and> e_listen = None \<and> fst (DBM_Start net 10 10 DBM_new)"
  "gateway_main built load e_open e_reuse e_bind e_listen net = Inr n \<Longrightarrow> hn_accepting n \<and> hn_open n \<and> hn_conns n = Map.empty"
proof -
  let ?c = "fst (ConnectTo built (RegisterScript load) gw_RedisMgr_new)"
  have "(\<exists>n. gateway_main built load e_open e_reuse e_bind e_listen net = Inr n) \<longleftrightarrow>
      (\<exists>u. ?c = Inr u) \<and> e_open = None \<and> e_reuse = None \<and> e_bind = None \<and> e_listen = None \<and> fst (DBM_Start net 10 10 DBM_new)"
    by (cases ?c)
      (auto simp: gateway_main_def Initialize_def HTTPServer_new_def gw_Run_def ReqHandler_new_def case_prod_unfold Let_def
        split: option.splits)
  then show "(\<exists>n. gateway_main built load e_open e_reuse e_bind e_listen net = Inr n) \<longleftrightarrow>
      (\<exists>r. built = Inr r) \<and> (\<exists>sha. load get_server_by_userid = Inr sha) \<and>
      e_open = None \<and> e_reuse = None \<and> e_bind = None \<and> e_listen = None \<and> fst (DBM_Start net 10 10 DBM_new)"
    unfolding gateway_redis_connects by blast
  assume "gateway_main built load e_open e_reuse e_bind e_listen net = Inr n"
  then show "hn_accepting n \<and> hn_open n \<and> hn_conns n = Map.empty"
    by (auto simp: gateway_main_def Initialize_def HTTPServer_new_def gw_Run_def HTTPServer_Start_def Acceptor_def
        case_prod_unfold Let_def split: option.splits if_splits)
qed


definition ex_ping :: http_request where
  "ex_ping = \<lparr>rq_method = Verb_Get, rq_target = ''/ping'', rq_version = 11, rq_keep_alive = True, rq_body = ''''\<rparr>"

lemma DBM_connect_done: "fst (DBM_connect (\<lambda>_. Connect_Done) k m)"
  by (induction k arbitrary: m)
    (auto simp: new_conn_def DBConn_Connect_def ReconnectImpl_def DBConn_new_def Let_def split: prod.splits)

lemma ex_DBM_Start: "fst (DBM_Start (\<lambda>_. Connect_Done) 10 10 DBM_new)"
  using DBM_connect_done [of 10 DBM_new] by (simp add: DBM_Start_def DBM_new_def case_prod_unfold Let_def)


text \<open>
  An accept that fails, for instance because the process has no descriptor left at that moment, is the
  last one: whatever happens afterwards, no connection is added any more.
\<close>

lemma failed_accept_is_final:
  assumes "hn_accepting n" and "run_steps gn_step (Gn_Accept None # evs) n = Inr (outs, n')"
  shows "dom (hn_conns n') = dom (hn_conns n)"
proof -
  obtain outs' where "run_steps gn_step evs (n\<lparr>hn_accepting := False\<rparr>) = Inr (outs', n')"
    using assms by (auto simp: gn_step_def Acceptor_cb_def)
  from not_accepting_run [OF _ this] show ?thesis by simp
qed

text \<open>
  C30: a login with the right password ends the gateway when Redis cannot be reached: the exception of the
  Redis library is caught neither by the request handler nor by the thread it runs on.
\<close>

theorem redis_failure_ends_gateway:
  assumes conn: "hn_conns n p = Some s" "hc_phase s = Hc_Handling req"
    and req: "rq_method req = Verb_Post" "rq_target req = ''/login''" "gs_json sv (rq_body req) = Req_Fields username passcode"
    and db: "DBM_VerifyUserInfo (gs_net sv) (gs_crypto sv) (gs_mysql sv) username passcode (gw_dbm (hn_gw n)) =
      (Some (Inr (GATEWAY_SUCCESS, Some uid)), m)"
    and down: "fst (gs_rpc sv)" "\<not> gs_redis sv"
  shows "gn_step (Gn_Handle p sv) n = Inl (Runtime_Error ''redis'')"
proof -
  have "RequestHandler sv req (hn_gw n) = (Some (Inl (Runtime_Error ''redis'')), (hn_gw n)\<lparr>gw_dbm := m\<rparr>)"
    using req db down by (simp add: RequestHandler_def PostHandler_def LoginLogic_def login_verified_def case_prod_unfold)
  then show ?thesis using conn by (simp add: gn_step_def PostRequest_def)
qed

theorem redis_failure_ends_gateway_witness:
  "\<exists>n. hn_conns n 1 = Some \<lparr>hc_phase = Hc_Handling ex_login, hc_taken = [ex_login], hc_sent = []\<rparr> \<and>
    gn_step (Gn_Handle 1 ((ex_gw_services ex_hash None)\<lparr>gs_redis := False\<rparr>)) n = Inl (Runtime_Error ''redis'')"
proof -
  let ?s = "\<lparr>hc_phase = Hc_Handling ex_login, hc_taken = [ex_login], hc_sent = []\<rparr>"
    and ?sv = "(ex_gw_services ex_hash None)\<lparr>gs_redis := False\<rparr>"
  let ?n = "\<lparr>hn_gw = ex_gateway, hn_open = True, hn_accepting = True, hn_conns = [1 \<mapsto> ?s]\<rparr>"
  have v: "Verify ex_crypto ''pw'' ex_hash = Inr True"
    unfolding ex_hash_def by (subst Verify_HashPassword [OF ex_crypto_ok]) (simp_all add: default_iter_def ex_crypto_def)
  obtain m where m: "DBM_VerifyUserInfo (gs_net ?sv) (gs_crypto ?sv) (gs_mysql ?sv) ''u'' ''pw'' (gw_dbm (hn_gw ?n)) =
      (Some (Inr (GATEWAY_SUCCESS, Some 7)), m)"
    using v by (simp add: ex_gw_services_def DBM_VerifyUserInfo_def with_conn_def ex_gateway_def GetIdleConn_free
        DBConn_VerifyUserInfo_def ReturnIdleConn_def DBM_new_def)
  have c: "hn_conns ?n 1 = Some ?s" "hc_phase ?s = Hc_Handling ex_login" by simp_all
  have "gn_step (Gn_Handle 1 ?sv) ?n = Inl (Runtime_Error ''redis'')"
    by (rule redis_failure_ends_gateway [OF c _ _ _ m]) (simp_all add: ex_login_def ex_gw_services_def)
  then show ?thesis by (intro exI [of _ ?n]) simp
qed

end
