(* ===== verification/Client_Program.thy ===== *)
theory Client_Program
  imports Client Timer
begin

text \<open>
  The client as a program, \<open>src/client/client_main.cpp\<close>: the commands before the login, the address the
  gateway gave, the thread that writes the queue with its condition variable, and the end of the program.
  The words typed, the gateway and the network are the environment. The lemmas show what ends the login
  loop, that the address a backend advertises is read back as host and port, and that closing the
  connection can be missed by the writing thread, so that the program does not end.
\<close>

section \<open>Commands before the login\<close>

text \<open>
  How the loop ends: the command \<open>exit\<close>, a login with its token, address and user id, or an exception that
  leaves \<open>main\<close>. At the end of the input it goes on for ever, with empty commands.
\<close>

datatype menu_end = Menu_Exit | Menu_Session string string u64 | Menu_Terminated fault | Menu_Spins

text \<open>\<open>cin >> word\<close> leaves the empty string when the input is at its end.\<close>

definition next_word :: "string list \<Rightarrow> string \<times> string list" where
  "next_word ws = (case ws of [] \<Rightarrow> ('''', []) | w # ws \<Rightarrow> (w, ws))"

lemma length_next_word: "length (snd (next_word ws)) \<le> length ws"
  by (simp add: next_word_def split: list.splits)

lemma two_words_shorter:
  "(u, ws1) = next_word ws \<Longrightarrow> (p, ws2) = next_word ws1 \<Longrightarrow> length ws2 < Suc (length ws)"
  using length_next_word [of ws] length_next_word [of ws1] by (metis le_imp_less_Suc le_trans snd_conv)

text \<open>\<open>login k\<close> and \<open>register k\<close> are the calls of the gateway in round \<open>k\<close>.\<close>

function client_menu ::
  "(nat \<Rightarrow> string \<Rightarrow> string \<Rightarrow> (string \<times> string \<times> u64) option result) \<Rightarrow> (nat \<Rightarrow> string \<Rightarrow> string \<Rightarrow> bool result) \<Rightarrow>
    nat \<Rightarrow> string list \<Rightarrow> menu_end" where
  "client_menu login register k [] = Menu_Spins"
| "client_menu login register k (inp # ws) =
    (let (username, ws1) = next_word ws; (passcode, ws2) = next_word ws1 in
     if inp = ''login'' then
       (case login k username passcode of
          Inr (Some (token, server_addr, uid)) \<Rightarrow> Menu_Session token server_addr uid
        | Inr None \<Rightarrow> client_menu login register (Suc k) ws2
        | Inl ex \<Rightarrow> client_menu login register (Suc k) ws2)
     else if inp = ''register'' then
       (case register k username passcode of
          Inr ok \<Rightarrow> client_menu login register (Suc k) ws2
        | Inl ex \<Rightarrow> Menu_Terminated ex)
     else if inp = ''exit'' then Menu_Exit
     else client_menu login register (Suc k) ws)"
  by pat_completeness auto

termination
  by (relation "measure (\<lambda>(login, register, k, ws). length ws)") (auto simp: two_words_shorter)

text \<open>The login of the class \<open>GatewayHelper\<close>; \<open>net k u p\<close> are the answers to its requests.\<close>

definition menu_login ::
  "(resp_body \<Rightarrow> login_json) \<Rightarrow> (nat \<Rightarrow> string \<Rightarrow> string \<Rightarrow> nat \<Rightarrow> http_response option) \<Rightarrow>
    nat \<Rightarrow> string \<Rightarrow> string \<Rightarrow> (string \<times> string \<times> u64) option result" where
  "menu_login parse net k username passcode = bindR (Login parse (net k username passcode)) (\<lambda>(r, slept). Inr r)"

section \<open>The address of the backend\<close>

text \<open>
  \<open>valid\<close> tells which hosts \<open>make_address\<close> takes, the others throw. The port is a 16 bit number; \<open>None\<close> is
  the end of the program with an error message.
\<close>

definition client_endpoint :: "(string \<Rightarrow> bool) \<Rightarrow> string \<Rightarrow> (string \<times> u16) option result" where
  "client_endpoint valid server_addr =
    (case split_addr server_addr of
       None \<Rightarrow> Inr None
     | Some (server_host, server_port) \<Rightarrow>
         guardR (valid server_host) (Invalid_Argument ''make_address'')
           (bindR (stoi server_port) (\<lambda>port. Inr (Some (server_host, word_of_int port)))))"

section \<open>The program\<close>

text \<open>
  After the login: the client, the endpoint it connects to, the task of the heartbeat, whether the loop
  over the lines still runs and whether the input stream is good. The connection is made by another thread.
\<close>

record client_run =
  cm_client :: client
  cm_remote :: "string \<times> u16"
  cm_connecting :: bool
  cm_beat :: timed_task
  cm_typing :: bool
  cm_cin :: bool

definition client_open ::
  "endian \<Rightarrow> (nat \<Rightarrow> byte) \<Rightarrow> ((string \<times> json_value) list \<Rightarrow> string) \<Rightarrow> (string \<Rightarrow> bool) \<Rightarrow> string \<Rightarrow> string \<Rightarrow> u64 \<Rightarrow>
    client_run option result" where
  "client_open e fill write valid token server_addr uid =
    (let sess = AsyncClient_new fill in
     bindR (client_endpoint valid server_addr) (\<lambda>endpoint.
       case endpoint of
         None \<Rightarrow> Inr None
       | Some remote \<Rightarrow>
           bindR (cl_Verify e fill write uid token sess) (\<lambda>sess.
             Inr (Some \<lparr>cm_client = sess, cm_remote = remote, cm_connecting = True,
               cm_beat = Activate (SetTimer True TimedTask_new), cm_typing = True, cm_cin = True\<rparr>))))"

text \<open>
  The gateway is reached under the host and the port that are typed first; \<open>login\<close> and \<open>register\<close> are the
  requests to a gateway at an address.
\<close>

datatype main_end = Main_Returns int | Main_Throws fault | Main_Spins | Main_Session client_run

definition client_main ::
  "endian \<Rightarrow> (nat \<Rightarrow> byte) \<Rightarrow> ((string \<times> json_value) list \<Rightarrow> string) \<Rightarrow> (string \<Rightarrow> bool) \<Rightarrow>
    (gateway_helper \<Rightarrow> nat \<Rightarrow> string \<Rightarrow> string \<Rightarrow> (string \<times> string \<times> u64) option result) \<Rightarrow>
    (gateway_helper \<Rightarrow> nat \<Rightarrow> string \<Rightarrow> string \<Rightarrow> bool result) \<Rightarrow> string list \<Rightarrow> main_end" where
  "client_main e fill write valid login register ws =
    (let (host, ws1) = next_word ws; (port, ws2) = next_word ws1;
         gate = SetRemoteAddress host port \<lparr>gh_host = '''', gh_port = ''''\<rparr>
     in case client_menu (login gate) (register gate) 0 ws2 of
          Menu_Exit \<Rightarrow> Main_Returns 0
        | Menu_Spins \<Rightarrow> Main_Spins
        | Menu_Terminated ex \<Rightarrow> Main_Throws ex
        | Menu_Session token server_addr uid \<Rightarrow>
            (case client_open e fill write valid token server_addr uid of
               Inl ex \<Rightarrow> Main_Throws ex
             | Inr None \<Rightarrow> Main_Returns (- 1)
             | Inr (Some m) \<Rightarrow> Main_Session m))"

text \<open>
  What happens then, in any order: the connection is made, a line is typed, the timer of the heartbeat expires
  and its handler runs, the writing thread does a round, a read completes. \<open>getline\<close> into an array of 255
  characters takes 254 of a longer line and puts the stream into a failed state, in which every further
  call leaves the empty string; the characters up to the first zero count.
\<close>

definition LINE_SIZE :: nat where
  "LINE_SIZE = 255"

definition cin_getline :: "string \<Rightarrow> bool \<Rightarrow> string \<times> bool" where
  "cin_getline typed good =
    (if \<not> good then ('''', False)
     else (takeWhile (\<lambda>c. c \<noteq> CHR 0x00) (take (LINE_SIZE - 1) typed), length typed < LINE_SIZE))"

datatype cm_event = Cm_Connected | Cm_Line string | Cm_Expire | Cm_Beat | Cm_Write bool | Cm_Read read_result

definition cm_step :: "endian \<Rightarrow> (nat \<Rightarrow> byte) \<Rightarrow> cm_event \<Rightarrow> client_run \<Rightarrow> (unit \<times> client_run) result" where
  "cm_step e fill ev m =
    bindR
      (case ev of
         Cm_Connected \<Rightarrow>
           Inr (if cm_connecting m then m\<lparr>cm_client := cl_Start (cm_client m), cm_connecting := False\<rparr> else m)
       | Cm_Line typed \<Rightarrow>
           if cm_typing m
           then
             (let (inp, good) = cin_getline typed (cm_cin m) in
              bindR (client_line e fill inp (cm_client m)) (\<lambda>(go, cl). Inr (m\<lparr>cm_client := cl, cm_typing := go, cm_cin := good\<rparr>)))
           else Inr m
       | Cm_Expire \<Rightarrow> Inr (m\<lparr>cm_beat := timer_expire (cm_beat m)\<rparr>)
       | Cm_Beat \<Rightarrow>
           (let beat = timer_handler (cm_beat m) in
            bindR (if tt_fired beat = tt_fired (cm_beat m) then Inr (cm_client m) else cl_ping e fill (cm_client m)) (\<lambda>cl.
              Inr (m\<lparr>cm_client := cl, cm_beat := beat\<rparr>)))
       | Cm_Write ec \<Rightarrow> bindR (WorkerFn ec (cm_client m)) (\<lambda>cl. Inr (m\<lparr>cm_client := cl\<rparr>))
       | Cm_Read r \<Rightarrow> bindR (client_read e fill (cm_client m) r) (\<lambda>cl. Inr (m\<lparr>cm_client := cl\<rparr>)))
      (\<lambda>m'. Inr ((), m'))"

section \<open>The writing thread and the end of the program\<close>

text \<open>
  The thread of \<open>WorkerFn\<close> between two of its steps: before the test of its conditions, after a test that
  sends it to wait, inside \<open>cv_.wait\<close>, with a message to write, and returned. The test and the beginning of
  the wait are under the mutex, which \<open>Close\<close> does not take.
\<close>

datatype writer = Wr_Test | Wr_To_Wait | Wr_Waiting | Wr_Writing | Wr_Returned

record client_threads =
  ct_client :: client
  ct_writer :: writer

datatype ct_event = Ct_Test | Ct_Wait | Ct_Write bool | Ct_Close_Flag | Ct_Close_Notify

definition Running :: "client \<Rightarrow> bool" where
  "Running cl = cl_running cl"

text \<open>The message at the front is taken under the mutex and written without it.\<close>

definition take_message :: "client \<Rightarrow> client" where
  "take_message cl = cl\<lparr>cl_sending := Some (hd (cl_send_q cl)), cl_send_q := tl (cl_send_q cl)\<rparr>"

definition write_message :: "bool \<Rightarrow> client \<Rightarrow> client result" where
  "write_message ec cl =
    (case cl_sending cl of
       None \<Rightarrow> Inl Undefined_Behaviour
     | Some sending \<Rightarrow>
         (case node_data sending of
            None \<Rightarrow> Inl Undefined_Behaviour
          | Some d \<Rightarrow>
              bindR (memcpy_from d 0 (unat (node_ctx_len sending + of_nat HEAD_LEN))) (\<lambda>bs.
                if ec then Inr (cl_Close cl) else Inr (cl\<lparr>cl_written := cl_written cl @ [bs]\<rparr>))))"

definition ct_step :: "ct_event \<Rightarrow> client_threads \<Rightarrow> (unit \<times> client_threads) result" where
  "ct_step ev s =
    (case (ev, ct_writer s) of
       (Ct_Test, Wr_Test) \<Rightarrow>
         Inr ((), if \<not> Running (ct_client s) then s\<lparr>ct_writer := Wr_Returned\<rparr>
           else if cl_send_q (ct_client s) = [] then s\<lparr>ct_writer := Wr_To_Wait\<rparr>
           else s\<lparr>ct_client := take_message (ct_client s), ct_writer := Wr_Writing\<rparr>)
     | (Ct_Wait, Wr_To_Wait) \<Rightarrow> Inr ((), s\<lparr>ct_writer := Wr_Waiting\<rparr>)
     | (Ct_Write ec, Wr_Writing) \<Rightarrow>
         bindR (write_message ec (ct_client s)) (\<lambda>cl.
           Inr ((), s\<lparr>ct_client := cl, ct_writer := if ec then Wr_Returned else Wr_Test\<rparr>))
     | (Ct_Close_Flag, _) \<Rightarrow> Inr ((), s\<lparr>ct_client := cl_Close (ct_client s)\<rparr>)
     | (Ct_Close_Notify, Wr_Waiting) \<Rightarrow> Inr ((), s\<lparr>ct_writer := Wr_Test\<rparr>)
     | _ \<Rightarrow> Inr ((), s))"

text \<open>
  \<open>WorkerJoin\<close>: joining a thread that was never started throws; \<open>None\<close> is a join that does not return while
  the thread is in its phase.
\<close>

definition WorkerJoin :: "writer option \<Rightarrow> unit option result" where
  "WorkerJoin th = (case th of None \<Rightarrow> Inl (Invalid_Argument ''join'') | Some w \<Rightarrow> Inr (if w = Wr_Returned then Some () else None))"

text \<open>
  The end of \<open>main\<close>: the heartbeat is removed, the connection closed and the writer joined. The writer is
  \<open>None\<close> as long as the connection was not made; \<open>evs\<close> is what the writer and \<open>Close\<close> do until the join.
\<close>

definition client_shutdown ::
  "nat option \<Rightarrow> timer_list \<Rightarrow> ct_event list \<Rightarrow> client \<Rightarrow> writer option \<Rightarrow> (unit option \<times> timer_list) result" where
  "client_shutdown task timers evs cl w =
    (let timers = snd (RemoveTimer task timers) in
     case w of
       None \<Rightarrow> bindR (WorkerJoin None) (\<lambda>r. Inr (r, timers))
     | Some w \<Rightarrow>
         bindR (run_steps ct_step evs \<lparr>ct_client = cl, ct_writer = w\<rparr>) (\<lambda>(outs, s).
         bindR (WorkerJoin (Some (ct_writer s))) (\<lambda>r. Inr (r, timers))))"

section \<open>Lemmas\<close>

text \<open>A session starts with what a successful login gave; failed logins and registrations go back to the prompt.\<close>

lemma client_menu_session:
  "client_menu login register k ws = Menu_Session token server_addr uid \<Longrightarrow>
    \<exists>j u p. login j u p = Inr (Some (token, server_addr, uid))"
  by (induction login register k ws rule: client_menu.induct)
    (auto simp: Let_def split: prod.splits if_splits sum.splits option.splits)

lemma client_menu_terminated:
  "client_menu login register k ws = Menu_Terminated ex \<Longrightarrow> \<exists>j u p. register j u p = Inl ex"
  by (induction login register k ws rule: client_menu.induct)
    (auto simp: Let_def split: prod.splits if_splits sum.splits option.splits)

text \<open>Input that ends before a login succeeded or \<open>exit\<close> was typed leaves the program in an endless loop.\<close>

lemma client_menu_end_of_input:
  "set ws \<inter> {''login'', ''register'', ''exit''} = {} \<Longrightarrow> client_menu login register k ws = Menu_Spins"
  by (induction ws arbitrary: k) (auto simp: Let_def case_prod_unfold)

text \<open>The address host, colon and port is read back.\<close>

lemma client_endpoint_advertised:
  fixes port :: u16
  assumes "CHR '':'' \<notin> set host" and "valid host"
  shows "client_endpoint valid (host @ '':'' @ to_string (unat port)) = Inr (Some (host, port))"
proof -
  have "find_char CHR '':'' 0 (host @ '':'' @ to_string (unat port)) = Some (length host)"
    using assms(1) by (simp add: find_char_append)
  moreover have "unat port < 2 ^ 31" using unsigned_less [of port, where 'a = nat] by simp
  ultimately show ?thesis using assms(2) by (simp add: client_endpoint_def split_addr_def)
qed

section \<open>Closing\<close>

text \<open>The two halves make one round of \<open>WorkerFn\<close>.\<close>

lemma WorkerFn_halves:
  assumes "cl_running cl" and "cl_send_q cl \<noteq> []"
  shows "run_steps ct_step [Ct_Test, Ct_Write ec] \<lparr>ct_client = cl, ct_writer = Wr_Test\<rparr> =
    bindR (WorkerFn ec cl) (\<lambda>cl. Inr ([(), ()], \<lparr>ct_client = cl, ct_writer = if ec then Wr_Returned else Wr_Test\<rparr>))"
proof -
  obtain sending q where q: "cl_send_q cl = sending # q" using assms(2) by (auto simp: neq_Nil_conv)
  then have "write_message ec (take_message cl) = WorkerFn ec cl"
    using assms(1) by (simp add: write_message_def take_message_def WorkerFn_def Let_def)
  then show ?thesis using assms by (simp add: ct_step_def Running_def bindR_assoc)
qed

text \<open>Once the connection is closed and the writer waits, only a notification gets it further.\<close>

lemma waiting_writer_stuck:
  "ct_writer s = Wr_Waiting \<Longrightarrow> Ct_Close_Notify \<notin> set evs \<Longrightarrow>
    \<exists>outs s'. run_steps ct_step evs s = Inr (outs, s') \<and> ct_writer s' = Wr_Waiting"
proof (induction evs arbitrary: s)
  case (Cons ev evs)
  then obtain s1 where "ct_step ev s = Inr ((), s1)" "ct_writer s1 = Wr_Waiting"
    by (cases ev) (auto simp: ct_step_def)
  with Cons.IH [of s1] Cons.prems show ?case by auto
qed simp

text \<open>
  Closing between the test and the wait of the writer: the notification comes before the wait and is lost,
  so the join never returns, whatever the writer does afterwards.
\<close>

lemma close_lost_wakeup:
  assumes "cl_running cl" and "cl_send_q cl = []" and "Ct_Close_Notify \<notin> set evs"
  shows "\<exists>timers'. client_shutdown task timers ([Ct_Test, Ct_Close_Flag, Ct_Close_Notify, Ct_Wait] @ evs) cl (Some Wr_Test) =
    Inr (None, timers')"
proof -
  let ?s = "\<lparr>ct_client = cl_Close cl, ct_writer = Wr_Waiting\<rparr>"
  obtain outs s' where "run_steps ct_step evs ?s = Inr (outs, s')" "ct_writer s' = Wr_Waiting"
    using waiting_writer_stuck [of ?s evs] assms(3) by auto
  moreover have "run_steps ct_step [Ct_Test, Ct_Close_Flag, Ct_Close_Notify, Ct_Wait] \<lparr>ct_client = cl, ct_writer = Wr_Test\<rparr> =
      Inr ([(), (), (), ()], ?s)"
    using assms(1,2) by (simp add: ct_step_def Running_def)
  ultimately have "run_steps ct_step ([Ct_Test, Ct_Close_Flag, Ct_Close_Notify, Ct_Wait] @ evs) \<lparr>ct_client = cl, ct_writer = Wr_Test\<rparr> =
      Inr ([(), (), (), ()] @ outs, s')" "ct_writer s' = Wr_Waiting"
    by (simp_all only: run_steps_append bindR_Inr prod.case)
  then show ?thesis unfolding client_shutdown_def by (simp add: WorkerJoin_def del: append_Cons append_Nil)
qed

text \<open>
  Otherwise it returns: a writer that waits is woken and sees the flag, one that writes finishes its message
  first and then sees it.
\<close>

lemma close_wakes_writer:
  assumes "cl_running cl" and "w = Wr_Waiting \<or> w = Wr_Test"
  shows "\<exists>timers'. client_shutdown task timers [Ct_Close_Flag, Ct_Close_Notify, Ct_Test] cl (Some w) = Inr (Some (), timers')"
  using assms by (auto simp: client_shutdown_def ct_step_def cl_Close_def Running_def WorkerJoin_def)

text \<open>Ending the program before the connection was made throws: the writer was never started.\<close>

lemma shutdown_before_connected:
  "client_shutdown task timers evs cl None = Inl (Invalid_Argument ''join'')"
  by (simp add: client_shutdown_def WorkerJoin_def)

section \<open>Long lines\<close>

text \<open>
  After a line that does not fit, nothing that is typed has an effect any more, the command \<open>exit\<close> included:
  the loop goes on with empty lines.
\<close>

lemma failed_input_ignored:
  assumes "\<not> cm_cin m" and "cm_typing m"
  shows "cm_step e fill (Cm_Line typed) m = Inr ((), m)"
  using assms by (cases m) (simp add: cm_step_def cin_getline_def client_line_def)

lemma long_line_fails:
  assumes "cm_typing m" and "cm_step e fill (Cm_Line typed) m = Inr ((), m')" and "LINE_SIZE \<le> length typed" and "cm_typing m'"
  shows "run_steps (cm_step e fill) (map Cm_Line more_lines) m' = Inr (map (\<lambda>_. ()) more_lines, m')"
proof -
  have "\<not> cm_cin m'" using assms by (auto simp: cm_step_def cin_getline_def LINE_SIZE_def split: if_splits)
  with assms(4) show ?thesis by (induction more_lines) (simp_all add: failed_input_ignored)
qed

section \<open>The first frame\<close>

text \<open>The document of a verification, as the writer of the JSON library prints it.\<close>

definition verify_doc :: "((string \<times> json_value) list \<Rightarrow> string) \<Rightarrow> u64 \<Rightarrow> string \<Rightarrow> byte list" where
  "verify_doc write uid token = bytes_of_text (write [(''uid'', J_Uint uid), (''token'', J_Str token)])"

lemma cl_Verify_queues:
  assumes len: "0 < length (verify_doc write uid token)" "length (verify_doc write uid token) + 8 < 2 ^ 32"
  shows "\<exists>n. cl_Verify e fill write uid token cl = Inr (cl\<lparr>cl_send_q := cl_send_q cl @ [n]\<rparr>) \<and> sendable n \<and>
    node_wire n = frame TAG_VERIFY (verify_doc write uid token)"
proof -
  define msg where "msg = verify_doc write uid token"
  have msg: "length msg = length (verify_doc write uid token)" by (simp add: msg_def)
  have ulen: "unat (of_nat (length msg) :: u32) = length msg" using len(2) msg by (simp only: unat_of_nat) simp
  define n where "n = \<lparr>node_data = Some (frame TAG_VERIFY msg), node_cur_pos = 0, node_ctx_len = of_nat (length msg),
    node_max_len = 8 + of_nat (length msg)\<rparr>"
  have "MsgNode_msg e fill msg (of_nat (length msg)) TAG_VERIFY = Inr n"
    using len msg ulen by (subst MsgNode_msg_frame) (simp_all add: n_def word_less_nat_alt)
  then have "cl_Verify e fill write uid token cl = Inr (cl\<lparr>cl_send_q := cl_send_q cl @ [n]\<rparr>)"
    by (simp add: cl_Verify_def cl_Send_def Let_def msg_def verify_doc_def)
  moreover have "sendable n" "node_wire n = frame TAG_VERIFY msg"
    using ulen len(2) msg by (simp_all add: sendable_def node_wire_def n_def)
  ultimately show ?thesis by (auto simp: msg_def)
qed

text \<open>
  Either the verification is still the first message of the queue, or it was written first, or writing it
  failed, which ended the connection.
\<close>

definition verifies_first :: "byte list \<Rightarrow> client_run \<Rightarrow> bool" where
  "verifies_first f m =
    (let cl = cm_client m in
     cl_written cl = [] \<and> (\<exists>n q. cl_send_q cl = n # q \<and> sendable n \<and> node_wire n = f) \<or>
     (\<exists>fs. cl_written cl = f # fs) \<or>
     cl_written cl = [] \<and> \<not> cl_running cl \<and> \<not> cm_connecting m)"

text \<open>What leaves the written frames alone, and only appends to the queue.\<close>

definition appends :: "client \<Rightarrow> client \<Rightarrow> bool" where
  "appends cl cl' =
    (cl_written cl' = cl_written cl \<and> (\<exists>q. cl_send_q cl' = cl_send_q cl @ q) \<and> (cl_running cl' \<longrightarrow> cl_running cl))"

lemma verifies_first_appends:
  assumes "verifies_first f m" and "appends (cm_client m) (cm_client m')" and "cm_connecting m' = cm_connecting m"
  shows "verifies_first f m'"
  using assms unfolding verifies_first_def appends_def Let_def by (elim disjE conjE exE) auto

lemma appends_Send: "cl_Send e fill msg len tag cl = Inr cl' \<Longrightarrow> appends cl cl'"
  by (auto simp: cl_Send_def appends_def)

lemma appends_simps [simp]:
  "appends cl cl" "appends cl (cl_print outs cl') = appends cl cl'" "appends cl (cl'\<lparr>cl_recv := n\<rparr>) = appends cl cl'"
  "appends cl (cl'\<lparr>cl_reading := x\<rparr>) = appends cl cl'" "appends cl (cl'\<lparr>cl_open := b\<rparr>) = appends cl cl'"
  "appends cl (cl_ReceiveHead cl') = appends cl cl'" "appends cl (cl_ReceiveContent cl') = appends cl cl'"
  by (simp_all add: appends_def cl_print_def cl_ReceiveHead_def cl_ReceiveContent_def)

lemma appends_Close: "appends cl cl' \<Longrightarrow> appends cl (cl_Close cl')"
  by (auto simp: appends_def cl_Close_def)

lemma appends_line: "client_line e fill inp cl = Inr (go, cl') \<Longrightarrow> appends cl cl'"
  by (auto simp: client_line_def Let_def dest: appends_Send split: if_splits prod.splits sum.splits)

lemma appends_read:
  assumes "client_read e fill cl r = Inr cl'"
  shows "appends cl cl'"
proof -
  have handler: "appends cl cl' \<Longrightarrow> cl_ReceiveHandler e len tag cl' = Inr cl'' \<Longrightarrow> appends cl cl''" for len tag cl' cl''
    by (auto simp: cl_ReceiveHandler_def Let_def split: option.splits if_splits)
  have "cl_ReceiveHead_cb e fill cl r = Inr cl' \<Longrightarrow> appends cl cl'"
    by (auto simp: cl_ReceiveHead_cb_def Let_def intro: appends_Close split: read_result.splits if_splits)
  moreover have "cl_ReceiveContent_cb e cl r = Inr cl' \<Longrightarrow> appends cl cl'"
    by (auto simp: cl_ReceiveContent_cb_def Let_def intro: appends_Close split: read_result.splits if_splits)
      (rule handler [rotated], assumption, simp)
  ultimately show ?thesis using assms by (auto simp: client_read_def split: option.splits read_phase.splits)
qed

lemma verifies_first_write:
  assumes "verifies_first f m" and "WorkerFn ec (cm_client m) = Inr cl" and run: "cl_running (cm_client m) \<Longrightarrow> \<not> cm_connecting m"
  shows "verifies_first f (m\<lparr>cm_client := cl\<rparr>)"
proof -
  let ?cl = "cm_client m"
  consider "cl_written ?cl = []" "\<exists>n q. cl_send_q ?cl = n # q \<and> sendable n \<and> node_wire n = f"
    | "\<exists>fs. cl_written ?cl = f # fs" | "cl_written ?cl = []" "\<not> cl_running ?cl" "\<not> cm_connecting m"
    using assms(1) unfolding verifies_first_def Let_def by blast
  then show ?thesis
  proof cases
    case 1
    then obtain n q where q: "cl_send_q ?cl = n # q" "sendable n" "node_wire n = f" by blast
    show ?thesis
    proof (cases "cl_running ?cl")
      case False
      then show ?thesis using assms by (simp add: WorkerFn_def verifies_first_def Let_def)
    next
      case True
      then have "cl = (if ec then cl_Close (?cl\<lparr>cl_sending := Some n, cl_send_q := q\<rparr>)
          else ?cl\<lparr>cl_sending := Some n, cl_send_q := q, cl_written := [f]\<rparr>)"
        using WorkerFn_writes [OF True q(1,2)] assms(2) q 1(1)
        by (cases ec) (auto simp: WorkerFn_def Let_def split: option.splits)
      then show ?thesis using True 1(1) run by (simp add: verifies_first_def cl_Close_def Let_def)
    qed
  next
    case 2
    then show ?thesis
      using assms(2) by (auto simp: verifies_first_def WorkerFn_def cl_Close_def Let_def split: if_splits list.splits option.splits)
  next
    case 3
    then show ?thesis using assms by (simp add: WorkerFn_def verifies_first_def Let_def)
  qed
qed

text \<open>The client runs only once it is connected.\<close>

definition cm_ok :: "byte list \<Rightarrow> client_run \<Rightarrow> bool" where
  "cm_ok f m = (verifies_first f m \<and> (cl_running (cm_client m) \<longrightarrow> \<not> cm_connecting m))"

lemma cm_ok_appends:
  "cm_ok f m \<Longrightarrow> appends (cm_client m) (cm_client m') \<Longrightarrow> cm_connecting m' = cm_connecting m \<Longrightarrow> cm_ok f m'"
  using verifies_first_appends unfolding cm_ok_def by (metis appends_def)

lemma cm_ok_step:
  assumes ok: "cm_ok f m" and run: "cm_step e fill ev m = Inr (out, m')"
  shows "cm_ok f m'"
proof (cases ev)
  case Cm_Connected
  then have "m' = (if cm_connecting m then m\<lparr>cm_client := cl_Start (cm_client m), cm_connecting := False\<rparr> else m)"
    using run by (simp add: cm_step_def)
  then show ?thesis
    using ok by (auto simp: cm_ok_def verifies_first_def cl_Start_def Receiver_def ConnectedHandler_def cl_ReceiveHead_def
        cl_ReceiveContent_def Let_def)
next
  case (Cm_Line inp)
  then have "appends (cm_client m) (cm_client m')" "cm_connecting m' = cm_connecting m"
    using run by (auto simp: cm_step_def dest: appends_line split: if_splits prod.splits)
  then show ?thesis by (rule cm_ok_appends [OF ok])
next
  case Cm_Beat
  then have "appends (cm_client m) (cm_client m')" "cm_connecting m' = cm_connecting m"
    using run by (auto simp: cm_step_def cl_ping_def Let_def dest: appends_Send split: if_splits)
  then show ?thesis by (rule cm_ok_appends [OF ok])
next
  case (Cm_Write ec)
  then obtain cl where cl: "WorkerFn ec (cm_client m) = Inr cl" "m' = m\<lparr>cm_client := cl\<rparr>"
    using run by (auto simp: cm_step_def)
  have "cl_running cl \<Longrightarrow> cl_running (cm_client m)"
    using cl(1) by (auto simp: WorkerFn_def cl_Close_def Let_def split: if_splits list.splits option.splits)
  then show ?thesis using verifies_first_write [OF _ cl(1)] ok cl(2) by (simp add: cm_ok_def)
next
  case (Cm_Read r)
  then have "appends (cm_client m) (cm_client m')" "cm_connecting m' = cm_connecting m"
    using run by (auto simp: cm_step_def dest: appends_read)
  then show ?thesis by (rule cm_ok_appends [OF ok])
next
  case Cm_Expire
  then show ?thesis using run ok by (auto simp: cm_step_def cm_ok_def verifies_first_def Let_def)
qed

interpretation cm: run_invariant "cm_step e fill" "cm_ok f" for e fill f
  by unfold_locales (rule cm_ok_step)


definition ex_login_at :: "gateway_helper \<Rightarrow> nat \<Rightarrow> string \<Rightarrow> string \<Rightarrow> (string \<times> string \<times> u64) option result" where
  "ex_login_at gate k username passcode = Inr (Some (''t'', ''h'' @ '':'' @ to_string (unat (1 :: u16)), 7))"


end
