(* ===== verification/Lifecycle.thy ===== *)
theory Lifecycle
  imports Server_Node Connections
begin

text \<open>
  Starting and stopping the backend and the status server: \<open>ServerClass\<close> of \<open>src/include/server/server_class.hpp\<close>
  with the destructors it relies on, \<open>main\<close> of \<open>src/server/server_main.cpp\<close>, and \<open>StatusRPCManager\<close> and
  \<open>StatusServer\<close> of \<open>src/status/status_class.cpp\<close>. What matters here is which object lives, who owns it, and
  which timer and thread it leaves behind. The lemmas show that the backend takes its parts down in an
  order that leaves no timer to a manager that is gone, also when its construction fails at Redis, that a
  failure one step later ends the process, and what becomes of the status server when its address is in
  use, when Redis is down at the start, and after a restart.
\<close>

section \<open>The objects of a backend\<close>

text \<open>
  \<open>so_timers\<close> is \<open>None\<close> when the timer manager is gone; \<open>so_uploader_refs\<close> counts the owners of the online
  uploader; \<open>so_handler\<close> tells of the message handler, while there is one, whether its thread can be joined;
  \<open>so_mq\<close> whether the thread of the queue receiver runs.
\<close>

record server_objs =
  so_timers :: "timer_mgr option"
  so_redis :: redis_mgr
  so_uploader_refs :: nat
  so_uploader_task :: "nat option"
  so_reporter_task :: "nat option"
  so_reporter_stopped :: bool
  so_handler :: "bool option"
  so_mq :: bool

text \<open>\<open>RemoveTimer\<close> through the pointer to the manager.\<close>

definition remove_timer :: "nat option \<Rightarrow> server_objs \<Rightarrow> server_objs result" where
  "remove_timer iter s =
    (case so_timers s of
       None \<Rightarrow> Inl Undefined_Behaviour
     | Some m \<Rightarrow> Inr (s\<lparr>so_timers := Some (m\<lparr>tm_list := snd (RemoveTimer iter (tm_list m))\<rparr>)\<rparr>))"

definition OnlineStatusUploader_dtor :: "server_objs \<Rightarrow> server_objs result" where
  "OnlineStatusUploader_dtor s = remove_timer (so_uploader_task s) s"

text \<open>An owner of the uploader gives it up; the last one destroys it.\<close>

definition release_uploader :: "server_objs \<Rightarrow> server_objs result" where
  "release_uploader s =
    (let s = s\<lparr>so_uploader_refs := so_uploader_refs s - 1\<rparr> in
     if so_uploader_refs s = 0 then OnlineStatusUploader_dtor s else Inr s)"

definition reporter_Stop :: "server_objs \<Rightarrow> server_objs result" where
  "reporter_Stop s =
    (if so_reporter_stopped s then Inr s else remove_timer (so_reporter_task s) (s\<lparr>so_reporter_stopped := True\<rparr>))"

definition StatusReporter_dtor :: "server_objs \<Rightarrow> server_objs result" where
  "StatusReporter_dtor s = (if \<not> so_reporter_stopped s then reporter_Stop s else Inr s)"

text \<open>
  \<open>MsgHandler\<close> has no destructor of its own: a thread that can still be joined ends the program. It is an
  owner of the uploader.
\<close>

definition MsgHandler_dtor :: "server_objs \<Rightarrow> server_objs result" where
  "MsgHandler_dtor s =
    (case so_handler s of
       None \<Rightarrow> Inr s
     | Some joinable \<Rightarrow> guardR (\<not> joinable) Std_Terminate (release_uploader (s\<lparr>so_handler := None\<rparr>)))"

definition handler_Stop :: "server_objs \<Rightarrow> server_objs" where
  "handler_Stop s = s\<lparr>so_handler := map_option (\<lambda>_. False) (so_handler s)\<rparr>"

text \<open>\<open>mq\<close> is what registering the queues comes to. The destructor joins the thread, which ends with its read.\<close>

definition MQHandler_new :: "unit result \<Rightarrow> server_objs \<Rightarrow> server_objs result" where
  "MQHandler_new mq s = bindR mq (\<lambda>_. Inr (s\<lparr>so_mq := True\<rparr>))"

definition MQHandler_dtor :: "server_objs \<Rightarrow> server_objs" where
  "MQHandler_dtor s = s\<lparr>so_mq := False\<rparr>"

definition destroy_timers :: "server_objs \<Rightarrow> server_objs result" where
  "destroy_timers s =
    (case so_timers s of
       None \<Rightarrow> Inr s
     | Some m \<Rightarrow> bindR (TimerTaskManager_dtor m) (\<lambda>_. Inr (s\<lparr>so_timers := None\<rparr>)))"

text \<open>An exception of the constructor destroys the members in the opposite order of their declaration.\<close>

definition ServerClass_unwind :: "server_objs \<Rightarrow> server_objs result" where
  "ServerClass_unwind s =
    bindR (StatusReporter_dtor s) (\<lambda>s. bindR (MsgHandler_dtor s) (\<lambda>s. bindR (release_uploader s) destroy_timers))"

text \<open>
  The constructor; \<open>p\<close> and \<open>q\<close> are the list nodes of the two timers, \<open>built\<close> is what connecting to Redis comes
  to. The uploader is owned by the server and by the message handler.
\<close>

definition activate_task :: "nat \<Rightarrow> timer_list \<Rightarrow> timer_list" where
  "activate_task p l = map (\<lambda>(q, t). (q, if q = p then Activate t else t)) l"

definition ServerClass_new :: "nat \<Rightarrow> nat \<Rightarrow> nat result \<Rightarrow> unit result \<Rightarrow> server_objs result" where
  "ServerClass_new p q built mq =
    bindR TimerTaskManager_new (\<lambda>m.
      let (uploader_task, l) = CreateTimer p True (tm_list m); l = activate_task p l;
          (reporter_task, l) = CreateTimer q True l; l = activate_task q l;
          s = \<lparr>so_timers = Some (m\<lparr>tm_list := l\<rparr>), so_redis = BaseRedisMgr_new, so_uploader_refs = 2,
               so_uploader_task = uploader_task, so_reporter_task = reporter_task, so_reporter_stopped = False,
               so_handler = Some False, so_mq = False\<rparr>;
          (ret, redis) = ConnectTo built base_RegisterScript (so_redis s);
          s = s\<lparr>so_redis := redis\<rparr>
      in case ret of
           Inl ex \<Rightarrow> bindR (ServerClass_unwind s) (\<lambda>_. Inl ex)
         | Inr _ \<Rightarrow>
             (let s = s\<lparr>so_handler := Some True\<rparr> in
              case MQHandler_new mq s of
                Inl ex \<Rightarrow> bindR (ServerClass_unwind s) (\<lambda>_. Inl ex)
              | Inr s \<Rightarrow> Inr s))"

definition ServerClass_dtor :: "server_objs \<Rightarrow> server_objs result" where
  "ServerClass_dtor s =
    (let s = MQHandler_dtor s in
     bindR (reporter_Stop s) (\<lambda>s.
     bindR (StatusReporter_dtor s) (\<lambda>s.
     bindR (MsgHandler_dtor (handler_Stop s)) (\<lambda>s.
     bindR (release_uploader s) destroy_timers))))"

section \<open>The program of a backend\<close>

text \<open>
  How \<open>main\<close> ends: with an exit code, or not by returning. The arguments are converted outside of the
  \<open>try\<close> block, the exceptions of the server are printed. When listening fails and when a signal stops the
  event loop the server is destroyed.
\<close>

definition server_main :: "nat \<Rightarrow> nat \<Rightarrow> nat result \<Rightarrow> unit result \<Rightarrow> string list \<Rightarrow> int result" where
  "server_main p q built mq argv =
    bindR (server_args argv) (\<lambda>args.
      case args of
        None \<Rightarrow> Inr (- 1)
      | Some cf \<Rightarrow>
          (case ServerClass_new p q built mq of
             Inl f \<Rightarrow> if is_exception f then Inr 0 else Inl f
           | Inr s \<Rightarrow> bindR (ServerClass_dtor s) (\<lambda>_. Inr 0)))"

section \<open>The status server\<close>

text \<open>The gRPC server and the service; \<open>rp_waiting\<close> tells that a thread is inside \<open>server_->Wait()\<close>.\<close>

record rpc_manager =
  rp_server :: bool
  rp_service :: bool
  rp_waiting :: bool

definition StatusRPCManager_new :: rpc_manager where
  "StatusRPCManager_new = \<lparr>rp_server = False, rp_service = False, rp_waiting = False\<rparr>"

text \<open>
  \<open>Run\<close> up to the wait. \<open>bound\<close> tells whether \<open>BuildAndStart\<close> could listen on the address; otherwise it gives
  a null pointer.
\<close>

definition rpc_Run :: "bool \<Rightarrow> rpc_manager \<Rightarrow> rpc_manager result" where
  "rpc_Run bound m =
    (if \<not> rp_server m then
       guardR (\<not> rp_service m) Std_Terminate
         (let m = m\<lparr>rp_service := True, rp_server := bound\<rparr>
          in guardR (rp_server m) Undefined_Behaviour (Inr (m\<lparr>rp_waiting := True\<rparr>)))
     else Inr m)"

text \<open>
  \<open>Stop\<close>: \<open>left\<close> tells whether the waiting thread came out of \<open>Wait\<close> between \<open>Shutdown\<close> and the destruction of
  the server object.
\<close>

definition rpc_Stop :: "bool \<Rightarrow> rpc_manager \<Rightarrow> rpc_manager result" where
  "rpc_Stop left m =
    (if rp_server m then
       (let m = m\<lparr>rp_waiting := rp_waiting m \<and> \<not> left\<rparr>
        in guardR (\<not> rp_waiting m) Undefined_Behaviour (Inr (m\<lparr>rp_server := False, rp_service := False\<rparr>)))
     else Inr m)"

record status_node =
  sn_rpc :: "rpc_manager option"
  sn_redis :: "redis_mgr option"
  sn_srv :: "status_server option"
  sn_running :: bool

definition status_node_new :: status_node where
  "status_node_new = \<lparr>sn_rpc = None, sn_redis = None, sn_srv = None, sn_running = False\<rparr>"

definition st_RegisterScript :: "redis_mgr \<Rightarrow> unit result \<times> redis_mgr" where
  "st_RegisterScript m =
    (if \<not> IsConnected m then (Inl (Runtime_Error ''Redis connection not initialized''), m) else (Inr (), m))"

text \<open>The node is changed also when the call does not return; \<open>Inr True\<close> is the thread that waits.\<close>

definition RunStatusServer :: "nat result \<Rightarrow> bool \<Rightarrow> status_node \<Rightarrow> bool result \<times> status_node" where
  "RunStatusServer built bound n =
    (if \<not> sn_running n then
       (let n = n\<lparr>sn_srv := Some StatusServer_new\<rparr>;
            (ret, redis) = ConnectTo built st_RegisterScript BaseRedisMgr_new;
            n = n\<lparr>sn_redis := Some redis\<rparr>
        in case ret of
             Inl ex \<Rightarrow> (Inl ex, n)
           | Inr _ \<Rightarrow>
               (let n = n\<lparr>sn_srv := Some (up_Start StatusServer_new), sn_rpc := Some StatusRPCManager_new, sn_running := True\<rparr>
                in case rpc_Run bound StatusRPCManager_new of
                     Inl f \<Rightarrow> (Inl f, n)
                   | Inr m \<Rightarrow> (Inr True, n\<lparr>sn_rpc := Some m\<rparr>)))
     else (Inr False, n))"

text \<open>Stopping the uploader joins its thread; then the members are destroyed.\<close>

definition StopStatusServer :: "bool \<Rightarrow> status_node \<Rightarrow> status_node result" where
  "StopStatusServer left n =
    (if sn_running n then
       (case sn_rpc n of
          None \<Rightarrow> Inl Undefined_Behaviour
        | Some m \<Rightarrow> bindR (rpc_Stop left m) (\<lambda>_. Inr (n\<lparr>sn_rpc := None, sn_srv := None, sn_redis := None, sn_running := False\<rparr>)))
     else Inr n)"

section \<open>Lemmas\<close>

lemma TimerTaskManager_new_eq:
  "TimerTaskManager_new = Inr \<lparr>tm_list = [], tm_work = True, tm_stopped = False, tm_thread = True\<rparr>"
  by (simp add: TimerTaskManager_new_def StartWorker_def)

lemma ConnectTo_base:
  "ConnectTo built base_RegisterScript BaseRedisMgr_new =
    (case built of Inl ex \<Rightarrow> (Inl ex, BaseRedisMgr_new) | Inr r \<Rightarrow> (Inr (), \<lparr>rm_redis = Some r\<rparr>))"
  by (simp add: ConnectTo_def base_RegisterScript_def IsConnected_def BaseRedisMgr_new_def Let_def split: sum.splits)

lemma ConnectTo_status:
  "ConnectTo built st_RegisterScript BaseRedisMgr_new =
    (case built of Inl ex \<Rightarrow> (Inl ex, BaseRedisMgr_new) | Inr r \<Rightarrow> (Inr (), \<lparr>rm_redis = Some r\<rparr>))"
  by (simp add: ConnectTo_def st_RegisterScript_def IsConnected_def BaseRedisMgr_new_def Let_def split: sum.splits)

text \<open>
  The states the constructor goes through: the timers of the uploader and of the reporter on the list,
  nothing stopped, two owners of the uploader.
\<close>

definition objs_up :: "nat \<Rightarrow> nat \<Rightarrow> server_objs \<Rightarrow> bool" where
  "objs_up p q s =
    (p \<noteq> q \<and> (\<exists>m. so_timers s = Some m \<and> map fst (tm_list m) = [p, q]) \<and> so_uploader_refs s = 2 \<and>
     so_uploader_task s = Some p \<and> so_reporter_task s = Some q \<and> \<not> so_reporter_stopped s \<and> so_handler s \<noteq> None)"

lemma two_entries: "map fst l = [p, q] \<Longrightarrow> \<exists>s t. l = [(p, s), (q, t)]"
  by (auto simp: map_eq_Cons_conv)

lemmas teardown_defs = StatusReporter_dtor_def reporter_Stop_def remove_timer_def RemoveTimer_def MsgHandler_dtor_def
  release_uploader_def OnlineStatusUploader_dtor_def destroy_timers_def handler_Stop_def MQHandler_dtor_def
  manager_dtor_needs_empty_list Let_def

text \<open>Taking the parts down destroys the timer manager last, when its list is empty.\<close>

lemma objs_upE:
  assumes "objs_up p q s"
  obtains m t u where "so_timers s = Some m" "tm_list m = [(p, t), (q, u)]" "p \<noteq> q"
  using assms two_entries by (fastforce simp: objs_up_def)

lemma unwind_idle:
  assumes "objs_up p q s" and "so_handler s = Some False"
  shows "\<exists>s'. ServerClass_unwind s = Inr s' \<and> so_timers s' = None"
  by (rule objs_upE [OF assms(1)]) (use assms in \<open>simp add: ServerClass_unwind_def objs_up_def teardown_defs\<close>)

lemma unwind_running:
  assumes "objs_up p q s" and "so_handler s = Some True"
  shows "ServerClass_unwind s = Inl Std_Terminate"
  by (rule objs_upE [OF assms(1)]) (use assms in \<open>simp add: ServerClass_unwind_def objs_up_def teardown_defs\<close>)

lemma dtor_destroys_timers:
  assumes "objs_up p q s"
  shows "\<exists>s'. ServerClass_dtor s = Inr s' \<and> so_timers s' = None \<and> so_handler s' = None \<and> so_uploader_refs s' = 0 \<and> \<not> so_mq s'"
  by (rule objs_upE [OF assms])
    (use assms in \<open>auto simp: ServerClass_dtor_def objs_up_def teardown_defs\<close>)

text \<open>The constructor up to the connection with Redis.\<close>

lemma ServerClass_new_cases:
  assumes "p \<noteq> q"
  obtains s where "objs_up p q s" "so_handler s = Some False"
    "ServerClass_new p q built mq =
      (case built of
         Inl ex \<Rightarrow> bindR (ServerClass_unwind s) (\<lambda>_. Inl ex)
       | Inr r \<Rightarrow>
           (let s = s\<lparr>so_redis := \<lparr>rm_redis = Some r\<rparr>, so_handler := Some True\<rparr> in
            case MQHandler_new mq s of Inl ex \<Rightarrow> bindR (ServerClass_unwind s) (\<lambda>_. Inl ex) | Inr s \<Rightarrow> Inr s))"
proof -
  let ?l = "[(p, Activate (SetTimer True TimedTask_new)), (q, Activate (SetTimer True TimedTask_new))]"
  let ?s = "\<lparr>so_timers = Some \<lparr>tm_list = ?l, tm_work = True, tm_stopped = False, tm_thread = True\<rparr>, so_redis = BaseRedisMgr_new,
    so_uploader_refs = 2, so_uploader_task = Some p, so_reporter_task = Some q, so_reporter_stopped = False,
    so_handler = Some False, so_mq = False\<rparr>"
  have "objs_up p q ?s" using assms by (simp add: objs_up_def)
  moreover have "ServerClass_new p q built mq =
      (case built of
         Inl ex \<Rightarrow> bindR (ServerClass_unwind ?s) (\<lambda>_. Inl ex)
       | Inr r \<Rightarrow>
           (let s = ?s\<lparr>so_redis := \<lparr>rm_redis = Some r\<rparr>, so_handler := Some True\<rparr> in
            case MQHandler_new mq s of Inl ex \<Rightarrow> bindR (ServerClass_unwind s) (\<lambda>_. Inl ex) | Inr s \<Rightarrow> Inr s))"
    using assms
    by (auto simp: ServerClass_new_def TimerTaskManager_new_eq CreateTimer_def activate_task_def ConnectTo_base Let_def
        split: sum.splits)
  ultimately show ?thesis by (intro that) simp_all
qed

lemma ServerClass_new_redis_fails:
  assumes "p \<noteq> q"
  shows "ServerClass_new p q (Inl ex) mq = Inl ex"
  by (rule ServerClass_new_cases [OF assms, of "Inl ex" mq]) (use unwind_idle in fastforce)

lemma ServerClass_new_mq_fails:
  assumes "p \<noteq> q"
  shows "ServerClass_new p q (Inr r) (Inl ex) = Inl Std_Terminate"
proof (rule ServerClass_new_cases [OF assms, of "Inr r" "Inl ex"])
  fix s assume s: "objs_up p q s" "ServerClass_new p q (Inr r) (Inl ex) =
      (case Inr r of
         Inl ex \<Rightarrow> bindR (ServerClass_unwind s) (\<lambda>_. Inl ex)
       | Inr r \<Rightarrow>
           (let s = s\<lparr>so_redis := \<lparr>rm_redis = Some r\<rparr>, so_handler := Some True\<rparr> in
            case MQHandler_new (Inl ex) s of Inl ex \<Rightarrow> bindR (ServerClass_unwind s) (\<lambda>_. Inl ex) | Inr s \<Rightarrow> Inr s))"
  from s(1) have "objs_up p q (s\<lparr>so_redis := \<lparr>rm_redis = Some r\<rparr>, so_handler := Some True\<rparr>)" by (simp add: objs_up_def)
  from unwind_running [OF this] s(2) show ?thesis by (simp add: MQHandler_new_def Let_def)
qed

lemma ServerClass_new_runs:
  assumes "p \<noteq> q"
  shows "\<exists>s s'. ServerClass_new p q (Inr r) (Inr u) = Inr s \<and> GetRedis (so_redis s) = Inr r \<and> so_handler s = Some True \<and> so_mq s \<and>
    ServerClass_dtor s = Inr s' \<and> so_timers s' = None \<and> so_handler s' = None \<and> so_uploader_refs s' = 0 \<and> \<not> so_mq s'"
proof (rule ServerClass_new_cases [OF assms, of "Inr r" "Inr u"])
  fix s assume s: "objs_up p q s" "ServerClass_new p q (Inr r) (Inr u) =
      (case Inr r of
         Inl ex \<Rightarrow> bindR (ServerClass_unwind s) (\<lambda>_. Inl ex)
       | Inr r \<Rightarrow>
           (let s = s\<lparr>so_redis := \<lparr>rm_redis = Some r\<rparr>, so_handler := Some True\<rparr> in
            case MQHandler_new (Inr u) s of Inl ex \<Rightarrow> bindR (ServerClass_unwind s) (\<lambda>_. Inl ex) | Inr s \<Rightarrow> Inr s))"
  let ?s = "s\<lparr>so_redis := \<lparr>rm_redis = Some r\<rparr>, so_handler := Some True, so_mq := True\<rparr>"
  have "objs_up p q ?s" using s(1) by (simp add: objs_up_def)
  from dtor_destroys_timers [OF this] s(2) show ?thesis by (simp add: MQHandler_new_def GetRedis_def Let_def)
qed

lemma RunStatusServer_cases:
  assumes "\<not> sn_running n"
  shows "RunStatusServer built bound n =
    (case built of
       Inl ex \<Rightarrow> (Inl ex, n\<lparr>sn_srv := Some StatusServer_new, sn_redis := Some BaseRedisMgr_new\<rparr>)
     | Inr r \<Rightarrow>
         (if bound then Inr True else Inl Undefined_Behaviour,
          n\<lparr>sn_srv := Some (up_Start StatusServer_new), sn_redis := Some \<lparr>rm_redis = Some r\<rparr>,
            sn_rpc := Some (if bound then \<lparr>rp_server = True, rp_service = True, rp_waiting = True\<rparr> else StatusRPCManager_new),
            sn_running := True\<rparr>))"
  using assms
  by (simp add: RunStatusServer_def ConnectTo_status rpc_Run_def StatusRPCManager_new_def Let_def split: sum.splits)

section \<open>Properties\<close>



text \<open>
  The exit code of the program: -1 for a wrong number of arguments, 0 after a run and after an exception of
  the server, which is printed. An argument that is no number, and an exception while the queues are
  registered, end it otherwise.
\<close>

lemma server_main_outcomes:
  assumes "p \<noteq> q"
  shows "server_main p q built mq argv =
    (case server_args argv of
       Inl ex \<Rightarrow> Inl ex
     | Inr None \<Rightarrow> Inr (- 1)
     | Inr (Some cf) \<Rightarrow>
         (case built of Inl ex \<Rightarrow> if is_exception ex then Inr 0 else Inl ex
          | Inr r \<Rightarrow> (case mq of Inl ex \<Rightarrow> Inl Std_Terminate | Inr _ \<Rightarrow> Inr 0)))"
proof (cases built)
  case (Inl ex)
  then show ?thesis
    by (simp add: server_main_def ServerClass_new_redis_fails [OF assms] bindR_def split: sum.splits option.splits)
next
  case (Inr r)
  show ?thesis
  proof (cases mq)
    case (Inr u)
    obtain s s' where "ServerClass_new p q (Inr r) (Inr u) = Inr s" "ServerClass_dtor s = Inr s'"
      using ServerClass_new_runs [OF assms, of r u] by blast
    with Inr \<open>built = Inr r\<close> show ?thesis by (simp add: server_main_def bindR_def split: sum.splits option.splits)
  qed (simp add: Inr server_main_def ServerClass_new_mq_fails [OF assms] bindR_def split: sum.splits option.splits)
qed

text \<open>
  A status server that could not reach Redis can be started again. One that cannot listen on its address,
  because another process has it, dereferences a null pointer.
\<close>

lemma status_start_failures:
  assumes "\<not> sn_running n"
  shows "RunStatusServer (Inl ex) bound n = (Inl ex, n') \<Longrightarrow>
      \<not> sn_running n' \<and> fst (RunStatusServer (Inr r) True n') = Inr True"
    and "fst (RunStatusServer (Inr r) False n) = Inl Undefined_Behaviour"
  using assms RunStatusServer_cases [OF assms] by (auto simp: RunStatusServer_cases)

text \<open>
  C40: a restart of the status server. It forgets every server, and the next report of a backend puts that
  backend back, since the report is answered with \<open>NOT_FOUND\<close> and a registration follows. Stopping it
  before the thread that runs it has left the wait is undefined behaviour.
\<close>

theorem restart_recovers_by_reports:
  assumes run: "sn_running n" "sn_rpc n = Some \<lparr>rp_server = True, rp_service = True, rp_waiting = True\<rparr>"
    and m: "\<not> mgr_lck m" "\<not> mgr_temp_lck m" "small_load (mgr_load m)" and up: "lk_up lk"
  shows "StopStatusServer False n = Inl Undefined_Behaviour \<and>
    (\<exists>n1 n2 st st' s. StopStatusServer True n = Inr n1 \<and> RunStatusServer (Inr r) True n1 = (Inr True, n2) \<and>
      sn_srv n2 = Some st \<and> registry (ss_lb st) = Map.empty \<and>
      ReportImpl lk rp m st = Inr st' \<and> registry (ss_lb st') = [rp_id rp \<mapsto> s] \<and> si_load s = mgr_load m)"
proof -
  let ?st = "up_Start StatusServer_new"
  have st: "lb_inv (ss_lb ?st)" "registry (ss_lb ?st) = Map.empty" "stale_ids (ss_lb ?st) = {}"
    using lb_inv_new by (simp_all add: up_Start_def StatusServer_new_def)
  moreover have "small_loads (ss_lb ?st)" using st(2) by (simp add: small_loads_def)
  moreover have "lb_mem (ss_lb ?st) (lk_alloc lk) = None" by (simp add: up_Start_def StatusServer_new_def LoadBalancer_new_def)
  ultimately obtain st' s where "ReportImpl lk rp m ?st = Inr st'" "registry (ss_lb st') = [rp_id rp \<mapsto> s]" "si_load s = mgr_load m"
    using ReportImpl_registers [of ?st lk rp m] m up by auto
  moreover obtain n1 where n1: "StopStatusServer True n = Inr n1" "\<not> sn_running n1"
    using run by (simp add: StopStatusServer_def rpc_Stop_def)
  ultimately show ?thesis
    using run st RunStatusServer_cases [OF n1(2), of "Inr r" True] by (auto simp: StopStatusServer_def rpc_Stop_def)
qed

theorem restart_recovers_by_reports_witness:
  "\<exists>n n1 n2 st st' s. RunStatusServer (Inr 1) True status_node_new = (Inr True, n) \<and> StopStatusServer True n = Inr n1 \<and>
    RunStatusServer (Inr 2) True n1 = (Inr True, n2) \<and> sn_srv n2 = Some st \<and> registry (ss_lb st) = Map.empty \<and>
    ReportImpl \<lparr>lk_up = True, lk_now = 500, lk_alloc = 9\<rparr> (StatusReporter_new \<lparr>cf_id = 100, cf_addr = ''h:1'', cf_port = 1\<rparr>)
      (be_mgr (ex_server [])) st = Inr st' \<and> registry (ss_lb st') = [100 \<mapsto> s] \<and> si_load s = 3"
proof -
  let ?lk = "\<lparr>lk_up = True, lk_now = 500, lk_alloc = 9\<rparr>"
  let ?r = "StatusReporter_new \<lparr>cf_id = 100, cf_addr = ''h:1'', cf_port = 1\<rparr>"
  obtain n where n: "RunStatusServer (Inr 1) True status_node_new = (Inr True, n)" "sn_running n"
      "sn_rpc n = Some \<lparr>rp_server = True, rp_service = True, rp_waiting = True\<rparr>"
    using RunStatusServer_cases [of status_node_new "Inr 1" True] by (simp add: status_node_new_def)
  have load: "mgr_load (be_mgr (ex_server [])) = 3" by (simp add: mgr_load_def)
  show ?thesis
    using n restart_recovers_by_reports [OF n(2,3), of "be_mgr (ex_server [])" ?lk 2 ?r]
    by (simp add: load small_load_def StatusReporter_new_def)
qed

end
