(* ===== verification/Cluster.thy ===== *)
theory Cluster
  imports Backend Client
begin

text \<open>
  The whole system: the gateway and any number of backend servers that share one Redis. The servers step
  in any order, a server may die and start again, and the clients send what they like. What Redis
  answers is the environment, bound by what it documents: a string that is read was stored under that
  key by a \<open>SETEX\<close>, and an entry that a stream delivers was put there by an \<open>XADD\<close>. The lemmas show, by
  induction over the histories of the system, that no sender is forged on the way: a chat message that is
  written to a connection was handed in by its sender, for the user of that connection, with that text,
  and the sender had logged in with the password before.
\<close>

section \<open>The system\<close>

record cluster =
  cs_gw :: gateway
  cs_be :: "string \<Rightarrow> backend"

datatype cluster_event = Cl_Request gw_services http_request | Cl_Server string be_event | Cl_Restart string

text \<open>
  What the history records: a login of a user that was answered with a token, and a chat message that the
  worker of a server takes from the queue of a verified user, with its sender, its addressee and its text.
\<close>

datatype observation = Obs_Login u64 | Obs_Chat u64 u64 string

text \<open>The user whose password a login carries.\<close>

definition login_of :: "gw_services \<Rightarrow> http_request \<Rightarrow> u64 option" where
  "login_of sv req =
    (if rq_method req = Verb_Post \<and> rq_target req = ''/login'' then
       (case gs_json sv (rq_body req) of
          Req_Fields username passcode \<Rightarrow>
            (case my_login (gs_mysql sv) username of
               Some ((uid, hash) # rows) \<Rightarrow> if Verify (gs_crypto sv) passcode hash = Inr True then Some uid else None
             | _ \<Rightarrow> None)
        | _ \<Rightarrow> None)
     else None)"

definition observe_request :: "gw_services \<Rightarrow> http_request \<Rightarrow> gateway \<Rightarrow> observation list" where
  "observe_request sv req gw =
    (case (login_of sv req, fst (RequestHandler sv req gw)) of
       (Some uid, Some (Inr resp)) \<Rightarrow> if rs_status resp = 200 then [Obs_Login uid] else []
     | _ \<Rightarrow> [])"

definition observe_work :: "endian \<Rightarrow> backend \<Rightarrow> observation list" where
  "observe_work e be =
    (case be_q be of
       (Some p, Some msg) # q \<Rightarrow>
         (let s = the (be_ses be p) in
          case (GetTagField e msg, ReadNetField64 e (GetContent msg) 0) of
            (Inr tag, Inr target) \<Rightarrow>
              if be_running be \<and> tag = TAG_CHAT_MSG \<and> ses_verified s
              then [Obs_Chat (ses_user_id s) target (text_of_bytes (drop 8 (take (unat (GetContentLen msg)) (GetContent msg))))]
              else []
          | _ \<Rightarrow> [])
     | _ \<Rightarrow> [])"

definition observe_server :: "endian \<Rightarrow> be_event \<Rightarrow> backend \<Rightarrow> observation list" where
  "observe_server e ev be = (case ev of Be_Work sv \<Rightarrow> observe_work e be | _ \<Rightarrow> [])"

text \<open>
  The answers of Redis. The attributes of an entry are a table, so only what they map to matters.
\<close>

definition stored :: "cluster \<Rightarrow> string \<Rightarrow> string \<Rightarrow> bool" where
  "stored cs k v = (\<exists>ttl. Gw_Setex k ttl v \<in> set (gw_cmds (cs_gw cs)))"

definition added :: "cluster \<Rightarrow> string \<Rightarrow> attrs \<Rightarrow> bool" where
  "added cs key msg =
    (\<exists>fs n. map_of msg = map_of fs \<and>
      (Gw_Xadd key fs n \<in> set (gw_cmds (cs_gw cs)) \<or> (\<exists>sid m. Cmd_Xadd key fs m \<in> set (be_cmds (cs_be cs sid)))))"

definition redis_answers :: "cluster \<Rightarrow> be_event \<Rightarrow> bool" where
  "redis_answers cs ev =
    (case ev of
       Be_Work sv \<Rightarrow> \<forall>k v. sv_get sv k = Some v \<longrightarrow> stored cs k v
     | Be_Queue stms \<Rightarrow> \<forall>key items msg. (key, items) \<in> set stms \<longrightarrow> Some msg \<in> set items \<longrightarrow> added cs key msg
     | _ \<Rightarrow> True)"

text \<open>A server that starts again has lost its state; what it told Redis before stays there.\<close>

inductive cluster_step ::
  "(string \<Rightarrow> endian) \<Rightarrow> (nat \<Rightarrow> byte) \<Rightarrow> cluster \<Rightarrow> cluster_event \<Rightarrow> observation list \<Rightarrow> cluster \<Rightarrow> bool"
  for e :: "string \<Rightarrow> endian" and fill :: "nat \<Rightarrow> byte" where
  request: "RequestHandler sv req (cs_gw cs) = (r, gw) \<Longrightarrow>
    cluster_step e fill cs (Cl_Request sv req) (observe_request sv req (cs_gw cs)) (cs\<lparr>cs_gw := gw\<rparr>)"
| server: "redis_answers cs ev \<Longrightarrow> be_step (e sid) fill sid ev (cs_be cs sid) = Inr ((), be) \<Longrightarrow>
    cluster_step e fill cs (Cl_Server sid ev) (observe_server (e sid) ev (cs_be cs sid)) (cs\<lparr>cs_be := (cs_be cs)(sid := be)\<rparr>)"
| restart: "cluster_step e fill cs (Cl_Restart sid) []
    (cs\<lparr>cs_be := (cs_be cs)(sid := Backend_new\<lparr>be_cmds := be_cmds (cs_be cs sid)\<rparr>)\<rparr>)"

inductive cluster_run :: "(string \<Rightarrow> endian) \<Rightarrow> (nat \<Rightarrow> byte) \<Rightarrow> observation list \<Rightarrow> cluster \<Rightarrow> bool"
  for e :: "string \<Rightarrow> endian" and fill :: "nat \<Rightarrow> byte" where
  start: "gw_cmds gw = [] \<Longrightarrow> cluster_run e fill [] \<lparr>cs_gw = gw, cs_be = (\<lambda>_. Backend_new)\<rparr>"
| step: "cluster_run e fill obs cs \<Longrightarrow> cluster_step e fill cs ev new cs' \<Longrightarrow> cluster_run e fill (obs @ new) cs'"

inductive_cases cluster_stepE [elim]: "cluster_step e fill cs ev new cs'"

section \<open>The invariant\<close>

text \<open>The frames of a session: those it is writing, and those its queue will write.\<close>

definition frames_of :: "session \<Rightarrow> byte list set" where
  "frames_of s = {bs. \<exists>n\<in>set (ses_send_q s). write_bytes n = Inr bs} \<union> set (ses_writes s)"

definition frame_ok :: "observation list \<Rightarrow> session \<Rightarrow> byte list \<Rightarrow> bool" where
  "frame_ok obs s bs =
    (\<forall>from text. show_frame bs = Inr (Shown_Chat from text) \<longrightarrow>
      ses_verified s \<and> Obs_Chat from (ses_user_id s) text \<in> set obs)"

definition ses_ok :: "observation list \<Rightarrow> session \<Rightarrow> bool" where
  "ses_ok obs s =
    ((ses_verified s \<longrightarrow> Obs_Login (ses_user_id s) \<in> set obs) \<and> (\<forall>bs\<in>frames_of s. frame_ok obs s bs))"

definition cmd_ok :: "observation list \<Rightarrow> backend_cmd \<Rightarrow> bool" where
  "cmd_ok obs c =
    (case c of
       Cmd_Xadd key fs n \<Rightarrow> \<exists>from whom text. Obs_Chat from whom text \<in> set obs \<and>
         fs = [(''from'', to_string (unat from)), (''to'', to_string (unat whom)), (''content'', text)]
     | _ \<Rightarrow> True)"

definition content_ok :: "observation list \<Rightarrow> backend \<Rightarrow> bool" where
  "content_ok obs be = ((\<forall>p s. be_ses be p = Some s \<longrightarrow> ses_ok obs s) \<and> (\<forall>c\<in>set (be_cmds be). cmd_ok obs c))"

definition gw_cmd_ok :: "observation list \<Rightarrow> gateway_cmd \<Rightarrow> bool" where
  "gw_cmd_ok obs c =
    (case c of
       Gw_Setex k ttl v \<Rightarrow> \<exists>uid. v = to_string (unat uid) \<and> Obs_Login uid \<in> set obs
     | Gw_Xadd key fs n \<Rightarrow> \<exists>sid. key = ''stream:serverctl:'' @ sid
     | _ \<Rightarrow> True)"

text \<open>No one speaks before the login.\<close>

definition login_first :: "observation list \<Rightarrow> bool" where
  "login_first obs = (\<forall>pre from whom text post. obs = pre @ Obs_Chat from whom text # post \<longrightarrow> Obs_Login from \<in> set pre)"

definition cluster_ok :: "observation list \<Rightarrow> cluster \<Rightarrow> bool" where
  "cluster_ok obs cs =
    (login_first obs \<and> (\<forall>c\<in>set (gw_cmds (cs_gw cs)). gw_cmd_ok obs c) \<and>
     (\<forall>sid. tables_ok (cs_be cs sid) \<and> \<not> be_lck (cs_be cs sid) \<and> content_ok obs (cs_be cs sid)))"

section \<open>A longer history\<close>

lemma ses_ok_mono: "ses_ok obs s \<Longrightarrow> ses_ok (obs @ new) s"
  unfolding ses_ok_def frame_ok_def by auto

lemma cmd_ok_mono: "cmd_ok obs c \<Longrightarrow> cmd_ok (obs @ new) c"
  unfolding cmd_ok_def by (cases c) auto

lemma content_ok_mono: "content_ok obs be \<Longrightarrow> content_ok (obs @ new) be"
  using ses_ok_mono cmd_ok_mono unfolding content_ok_def by blast

lemma gw_cmd_ok_mono: "gw_cmd_ok obs c \<Longrightarrow> gw_cmd_ok (obs @ new) c" "gw_cmd_ok new c \<Longrightarrow> gw_cmd_ok (obs @ new) c"
  unfolding gw_cmd_ok_def by (cases c; auto)+

lemma login_first_snoc:
  assumes "login_first obs" and "\<And>from whom text. x = Obs_Chat from whom text \<Longrightarrow> Obs_Login from \<in> set obs"
  shows "login_first (obs @ [x])"
proof -
  have "Obs_Login f \<in> set pre" if split: "obs @ [x] = pre @ Obs_Chat f w t # post" for pre f w t post
  proof (cases post rule: rev_cases)
    case Nil
    then show ?thesis using split assms(2) by simp
  next
    case (snoc ys y)
    then have "obs = pre @ Obs_Chat f w t # ys" using split by simp
    then show ?thesis using assms(1) unfolding login_first_def by blast
  qed
  then show ?thesis unfolding login_first_def by blast
qed

section \<open>Sessions\<close>

text \<open>The part of a session the invariant is about; receiving and closing leave it alone.\<close>

definition traffic :: "session \<Rightarrow> bool \<times> u64 \<times> msg_node list \<times> byte list list" where
  "traffic s = (ses_verified s, ses_user_id s, ses_send_q s, ses_writes s)"

lemma ses_ok_traffic: "traffic s' = traffic s \<Longrightarrow> ses_ok obs s' = ses_ok obs s"
  by (simp add: traffic_def ses_ok_def frames_of_def frame_ok_def)

lemma traffic_simps [simp]:
  "traffic (s\<lparr>ses_recv := n\<rparr>) = traffic s" "traffic (s\<lparr>ses_reading := r\<rparr>) = traffic s"
  "traffic (s\<lparr>ses_calls := k\<rparr>) = traffic s" "traffic (s\<lparr>ses_down := d\<rparr>) = traffic s" "traffic (emit ef s) = traffic s"
  by (simp_all add: traffic_def emit_def)

lemma traffic_ops [simp]:
  "traffic (Close s) = traffic s" "traffic (ReceiveHandler fill s) = traffic s"
  "traffic (ReceiveHead s) = traffic s" "traffic (ReceiveContent s) = traffic s" "traffic (Start s) = traffic s"
  by (simp_all add: Close_def Let_def ReceiveHandler_def ReceiveHead_def ReceiveContent_def Start_def)

lemma traffic_read_complete:
  assumes "read_complete e fill s r = Inr s'"
  shows "traffic s' = traffic s"
proof -
  have "ReceiveHead_cb e fill s r = Inr s' \<Longrightarrow> traffic s' = traffic s"
    by (auto simp: ReceiveHead_cb_def Let_def split: read_result.splits if_splits)
  moreover have "ReceiveContent_cb e fill s r = Inr s' \<Longrightarrow> traffic s' = traffic s"
    by (auto simp: ReceiveContent_cb_def Let_def split: read_result.splits if_splits)
  ultimately show ?thesis using assms by (auto simp: read_complete_def split: option.splits read_phase.splits)
qed

text \<open>What has to be shown of an operation: the frames that are new.\<close>

lemma ses_ok_more:
  assumes "ses_ok obs s" and "ses_verified s' = ses_verified s" and "ses_user_id s' = ses_user_id s"
    and "\<And>bs. bs \<in> frames_of s' \<Longrightarrow> bs \<in> frames_of s \<or> frame_ok obs s bs"
  shows "ses_ok obs s'"
proof -
  have same: "frame_ok obs s' bs = frame_ok obs s bs" for bs using assms(2,3) by (simp add: frame_ok_def)
  show ?thesis using assms unfolding ses_ok_def same by metis
qed

lemma ses_ok_QueueSend:
  assumes "QueueSend s = Inr s'" and "ses_ok obs s"
  shows "ses_ok obs s'"
proof (cases "ses_send_q s")
  case Nil
  then show ?thesis using assms by (simp add: QueueSend_def)
next
  case (Cons n q)
  then obtain bs where "write_bytes n = Inr bs" "s' = s\<lparr>ses_send_q := q, ses_sending := Some n, ses_writes := ses_writes s @ [bs]\<rparr>"
    using assms(1) by (auto simp: QueueSend_def)
  then show ?thesis using Cons by (intro ses_ok_more [OF assms(2)]) (auto simp: frames_of_def)
qed

lemma ses_ok_QueueSend_cb:
  assumes "QueueSend_cb i err s = Inr s'" and "ses_ok obs s"
  shows "ses_ok obs s'"
proof -
  let ?s = "s\<lparr>ses_writes := take i (ses_writes s) @ drop (Suc i) (ses_writes s)\<rparr>"
  have "ses_ok obs ?s"
    by (rule ses_ok_more [OF assms(2)]) (auto simp: frames_of_def dest: in_set_takeD in_set_dropD)
  moreover have "s' = Close ?s \<or> s' = ?s \<or> QueueSend ?s = Inr s'"
    using assms(1) by (auto simp: QueueSend_cb_def Let_def split: if_splits)
  ultimately show ?thesis using ses_ok_QueueSend ses_ok_traffic [OF traffic_ops(1)] by blast
qed

lemma ses_ok_send_step:
  assumes "send_step ev s = Inr (out, s')" and "ev = Snd_Call \<or> ev = Snd_Done i err" and "ses_ok obs s"
  shows "ses_ok obs s'"
proof -
  have "s' = s \<or> QueueSend (s\<lparr>ses_calls := ses_calls s - 1\<rparr>) = Inr s' \<or> QueueSend_cb i err s = Inr s'"
    using assms(1,2) by (auto simp: send_step_def split: if_splits)
  moreover have "ses_ok obs (s\<lparr>ses_calls := ses_calls s - 1\<rparr>)" using assms(3) ses_ok_traffic [OF traffic_simps(3)] by blast
  ultimately show ?thesis using assms(3) ses_ok_QueueSend ses_ok_QueueSend_cb by blast
qed

lemma ses_ok_Send_whole:
  assumes "Send_whole n s = Inr s'" and "ses_ok obs s" and "\<And>bs. write_bytes n = Inr bs \<Longrightarrow> frame_ok obs s bs"
  shows "ses_ok obs s'"
proof -
  have "ses_ok obs (Send_node n s)"
    by (rule ses_ok_more [OF assms(2)]) (use assms(3) in \<open>auto simp: Send_node_def Let_def frames_of_def split: if_splits\<close>)
  moreover from this have "ses_ok obs ((Send_node n s)\<lparr>ses_calls := ses_calls s\<rparr>)"
    using ses_ok_traffic [OF traffic_simps(3)] by blast
  ultimately show ?thesis using assms(1) ses_ok_QueueSend by (auto simp: Send_whole_def split: if_splits)
qed

lemma ses_ok_SetVerified:
  assumes "ses_ok obs s" and "\<not> ses_verified s" and "Obs_Login uid \<in> set obs"
  shows "ses_ok obs (SetVerified uid s)"
proof -
  have "frames_of (SetVerified uid s) = frames_of s" by (simp add: frames_of_def SetVerified_def)
  moreover have "frame_ok obs s bs \<Longrightarrow> frame_ok obs (SetVerified uid s) bs" for bs
    using assms(2) by (simp add: frame_ok_def)
  ultimately show ?thesis using assms by (simp add: ses_ok_def SetVerified_def)
qed

section \<open>The operations of a server\<close>

lemma apply_effects_keeps:
  "apply_effects p efs be = Inr be' \<Longrightarrow> be_ses be' = be_ses be \<and> be_cmds be' = be_cmds be"
proof (induction efs arbitrary: be)
  case (Cons ef efs)
  then obtain be1 where be1: "apply_effect p ef be = Inr be1" "apply_effects p efs be1 = Inr be'" by auto
  have "be_ses be1 = be_ses be \<and> be_cmds be1 = be_cmds be"
    using be1(1) by (cases ef) (auto simp: apply_effect_def PostMessage_def be_set_mgr_def result_simps)
  with Cons.IH [OF be1(2)] show ?case by simp
qed simp

lemma content_ok_call_session:
  assumes "content_ok obs be" and "call_session p f be = Inr be'"
    and "\<And>s s'. be_ses be p = Some s \<Longrightarrow> ses_ok obs s \<Longrightarrow> f s = Inr s' \<Longrightarrow> ses_ok obs s'"
  shows "content_ok obs be'"
proof -
  obtain s s' where s: "be_ses be p = Some s" "f s = Inr s'"
      "apply_effects p (drop (length (ses_out s)) (ses_out s')) (be\<lparr>be_ses := (be_ses be)(p \<mapsto> s')\<rparr>) = Inr be'"
    using assms(2) by (auto simp: call_session_def split: option.splits)
  then have "ses_ok obs s'" using assms(1,3) by (simp add: content_ok_def)
  then show ?thesis using apply_effects_keeps [OF s(3)] assms(1) by (auto simp: content_ok_def)
qed

lemma content_ok_simps [simp]:
  "content_ok obs (be\<lparr>be_lck := b\<rparr>) = content_ok obs be" "content_ok obs (be\<lparr>be_q := q\<rparr>) = content_ok obs be"
  "content_ok obs (be\<lparr>be_online := u\<rparr>) = content_ok obs be" "content_ok obs (be\<lparr>be_mgr := m\<rparr>) = content_ok obs be"
  by (simp_all add: content_ok_def)

lemma content_ok_issue: "content_ok obs be \<Longrightarrow> \<forall>c\<in>set cmds. cmd_ok obs c \<Longrightarrow> content_ok obs (issue cmds be)"
  by (auto simp: content_ok_def issue_def)

lemma content_ok_session_close: "content_ok obs be \<Longrightarrow> session_close p be = Inr be' \<Longrightarrow> content_ok obs be'"
  unfolding session_close_def by (erule (1) content_ok_call_session) (use ses_ok_traffic [OF traffic_ops(1)] in blast)

lemma content_ok_session_send:
  assumes "content_ok obs be" and "session_send p n be = Inr be'"
    and "\<And>s bs. be_ses be p = Some s \<Longrightarrow> write_bytes n = Inr bs \<Longrightarrow> frame_ok obs s bs"
  shows "content_ok obs be'"
  using assms(1,2) unfolding session_send_def
  by (rule content_ok_call_session) (use assms(3) ses_ok_Send_whole in blast)

lemma content_ok_set_mgr: "content_ok obs be \<Longrightarrow> be_set_mgr be r = Inr be' \<Longrightarrow> content_ok obs be'"
  by (auto simp: be_set_mgr_def)

lemma content_ok_reject: "content_ok obs be \<Longrightarrow> reject p be = Inr be' \<Longrightarrow> content_ok obs be'"
  unfolding reject_def using content_ok_session_close content_ok_set_mgr by blast

lemma frame_ok_welcome: "frame_ok obs s (frame TAG_VERIFY_DONE (bytes_of_text welcome_text))"
  using frame_fields(1) [of TAG_VERIFY_DONE "bytes_of_text welcome_text" "[]"] by (simp add: frame_ok_def show_frame_def Let_def)

lemma content_ok_Processor_verify:
  assumes ok: "content_ok obs be" and s: "be_ses be p = Some s"
    and run: "Processor_verify e fill server_id sv p msg be = Inr be'"
    and token: "\<And>token v. sv_get sv (''token:'' @ token) = Some v \<Longrightarrow> \<exists>uid. v = to_string (unat uid) \<and> Obs_Login uid \<in> set obs"
  shows "content_ok obs be'"
  using s run
proof (cases rule: Processor_verify_cases)
  case rejected
  then show ?thesis using content_ok_reject [OF ok] by blast
next
  case (verified token uid be1 n)
  obtain v where "sv_get sv (''token:'' @ token) = Some v" "stoull v = Inr uid"
    using verified(2) by (auto simp: VerifyUser_def split: option.splits)
  then have "Obs_Login uid \<in> set obs" using token by fastforce
  then have "ses_ok obs (SetVerified uid s)" using ok s verified(1) by (auto simp: content_ok_def intro: ses_ok_SetVerified)
  then have "content_ok obs (be\<lparr>be_ses := (be_ses be)(p \<mapsto> SetVerified uid s)\<rparr>)" using ok by (auto simp: content_ok_def)
  from content_ok_set_mgr [OF this verified(3)] have "content_ok obs (issue [UpdateUserStatus server_id uid] be1)"
    by (rule content_ok_issue) (simp add: UpdateUserStatus_def cmd_ok_def)
  then show ?thesis
    by (rule content_ok_session_send [OF _ verified(5)])
      (use verified(4) welcome_node frame_ok_welcome in auto)
qed (use ok in simp)

section \<open>The frames of a chat message\<close>

text \<open>The node of the sender, turned into the frame for the addressee in place.\<close>

lemma local_chat_frame:
  assumes tag: "SetTagField e (ResetCurPos msg) TAG_CHAT_MSG_TOCLI = Inr m" and d: "node_data m = Some d"
    and w: "WriteNetField64 e d HEAD_LEN uid = Inr d'" and bs: "write_bytes (m\<lparr>node_data := Some d'\<rparr>) = Inr bs"
    and shown: "show_frame bs = Inr (Shown_Chat sender words)"
  shows "sender = uid \<and> words = text_of_bytes (drop 8 (take (unat (GetContentLen msg)) (GetContent msg)))"
proof -
  obtain d0 where d0: "node_data msg = Some d0" "4 \<le> length d0" "d = be_bytes 4 TAG_CHAT_MSG_TOCLI @ drop 4 d0"
      "node_ctx_len m = node_ctx_len msg" "node_cur_pos m = 0"
    using tag d
    by (auto simp: SetTagField_def ResetCurPos_def WriteNetField32_def memcpy_to_def host_bytes_hton overwrite_def result_simps
        split: option.splits)
  have d': "d' = overwrite d 8 (be_bytes 8 uid)" "16 \<le> length d"
    using w by (auto simp: WriteNetField64_def memcpy_to_def host_bytes_hton result_simps)
  define k where "k = unat (node_ctx_len msg + 8)"
  have b: "bs = take k d'" "k \<le> length d'"
    using bs d0 by (auto simp: write_bytes_def memcpy_from_def k_def result_simps)
  have long: "16 \<le> length bs" and tail: "sender = be_word (take 8 (drop 8 bs))" "words = text_of_bytes (drop 16 bs)"
    using shown by (auto simp: show_frame_def Let_def split: if_splits)
  have "16 \<le> k" using long b by simp
  moreover have "k = (if unat (node_ctx_len msg) + 8 < 2 ^ 32 then unat (node_ctx_len msg) + 8 else unat (node_ctx_len msg) + 8 - 2 ^ 32)"
    using unat_add_head [of "node_ctx_len msg"] by (simp add: k_def add.commute)
  ultimately have k: "k = unat (node_ctx_len msg) + 8" "16 \<le> k"
    using unat_u32_less [of "node_ctx_len msg"] by (simp_all split: if_splits)
  have "drop 16 d' = drop 16 d0" "take 8 (drop 8 d') = be_bytes 8 uid"
    using d' d0(3) by (simp_all add: overwrite_def)
  then have "sender = uid" "drop 16 bs = take (k - 16) (drop 16 d0)"
    using tail(1) b k by (simp_all add: drop_take min_def)
  then show ?thesis using tail(2) k d0(1) by (simp add: GetContent_def GetContentLen_def drop_take)
qed

text \<open>The node the server of the addressee builds from an entry of its stream.\<close>

lemma show_chat_frame: "show_frame (chat_frame sender (bytes_of_text words)) = Inr (Shown_Chat sender words)"
proof -
  let ?c = "be_bytes 8 sender @ bytes_of_text words"
  have "drop 8 (frame TAG_CHAT_MSG_TOCLI ?c) = ?c" by (simp add: frame_def)
  then show ?thesis
    using frame_fields(1) [of TAG_CHAT_MSG_TOCLI ?c "[]"]
    by (simp add: show_frame_def chat_frame_def tag_defs Let_def)
qed

lemma mq_node_small:
  assumes "mq_node e fill sender content = Inr n"
  shows "length content + 16 < 2 ^ 32"
proof -
  let ?w = "of_nat (16 + length content) :: u32"
  obtain d where d: "node_data (MsgNode_new fill ?w) = Some d" "16 + length content \<le> length d"
    using assms
    by (auto simp: mq_node_def Let_def WriteNetField64_def memcpy_to_def overwrite_def host_bytes_hton result_simps
        simp del: of_nat_add split: option.splits)
  then have "length d = unat ?w" by (auto simp: MsgNode_new_def split: if_splits)
  then show ?thesis using d(2) unat_u32_less [of ?w] by simp
qed

lemma mq_node_frame:
  assumes "mq_node e fill sender (bytes_of_text words) = Inr n"
  shows "write_bytes n = Inr (chat_frame sender (bytes_of_text words))"
proof -
  note small = mq_node_small [OF assms]
  obtain n' where "mq_node e fill sender (bytes_of_text words) = Inr n'" "node_wire n' = chat_frame sender (bytes_of_text words)"
      "node_cur_pos n' = 0" "node_ctx_len n' = of_nat (8 + length (bytes_of_text words))"
    using mq_node_wire [OF small] by metis
  then show ?thesis using assms chat_node_written [OF _ _ _ small] by simp
qed

section \<open>Chat messages\<close>

lemma content_ok_Processor_chat:
  assumes be: "tables_ok be" "content_ok obs be" and s: "be_ses be p = Some s"
    and run: "Processor_chat e sv p msg be = Inr be'"
    and said: "\<And>target. ses_verified s \<Longrightarrow> ReadNetField64 e (GetContent msg) 0 = Inr target \<Longrightarrow>
      Obs_Chat (ses_user_id s) target (text_of_bytes (drop 8 (take (unat (GetContentLen msg)) (GetContent msg)))) \<in> set obs"
  shows "content_ok obs be'"
proof (cases "ses_verified s")
  case False
  with run s be(2) show ?thesis by (simp add: Processor_chat_def)
next
  case True
  let ?words = "text_of_bytes (drop 8 (take (unat (GetContentLen msg)) (GetContent msg)))"
  obtain target ts where t: "ReadNetField64 e (GetContent msg) 0 = Inr target" "GetSession target (be_mgr be) = Inr ts"
    using run True s unfolding Processor_chat_def Let_def by (auto elim: bindR_eq_InrE)
  note said = said [OF True t(1)]
  show ?thesis
  proof (cases ts)
    case None
    then have "be' = be \<or> (\<exists>sid. be' = issue [SendToMsgQueue sid (ses_user_id s) target ?words] be)"
      using run True s t
      by (cases "GetUserLocation (sv_hget sv) target") (auto simp: Processor_chat_def Let_def guardR_eq_Inr_iff)
    moreover have "cmd_ok obs (SendToMsgQueue sid (ses_user_id s) target ?words)" for sid
      using said by (auto simp: cmd_ok_def SendToMsgQueue_def)
    ultimately show ?thesis using be(2) content_ok_issue by auto
  next
    case (Some q)
    then obtain m d d' where n: "SetTagField e (ResetCurPos msg) TAG_CHAT_MSG_TOCLI = Inr m" "node_data m = Some d"
        "WriteNetField64 e d HEAD_LEN (ses_user_id s) = Inr d'" "session_send q (m\<lparr>node_data := Some d'\<rparr>) be = Inr be'"
      using run True s t by (auto simp: Processor_chat_def Let_def elim!: bindR_eq_InrE split: option.splits)
    obtain u where u: "be_ses be q = Some u" "ses_verified u" "ses_user_id u = target"
      using tables_ok_registered [OF be(1), of target q] t(2) Some by (auto simp: GetSession_def guardR_eq_Inr_iff)
    have "frame_ok obs u bs" if "write_bytes (m\<lparr>node_data := Some d'\<rparr>) = Inr bs" for bs
      unfolding frame_ok_def using local_chat_frame [OF n(1-3) that] said u by blast
    then show ?thesis by (intro content_ok_session_send [OF be(2) n(4)]) (use u in simp)
  qed
qed

lemma attr_at_map_of: "map_of msg = map_of fs \<Longrightarrow> attr_at msg k = attr_at fs k"
  by (simp add: attr_at_def)

lemma content_ok_MessageHandler:
  assumes be: "tables_ok be" "content_ok obs be" and run: "MessageHandler e fill item be = Inr be'"
    and entry: "\<And>msg. item = Some msg \<Longrightarrow> \<exists>sender whom words. Obs_Chat sender whom words \<in> set obs \<and>
      map_of msg = map_of [(''from'', to_string (unat sender)), (''to'', to_string (unat whom)), (''content'', words)]"
  shows "content_ok obs be'"
proof (cases item)
  case None
  with run be(2) show ?thesis by (simp add: MessageHandler_def)
next
  case (Some msg)
  obtain sender whom words where said: "Obs_Chat sender whom words \<in> set obs"
    and msg: "map_of msg = map_of [(''from'', to_string (unat sender)), (''to'', to_string (unat whom)), (''content'', words)]"
    using entry [OF Some] by blast
  have at: "attr_at msg ''from'' = Inr (to_string (unat sender))" "attr_at msg ''to'' = Inr (to_string (unat whom))"
      "attr_at msg ''content'' = Inr words"
    unfolding attr_at_map_of [OF msg] by (simp_all add: attr_at_def)
  then obtain n ts where n: "mq_node e fill sender (bytes_of_text words) = Inr n" "GetSession whom (be_mgr be) = Inr ts"
      "(case ts of None \<Rightarrow> Inr be | Some p \<Rightarrow> session_send p n be) = Inr be'"
    using run Some by (auto simp: MessageHandler_def elim!: bindR_eq_InrE)
  show ?thesis
  proof (cases ts)
    case None
    then show ?thesis using n(3) be(2) by simp
  next
    case (Some p)
    obtain u where u: "be_ses be p = Some u" "ses_verified u" "ses_user_id u = whom"
      using tables_ok_registered [OF be(1), of whom p] n(2) Some by (auto simp: GetSession_def guardR_eq_Inr_iff)
    have "frame_ok obs u (chat_frame sender (bytes_of_text words))"
      using said u by (simp add: frame_ok_def show_chat_frame)
    then show ?thesis
      using n(3) Some mq_node_frame [OF n(1)] u by (intro content_ok_session_send [OF be(2), of p n]) simp_all
  qed
qed

lemma content_ok_CtrlMsgHandler: "content_ok obs be \<Longrightarrow> CtrlMsgHandler item be = Inr be' \<Longrightarrow> content_ok obs be'"
  using CtrlMsgHandler_cases content_ok_session_close by blast

text \<open>What a stream of messages from servers may hold.\<close>

definition entry_ok :: "observation list \<Rightarrow> attrs \<Rightarrow> bool" where
  "entry_ok obs msg =
    (\<exists>sender whom words. Obs_Chat sender whom words \<in> set obs \<and>
      map_of msg = map_of [(''from'', to_string (unat sender)), (''to'', to_string (unat whom)), (''content'', words)])"

lemma content_ok_MQ_items:
  "tables_ok be \<Longrightarrow> content_ok obs be \<Longrightarrow> MQ_items e fill ctrl items be = Inr be' \<Longrightarrow>
    (\<And>msg. \<not> ctrl \<Longrightarrow> Some msg \<in> set items \<Longrightarrow> entry_ok obs msg) \<Longrightarrow> content_ok obs be'"
proof (induction e fill ctrl items be rule: MQ_items.induct)
  case (2 e fill ctrl item items be)
  obtain be1 where be1: "(if ctrl then CtrlMsgHandler item be else MessageHandler e fill item be) = Inr be1"
      "MQ_items e fill ctrl items be1 = Inr be'"
    using "2.prems"(3) by auto
  have "tables_ok be1"
    using be1(1) tables_ok_CtrlMsgHandler [OF "2.prems"(1)] tables_ok_MessageHandler [OF "2.prems"(1)]
    by (cases ctrl) auto
  moreover have "content_ok obs be1"
  proof (cases ctrl)
    case True
    then show ?thesis using be1(1) content_ok_CtrlMsgHandler [OF "2.prems"(2)] by simp
  next
    case False
    then show ?thesis
      using be1(1) "2.prems"(4) content_ok_MessageHandler [OF "2.prems"(1,2), of e fill item be1]
      unfolding entry_ok_def by simp
  qed
  ultimately show ?case using "2.IH" [OF be1(1) _ _ be1(2)] "2.prems"(4) by simp
qed simp

lemma content_ok_MQ_round:
  "tables_ok be \<Longrightarrow> content_ok obs be \<Longrightarrow> MQ_round e fill server_id stms be = Inr be' \<Longrightarrow>
    (\<And>items msg. (''stream:server:'' @ server_id, items) \<in> set stms \<Longrightarrow> Some msg \<in> set items \<Longrightarrow> entry_ok obs msg) \<Longrightarrow>
    content_ok obs be'"
proof (induction e fill server_id stms be rule: MQ_round.induct)
  case (2 e fill server_id key items stms be)
  let ?r = "if key = ''stream:server:'' @ server_id then MQ_items e fill False items be
           else if key = ''stream:serverctl:'' @ server_id then MQ_items e fill True items be
           else Inr be"
  obtain be1 where be1: "?r = Inr be1" "MQ_round e fill server_id stms be1 = Inr be'"
    using "2.prems"(3) unfolding MQ_round.simps by (rule bindR_eq_InrE)
  consider (msgs) "key = ''stream:server:'' @ server_id" "MQ_items e fill False items be = Inr be1"
    | (ctrl) "MQ_items e fill True items be = Inr be1" | (other) "be1 = be"
    using be1(1) by (metis Inr_inject)
  then have "tables_ok be1 \<and> content_ok obs be1"
  proof cases
    case msgs
    have "entry_ok obs msg" if "Some msg \<in> set items" for msg using "2.prems"(4) [of items msg] msgs(1) that by simp
    then show ?thesis using msgs tables_ok_MQ_items [OF "2.prems"(1)] content_ok_MQ_items [OF "2.prems"(1,2) msgs(2)] by blast
  next
    case ctrl
    then show ?thesis using tables_ok_MQ_items [OF "2.prems"(1)] content_ok_MQ_items [OF "2.prems"(1,2) ctrl] by blast
  qed (use "2.prems" in simp)
  with "2.IH" [OF be1(1) _ _ be1(2)] "2.prems"(4) show ?case by auto
qed simp

section \<open>Every event of a server\<close>

lemma upload_cmd_ok:
  "UploadImpl_begin u = (Some cmds, u') \<Longrightarrow> c \<in> set cmds \<Longrightarrow> cmd_ok obs c"
  "on_UpdateNow ok u = Inr (cmds, u') \<Longrightarrow> c \<in> set cmds \<Longrightarrow> cmd_ok obs c"
  by (auto simp: on_UpdateNow_def UploadImpl_def UploadImpl_begin_def cmd_ok_def result_simps split: if_splits)

lemma content_ok_Processor:
  assumes be: "tables_ok be" "content_ok obs be" and s: "be_ses be p = Some s"
    and run: "Processor e fill server_id sv (Some p) msg be = Inr be'"
    and token: "\<And>token v. sv_get sv (''token:'' @ token) = Some v \<Longrightarrow> \<exists>uid. v = to_string (unat uid) \<and> Obs_Login uid \<in> set obs"
    and said: "\<And>m target. msg = Some m \<Longrightarrow> GetTagField e m = Inr TAG_CHAT_MSG \<Longrightarrow> ses_verified s \<Longrightarrow>
      ReadNetField64 e (GetContent m) 0 = Inr target \<Longrightarrow>
      Obs_Chat (ses_user_id s) target (text_of_bytes (drop 8 (take (unat (GetContentLen m)) (GetContent m)))) \<in> set obs"
  shows "content_ok obs be'"
proof (cases msg)
  case None
  then show ?thesis
    using run s be(2) upload_cmd_ok(2)
    by (auto simp: Processor_def online_UpdateNow_def intro!: content_ok_issue split: if_splits)
next
  case (Some m)
  let ?be = "be\<lparr>be_online := snd (on_AddSession (ses_user_id s) (be_online be))\<rparr>"
  have ok: "tables_ok ?be" "content_ok obs ?be" "be_ses ?be p = Some s" using be s by simp_all
  obtain tag where tag: "GetTagField e m = Inr tag" using run Some by (auto simp: Processor_def elim!: bindR_eq_InrE)
  consider (verify) "Processor_verify e fill server_id sv p m ?be = Inr be'"
    | (chat) "tag = TAG_CHAT_MSG" "Processor_chat e sv p m ?be = Inr be'" | (other) "be' = ?be"
    using run Some s tag by (cases "tag = TAG_VERIFY"; cases "tag = TAG_CHAT_MSG") (simp_all add: Processor_def Let_def)
  then show ?thesis
  proof cases
    case verify
    then show ?thesis using content_ok_Processor_verify [OF ok(2,3) verify] token by blast
  next
    case chat
    then show ?thesis using content_ok_Processor_chat [OF ok chat(2)] said Some tag by blast
  qed (use ok in simp)
qed

lemma content_ok_Worker_turn:
  assumes be: "tables_ok be" "content_ok obs be" and run: "Worker_turn e fill server_id sv be = Inr (Some be')"
    and token: "\<And>token v. sv_get sv (''token:'' @ token) = Some v \<Longrightarrow> \<exists>uid. v = to_string (unat uid) \<and> Obs_Login uid \<in> set obs"
    and said: "set (observe_work e be) \<subseteq> set obs"
  shows "content_ok obs be'"
proof -
  obtain sess msg q be1 where q: "be_running be" "be_q be = (sess, msg) # q"
      "Processor e fill server_id sv sess msg (be\<lparr>be_lck := True, be_q := q\<rparr>) = Inr be1" "be' = be1\<lparr>be_lck := False\<rparr>"
    using run by (auto simp: Worker_turn_def result_simps split: if_splits list.splits)
  let ?be = "be\<lparr>be_lck := True, be_q := q\<rparr>"
  have ok: "tables_ok ?be" "content_ok obs ?be"
    using be q(2) by (auto simp: tables_ok_def intro: tbl_ok_ops(4))
  show ?thesis
  proof (cases sess)
    case None
    then show ?thesis using q be(2) by (auto simp: Processor_def)
  next
    case (Some p)
    obtain s where s: "be_ses ?be p = Some s"
      using be(1) q(2) Some by (auto simp: tables_ok_def tbl_ok_def ids_of_def)
    have "content_ok obs be1"
      by (rule content_ok_Processor [OF ok s q(3) [unfolded Some] token])
        (use said q(1,2) s Some in \<open>auto simp: observe_work_def Let_def\<close>)
    then show ?thesis using q(4) by simp
  qed
qed

lemma content_ok_accept:
  assumes "content_ok obs be" and "accept_session fill p be = Inr be'"
  shows "content_ok obs be'"
proof -
  let ?be = "be\<lparr>be_ses := (be_ses be)(p \<mapsto> Session_new fill True True)\<rparr>"
  have "ses_ok obs (Session_new fill True True)" by (simp add: ses_ok_def frames_of_def Session_new_def)
  then have ok: "content_ok obs ?be" using assms(1) by (simp add: content_ok_def)
  obtain be1 where be1: "be_set_mgr ?be (AddTempSession p (be_mgr be)) = Inr be1" "call_session p (\<lambda>s. Inr (Start s)) be1 = Inr be'"
    using assms(2) by (auto simp: accept_session_def)
  show ?thesis
    by (rule content_ok_call_session [OF content_ok_set_mgr [OF ok be1(1)] be1(2)])
      (use ses_ok_traffic [OF traffic_ops(5)] in blast)
qed

lemma content_ok_be_step:
  assumes be: "tables_ok be" "content_ok obs be" and run: "be_step e fill server_id ev be = Inr ((), be')"
    and token: "\<And>sv token v. ev = Be_Work sv \<Longrightarrow> sv_get sv (''token:'' @ token) = Some v \<Longrightarrow>
      \<exists>uid. v = to_string (unat uid) \<and> Obs_Login uid \<in> set obs"
    and entries: "\<And>stms items msg. ev = Be_Queue stms \<Longrightarrow> (''stream:server:'' @ server_id, items) \<in> set stms \<Longrightarrow>
      Some msg \<in> set items \<Longrightarrow> entry_ok obs msg"
    and said: "set (observe_server e ev be) \<subseteq> set obs"
  shows "content_ok obs be'"
proof (cases ev)
  case (Be_Accept p)
  then show ?thesis using run be(2) content_ok_accept [OF be(2), of fill p be'] by (auto simp: be_step_def split: if_splits)
next
  case (Be_Read p r)
  then consider "be' = be" | "call_session p (\<lambda>s. read_complete e fill s r) be = Inr be'"
    using run by (auto simp: be_step_def split: if_splits)
  then show ?thesis
    using be(2) content_ok_call_session [OF be(2)] ses_ok_traffic [OF traffic_read_complete] by cases blast+
next
  case (Be_Call p)
  then consider "be' = be" | "call_session p (\<lambda>s. bindR (send_step Snd_Call s) (\<lambda>(out, s). Inr s)) be = Inr be'"
    using run by (auto simp: be_step_def split: if_splits)
  then show ?thesis
    by cases (use be(2) in simp, erule content_ok_call_session [OF be(2)], use ses_ok_send_step in fastforce)
next
  case (Be_Written p i err)
  then consider "be' = be" | "call_session p (\<lambda>s. bindR (send_step (Snd_Done i err) s) (\<lambda>(out, s). Inr s)) be = Inr be'"
    using run by (auto simp: be_step_def split: if_splits)
  then show ?thesis
    by cases (use be(2) in simp, erule content_ok_call_session [OF be(2)], use ses_ok_send_step in fastforce)
next
  case (Be_Work sv)
  then obtain r where r: "Worker_turn e fill server_id sv be = Inr r" "be' = (case r of None \<Rightarrow> be | Some be' \<Rightarrow> be')"
    using run by (auto simp: be_step_def)
  show ?thesis
  proof (cases r)
    case None
    then show ?thesis using r be(2) by simp
  next
    case (Some b)
    then show ?thesis
      using content_ok_Worker_turn [OF be r(1) [unfolded Some] token [OF Be_Work]] said Be_Work r(2)
      by (simp add: observe_server_def)
  qed
next
  case (Be_Queue stms)
  then have "MQ_round e fill server_id stms be = Inr be'" using run by (auto simp: be_step_def)
  then show ?thesis using content_ok_MQ_round [OF be] entries [OF Be_Queue] by blast
next
  case Be_Upload_Begin
  then show ?thesis
    using run be(2) upload_cmd_ok(1)
    by (auto simp: be_step_def intro!: content_ok_issue split: prod.splits option.splits)
next
  case Be_Upload_End
  then show ?thesis using run be(2) by (auto simp: be_step_def)
qed

section \<open>Every request to the gateway\<close>

lemma login_of_success:
  assumes "rq_method req = Verb_Post" "rq_target req = ''/login''" and "gs_json sv (rq_body req) = Req_Fields username passcode"
    and "my_login (gs_mysql sv) username = Some ((uid, hash) # rows)" and "Verify (gs_crypto sv) passcode hash = Inr True"
  shows "login_of sv req = Some uid"
  using assms by (simp add: login_of_def)

lemma login_verified_cmds:
  assumes "login_verified sv req username uid gw = (r, gw')"
  shows "\<exists>cmds. gw_cmds gw' = gw_cmds gw @ cmds \<and>
    (\<forall>c\<in>set cmds. gw_cmd_ok (case r of Some (Inr resp) \<Rightarrow> if rs_status resp = 200 then [Obs_Login uid] else [] | _ \<Rightarrow> []) c)"
proof -
  obtain up addr where rpc: "gs_rpc sv = (up, addr)" by fastforce
  show ?thesis
  proof (cases "up \<and> gs_redis sv")
    case False
    then have "gw' = gw" using assms rpc by (cases up) (auto simp: login_verified_def respond_def Let_def)
    then show ?thesis by simp
  next
    case True
    then have rpc: "gs_rpc sv = (True, addr)" "gs_redis sv" using rpc by simp_all
    show ?thesis
      using assms unfolding login_verified_cases [OF rpc]
      by (auto simp: Let_def respond_def gw_issue_def json_response_def ForbiddenRequest_def error_response_def
          UpdateUserInfo_def RegisterUserToken_def SendServerKickCmd_def gw_cmd_ok_def split: option.splits if_splits)
  qed
qed

lemma RequestHandler_cmds:
  assumes run: "RequestHandler sv req gw = (r, gw')"
  shows "\<exists>cmds. gw_cmds gw' = gw_cmds gw @ cmds \<and> (\<forall>c\<in>set cmds. gw_cmd_ok (observe_request sv req gw) c)"
proof (cases "rq_method req = Verb_Post \<and> rq_target req = ''/login''")
  case False
  then have "gw_cmds gw' = gw_cmds gw"
    using run
    by (auto simp: RequestHandler_def PostHandler_def PostRegisterLogic_def respond_def Let_def
        split: http_verb.splits if_splits req_json.splits option.splits prod.splits sum.splits)
  then show ?thesis by simp
next
  case True
  then have login: "LoginLogic sv req gw = (r, gw')" using run by (simp add: RequestHandler_def PostHandler_def)
  show ?thesis
  proof (cases "\<exists>username passcode uid m. gs_json sv (rq_body req) = Req_Fields username passcode \<and>
      DBM_VerifyUserInfo (gs_net sv) (gs_crypto sv) (gs_mysql sv) username passcode (gw_dbm gw) = (Some (Inr (GATEWAY_SUCCESS, uid)), m)")
    case False
    then have "gw_cmds gw' = gw_cmds gw"
      using login by (auto simp: LoginLogic_def respond_def Let_def split: req_json.splits prod.splits option.splits sum.splits if_splits)
    then show ?thesis by simp
  next
    case verified: True
    then obtain username passcode u m where db: "gs_json sv (rq_body req) = Req_Fields username passcode"
        "DBM_VerifyUserInfo (gs_net sv) (gs_crypto sv) (gs_mysql sv) username passcode (gw_dbm gw) = (Some (Inr (GATEWAY_SUCCESS, u)), m)"
      by blast
    obtain uid hash rows where uid: "u = Some uid" "my_login (gs_mysql sv) username = Some ((uid, hash) # rows)"
        "Verify (gs_crypto sv) passcode hash = Inr True"
      using DBM_VerifyUserInfo_success [OF db(2)] by blast
    have "login_verified sv req username uid (gw\<lparr>gw_dbm := m\<rparr>) = (r, gw')"
      using login LoginLogic_verified [OF db(1) db(2) [unfolded uid(1)]] by simp
    moreover have "observe_request sv req gw =
        (case r of Some (Inr resp) \<Rightarrow> if rs_status resp = 200 then [Obs_Login uid] else [] | _ \<Rightarrow> [])"
      using login_of_success [OF _ _ db(1) uid(2,3)] True run by (simp add: observe_request_def)
    ultimately show ?thesis using login_verified_cmds [of sv req username uid "gw\<lparr>gw_dbm := m\<rparr>" r gw'] by simp
  qed
qed

section \<open>Every history\<close>

lemma login_first_observe_request: "login_first obs \<Longrightarrow> login_first (obs @ observe_request sv req gw)"
  by (auto simp: observe_request_def intro!: login_first_snoc split: option.splits sum.splits)

lemma login_first_observe_server:
  assumes "login_first obs" and "tables_ok be" "content_ok obs be"
  shows "login_first (obs @ observe_server e ev be)"
proof -
  have "Obs_Login (ses_user_id s) \<in> set obs" if "be_ses be p = Some s" "ses_verified s" for p s
    using assms(3) that by (auto simp: content_ok_def ses_ok_def)
  moreover have "\<exists>s. be_ses be p = Some s" if "(Some p, x) \<in> set (be_q be)" for p x
  proof -
    have "Some p \<in> fst ` set (be_q be)" using that by force
    then have "Some p \<in> Some ` dom (ids_of be)" using assms(2) unfolding tables_ok_def tbl_ok_def by blast
    then show ?thesis by (auto simp: ids_of_def)
  qed
  ultimately have "login_first (obs @ observe_work e be)"
    using assms(1) by (fastforce simp: observe_work_def Let_def intro!: login_first_snoc split: list.splits option.splits prod.splits sum.splits)
  with assms(1) show ?thesis by (cases ev) (simp_all add: observe_server_def)
qed

text \<open>The answers of Redis, under the invariant.\<close>

lemma token_answer:
  assumes "cluster_ok obs cs" and "redis_answers cs (Be_Work sv)" and "sv_get sv k = Some v"
  shows "\<exists>uid. v = to_string (unat uid) \<and> Obs_Login uid \<in> set obs"
proof -
  obtain ttl where "Gw_Setex k ttl v \<in> set (gw_cmds (cs_gw cs))"
    using assms(2,3) by (auto simp: redis_answers_def stored_def)
  then show ?thesis using assms(1) by (fastforce simp: cluster_ok_def gw_cmd_ok_def)
qed

lemma entry_answer:
  assumes "cluster_ok obs cs" and "redis_answers cs (Be_Queue stms)"
    and "(''stream:server:'' @ sid, items) \<in> set stms" and "Some msg \<in> set items"
  shows "entry_ok obs msg"
proof -
  obtain fs n where fs: "map_of msg = map_of fs"
    "Gw_Xadd (''stream:server:'' @ sid) fs n \<in> set (gw_cmds (cs_gw cs)) \<or>
      (\<exists>sid' m. Cmd_Xadd (''stream:server:'' @ sid) fs m \<in> set (be_cmds (cs_be cs sid')))"
    using assms(2-4) unfolding redis_answers_def added_def be_event.case by blast
  have "Gw_Xadd (''stream:server:'' @ sid) fs n \<notin> set (gw_cmds (cs_gw cs))"
    using assms(1) by (fastforce simp: cluster_ok_def gw_cmd_ok_def)
  then obtain sid' m where "Cmd_Xadd (''stream:server:'' @ sid) fs m \<in> set (be_cmds (cs_be cs sid'))" using fs(2) by blast
  then have "cmd_ok obs (Cmd_Xadd (''stream:server:'' @ sid) fs m)" using assms(1) by (auto simp: cluster_ok_def content_ok_def)
  then show ?thesis unfolding cmd_ok_def entry_ok_def fs(1) backend_cmd.case by blast
qed

lemma cluster_ok_step:
  assumes ok: "cluster_ok obs cs" and step: "cluster_step e fill cs ev new cs'"
  shows "cluster_ok (obs @ new) cs'"
  using step
proof cases
  case (request sv req r gw)
  obtain cmds where cmds: "gw_cmds gw = gw_cmds (cs_gw cs) @ cmds" "\<forall>c\<in>set cmds. gw_cmd_ok new c"
    using RequestHandler_cmds [OF request(4)] request(2) by blast
  show ?thesis
    using ok cmds request login_first_observe_request gw_cmd_ok_mono content_ok_mono by (auto simp: cluster_ok_def)
next
  case (server ev' sid be)
  have be: "tables_ok (cs_be cs sid) \<and> \<not> be_lck (cs_be cs sid)" "content_ok obs (cs_be cs sid)" "login_first obs"
    using ok by (simp_all add: cluster_ok_def)
  have "content_ok (obs @ new) be"
  proof (rule content_ok_be_step [OF _ content_ok_mono [OF be(2)] server(5)])
    show "\<exists>uid. v = to_string (unat uid) \<and> Obs_Login uid \<in> set (obs @ new)"
      if "ev' = Be_Work sv" "sv_get sv (''token:'' @ token) = Some v" for sv token v
      using token_answer [OF ok _ that(2)] server(4) that(1) by auto
    show "entry_ok (obs @ new) msg"
      if "ev' = Be_Queue stms" "(''stream:server:'' @ sid, items) \<in> set stms" "Some msg \<in> set items" for stms items msg
      using entry_answer [OF ok _ that(2,3)] server(4) that(1) unfolding entry_ok_def set_append by blast
  qed (use be server(2) in auto)
  moreover have "tables_ok be \<and> \<not> be_lck be" using tables_ok_be_step [OF be(1) server(5)] .
  moreover have "login_first (obs @ new)" using login_first_observe_server [OF be(3) _ be(2)] be(1) server(2) by simp
  ultimately show ?thesis
    using ok server(3) gw_cmd_ok_mono(1) content_ok_mono by (auto simp: cluster_ok_def)
next
  case (restart sid)
  let ?be = "Backend_new\<lparr>be_cmds := be_cmds (cs_be cs sid)\<rparr>"
  have "tables_ok ?be \<and> \<not> be_lck ?be"
    by (simp add: tables_ok_def tbl_ok_def Backend_new_def SessionManager_new_def ids_of_def ids_live_def)
  moreover have "content_ok obs ?be" using ok by (simp add: cluster_ok_def content_ok_def Backend_new_def)
  ultimately show ?thesis using ok restart by (auto simp: cluster_ok_def)
qed

lemma cluster_ok_run: "cluster_run e fill obs cs \<Longrightarrow> cluster_ok obs cs"
proof (induction rule: cluster_run.induct)
  case (start gw)
  have "tables_ok Backend_new \<and> \<not> be_lck Backend_new \<and> content_ok [] Backend_new"
    by (simp add: tables_ok_def tbl_ok_def Backend_new_def SessionManager_new_def ids_of_def ids_live_def content_ok_def)
  then show ?case using start by (simp add: cluster_ok_def login_first_def)
next
  case (step obs cs ev new cs')
  then show ?case by (intro cluster_ok_step)
qed

text \<open>The events of one server, as a part of a history.\<close>

lemma server_run:
  assumes "cluster_run e fill obs cs" and "run_steps (be_step (e sid) fill sid) evs (cs_be cs sid) = Inr (outs, be)"
    and "\<And>ev. ev \<in> set evs \<Longrightarrow> \<forall>stms. ev \<noteq> Be_Queue stms"
    and "\<And>sv k v. Be_Work sv \<in> set evs \<Longrightarrow> sv_get sv k = Some v \<Longrightarrow> stored cs k v"
  shows "\<exists>new. cluster_run e fill (obs @ new) (cs\<lparr>cs_be := (cs_be cs)(sid := be)\<rparr>)"
  using assms
proof (induction evs arbitrary: obs cs outs)
  case Nil
  then have "cs\<lparr>cs_be := (cs_be cs)(sid := be)\<rparr> = cs" by (cases cs) auto
  then show ?case using Nil.prems(1) by (metis append_Nil2)
next
  case (Cons ev evs)
  obtain be1 outs1 where run: "be_step (e sid) fill sid ev (cs_be cs sid) = Inr ((), be1)"
      "run_steps (be_step (e sid) fill sid) evs be1 = Inr (outs1, be)"
    using Cons.prems(2) by auto
  let ?cs = "cs\<lparr>cs_be := (cs_be cs)(sid := be1)\<rparr>"
  have "redis_answers cs ev" using Cons.prems(3) [of ev] Cons.prems(4) by (auto simp: redis_answers_def split: be_event.splits)
  then have "cluster_run e fill (obs @ observe_server (e sid) ev (cs_be cs sid)) ?cs"
    using run(1) Cons.prems(1) by (blast intro: cluster_run.step cluster_step.server)
  then have "\<exists>new. cluster_run e fill ((obs @ observe_server (e sid) ev (cs_be cs sid)) @ new) (?cs\<lparr>cs_be := (cs_be ?cs)(sid := be)\<rparr>)"
  proof (rule Cons.IH)
    show "run_steps (be_step (e sid) fill sid) evs (cs_be ?cs sid) = Inr (outs1, be)" using run(2) by simp
    show "stored ?cs k v" if "Be_Work sv \<in> set evs" "sv_get sv k = Some v" for sv k v
      using Cons.prems(4) [of sv k v] that by (simp add: stored_def)
  qed (use Cons.prems(3) in simp)
  moreover have "?cs\<lparr>cs_be := (cs_be ?cs)(sid := be)\<rparr> = cs\<lparr>cs_be := (cs_be cs)(sid := be)\<rparr>" by simp
  ultimately show ?case by (metis append_assoc)
qed

section \<open>Properties\<close>

text \<open>
  C3: no one speaks in the name of another. Take any history of the gateway and the servers, with clients
  that send what they like. When a chat message is being written to a connection, then that connection is
  verified as a user who logged in with their password; the message was handed in earlier, for this user
  and with this text, by the user it names as the sender; and the gateway had checked the password of the
  sender before that. The message may have gone from one server to another through Redis, and servers may
  have been started again in between.
\<close>

theorem chat_is_authentic:
  assumes "cluster_run e fill obs cs" and "be_ses (cs_be cs sid) p = Some s" and "bs \<in> set (ses_writes s)"
    and "show_frame bs = Inr (Shown_Chat sender words)"
  shows "ses_verified s \<and> Obs_Login (ses_user_id s) \<in> set obs \<and>
    (\<exists>before after. obs = before @ Obs_Chat sender (ses_user_id s) words # after \<and> Obs_Login sender \<in> set before)"
proof -
  have ok: "cluster_ok obs cs" using assms(1) by (rule cluster_ok_run)
  then have "ses_ok obs s" using assms(2) by (auto simp: cluster_ok_def content_ok_def)
  then have "ses_verified s" "Obs_Login (ses_user_id s) \<in> set obs" "Obs_Chat sender (ses_user_id s) words \<in> set obs"
    using assms(3,4) by (auto simp: ses_ok_def frames_of_def frame_ok_def)
  moreover from this(3) obtain before after where "obs = before @ Obs_Chat sender (ses_user_id s) words # after"
    by (meson split_list)
  moreover from this ok have "Obs_Login sender \<in> set before" unfolding cluster_ok_def login_first_def by blast
  ultimately show ?thesis by blast
qed

text \<open>
  User 7 logs in at the gateway, presents the token to server \<open>s1\<close> and sends a message to user 7.
\<close>

lemma ex_history_login:
  "\<exists>gw. cluster_run (\<lambda>_. Little_Endian) (\<lambda>_. 0) [Obs_Login 7] \<lparr>cs_gw = gw, cs_be = (\<lambda>_. Backend_new)\<rparr> \<and>
    Gw_Setex ''token:ab-_'' 50 (to_string (unat (7 :: u64))) \<in> set (gw_cmds gw)"
proof -
  have sv: "gs_rpc (ex_gw_services ex_hash None) = (True, ''10.0.0.1:1235'')" "gs_redis (ex_gw_services ex_hash None)"
    by (simp_all add: ex_gw_services_def)
  let ?cs = "\<lparr>cs_gw = ex_gateway, cs_be = (\<lambda>_. Backend_new)\<rparr>"
  have "RequestHandler (ex_gw_services ex_hash None) ex_login ex_gateway = LoginLogic (ex_gw_services ex_hash None) ex_login ex_gateway"
    by (simp add: RequestHandler_def PostHandler_def ex_login_def)
  then obtain resp gw where r: "RequestHandler (ex_gw_services ex_hash None) ex_login ex_gateway = (Some (Inr resp), gw)"
      "rs_status resp = 200" "last (gw_cmds gw) = Gw_Setex ''token:ab-_'' 50 (to_string (unat (7 :: u64)))" "gw_cmds gw \<noteq> []"
    unfolding ex_LoginLogic login_verified_cases [OF sv]
    by (simp add: ex_gw_services_def respond_def json_response_def Let_def TokenGenerator_def gw_issue_def RegisterUserToken_def)
  have "Verify ex_crypto ''pw'' ex_hash = Inr True"
    unfolding ex_hash_def by (subst Verify_HashPassword [OF ex_crypto_ok]) (simp_all add: default_iter_def ex_crypto_def)
  then have "observe_request (ex_gw_services ex_hash None) ex_login ex_gateway = [Obs_Login 7]"
    using r(1,2) by (simp add: observe_request_def login_of_def ex_login_def ex_gw_services_def)
  moreover have "cluster_run (\<lambda>_. Little_Endian) (\<lambda>_. 0) [] ?cs" by (rule cluster_run.start) (simp add: ex_gateway_def)
  ultimately have "cluster_run (\<lambda>_. Little_Endian) (\<lambda>_. 0) [Obs_Login 7] (?cs\<lparr>cs_gw := gw\<rparr>)"
    using cluster_run.step [OF _ cluster_step.request [of _ _ ?cs]] r(1) by fastforce
  then show ?thesis using r(3,4) last_in_set by fastforce
qed

lemma ex_accept: "be_step e (\<lambda>_. 0) sid (Be_Accept 3) Backend_new = Inr ((), ex_accepting)"
  by (simp add: be_step_def accept_session_def be_set_mgr_def AddTempSession_def call_session_def ex_accepting_def ex_new_def
      Backend_new_def SessionManager_new_def Start_def ReceiveHead_def Session_new_def)

lemma ex_verified:
  "\<exists>be s. run_steps (be_step Little_Endian (\<lambda>_. 0) ''s1'')
      [Be_Accept 3, Be_Read 3 (Read_Done (take 8 (frame TAG_VERIFY [120]))), Be_Read 3 (Read_Done (drop 8 (frame TAG_VERIFY [120]))),
       Be_Work ex_token_services] Backend_new = Inr ([(), (), (), ()], be) \<and>
    be_ses be 3 = Some s \<and> ses_verified s \<and> ses_user_id s = 7 \<and> mgr_sess (be_mgr be) 7 = Some 3 \<and>
    ses_send_q s = [] \<and> recv_sim s (Some []) \<and> tables_ok be \<and> \<not> be_lck be \<and> be_running be \<and> be_q be = []"
proof -
  have new: "ex_new = Start (Session_new (\<lambda>_. 0) True True)" "be_ses ex_accepting 3 = Some ex_new" "\<not> be_lck ex_accepting"
      "be_running ex_accepting" "be_q ex_accepting = []" "mgr_sess (be_mgr ex_accepting) 7 = None"
    by (simp_all add: ex_new_def ex_accepting_def Backend_new_def SessionManager_new_def)
  have "\<exists>be s. run_steps (be_step Little_Endian (\<lambda>_. 0) ''s1'')
      [Be_Read 3 (Read_Done (take 8 (frame TAG_VERIFY [120]))), Be_Read 3 (Read_Done (drop 8 (frame TAG_VERIFY [120]))),
       Be_Work ex_token_services] ex_accepting = Inr ([(), (), ()], be) \<and>
    be_ses be 3 = Some s \<and> ses_verified s \<and> ses_user_id s = 7 \<and> mgr_sess (be_mgr be) 7 = Some 3 \<and>
    ses_writes s = ses_writes ex_new @ [frame TAG_VERIFY_DONE (bytes_of_text welcome_text)] \<and>
    ses_send_q s = [] \<and> recv_sim s (Some []) \<and> tables_ok be \<and> \<not> be_lck be \<and> be_running be \<and> be_q be = []"
    by (rule backend_lets_in [OF ex_accepting_ok new(3,4,5,2), where d = "new_chars (\<lambda>_. 0) 1024" and token = "''ab-_''"])
      (use new(6) recv_sim_Start in \<open>simp_all add: new(1) Start_def ReceiveHead_def Session_new_def MsgNode_new_def
        INITIAL_NODE_SIZE_def MAX_CTX_LEN_def ex_token_services_def ex_services_def new_chars_def drop_map image_constant_conv\<close>)
  then show ?thesis using ex_accept [of Little_Endian "''s1''"] by auto
qed

theorem chat_is_authentic_witness:
  "\<exists>obs cs s. cluster_run (\<lambda>_. Little_Endian) (\<lambda>_. 0) obs cs \<and> be_ses (cs_be cs ''s1'') 3 = Some s \<and>
    chat_frame 7 (bytes_of_text ''hi'') \<in> set (ses_writes s) \<and> ses_verified s \<and> Obs_Login (ses_user_id s) \<in> set obs \<and>
    (\<exists>before after. obs = before @ Obs_Chat 7 (ses_user_id s) ''hi'' # after \<and> Obs_Login 7 \<in> set before)"
proof -
  let ?e = "\<lambda>_ :: string. Little_Endian" and ?fill = "\<lambda>_. 0" and ?f = "frame TAG_CHAT_MSG (be_bytes 8 (7 :: u64) @ bytes_of_text ''hi'')"
  obtain gw where login: "cluster_run ?e ?fill [Obs_Login 7] \<lparr>cs_gw = gw, cs_be = (\<lambda>_. Backend_new)\<rparr>"
      "Gw_Setex ''token:ab-_'' 50 (to_string (unat (7 :: u64))) \<in> set (gw_cmds gw)"
    using ex_history_login by blast
  obtain be s where v: "run_steps (be_step Little_Endian ?fill ''s1'')
      [Be_Accept 3, Be_Read 3 (Read_Done (take 8 (frame TAG_VERIFY [120]))), Be_Read 3 (Read_Done (drop 8 (frame TAG_VERIFY [120]))),
       Be_Work ex_token_services] Backend_new = Inr ([(), (), (), ()], be)"
    "be_ses be 3 = Some s" "ses_verified s" "ses_user_id s = 7" "mgr_sess (be_mgr be) 7 = Some 3"
    "ses_send_q s = []" "recv_sim s (Some [])" "tables_ok be" "\<not> be_lck be" "be_running be" "be_q be = []"
    using ex_verified by blast
  obtain be' s' where c: "run_steps (be_step Little_Endian ?fill ''s1'')
      [Be_Read 3 (Read_Done (take 8 ?f)), Be_Read 3 (Read_Done (drop 8 ?f)), Be_Work ex_token_services] be = Inr ([(), (), ()], be')"
      "be_ses be' 3 = Some s'" "ses_writes s' = ses_writes s @ [chat_frame (ses_user_id s) (bytes_of_text ''hi'')]"
    using backend_relays_chat [OF v(8-11) v(2,3,7) v(5,2,6), of "bytes_of_text ''hi''"] by (fastforce simp: MAX_CTX_LEN_def)
  let ?cs = "\<lparr>cs_gw = gw, cs_be = (\<lambda>_. Backend_new)\<rparr>"
  have stored: "stored ?cs k v" if "sv_get ex_token_services k = Some v" for k v
    using that login(2) by (auto simp: stored_def ex_token_services_def split: if_splits)
  obtain evs where evs: "run_steps (be_step Little_Endian ?fill ''s1'') evs Backend_new = Inr (replicate 7 (), be')"
      "\<And>ev. ev \<in> set evs \<Longrightarrow> \<forall>stms. ev \<noteq> Be_Queue stms" "\<And>sv. Be_Work sv \<in> set evs \<Longrightarrow> sv = ex_token_services"
  proof
    show "run_steps (be_step Little_Endian ?fill ''s1'')
        ([Be_Accept 3, Be_Read 3 (Read_Done (take 8 (frame TAG_VERIFY [120]))), Be_Read 3 (Read_Done (drop 8 (frame TAG_VERIFY [120]))),
          Be_Work ex_token_services] @
         [Be_Read 3 (Read_Done (take 8 ?f)), Be_Read 3 (Read_Done (drop 8 ?f)), Be_Work ex_token_services]) Backend_new =
        Inr (replicate 7 (), be')"
      unfolding run_steps_append v(1) using c(1) by (simp add: numeral_eq_Suc)
  qed auto
  have "\<exists>new. cluster_run ?e ?fill ([Obs_Login 7] @ new) (?cs\<lparr>cs_be := (cs_be ?cs)(''s1'' := be')\<rparr>)"
    by (rule server_run [OF login(1), where evs = evs and outs = "replicate 7 ()"]) (use evs stored in auto)
  then obtain new where run: "cluster_run ?e ?fill ([Obs_Login 7] @ new) (?cs\<lparr>cs_be := (cs_be ?cs)(''s1'' := be')\<rparr>)" by blast
  have s': "be_ses (cs_be (?cs\<lparr>cs_be := (cs_be ?cs)(''s1'' := be')\<rparr>) ''s1'') 3 = Some s'" using c(2) by simp
  have w: "chat_frame 7 (bytes_of_text ''hi'') \<in> set (ses_writes s')" using c(3) v(4) by simp
  show ?thesis using run s' w chat_is_authentic [OF run s' w show_chat_frame] by blast
qed

end
