(* ===== verification/Deployment.thy ===== *)
theory Deployment
  imports Gateway_Node Lifecycle Client
begin

text \<open>
  The three server programs with the constants of their \<open>main\<close> functions: \<open>src/status/status_main.cpp\<close>,
  \<open>src/http/gateway_main.cpp\<close> with \<open>DBConfigure\<close> of \<open>src/include/http/gateway_class.hpp\<close>, and
  \<open>src/server/server_main.cpp\<close>. The constructor of the Redis library is the argument \<open>connect\<close>, a function of
  the options. The lemmas show that what the other theories assume of the deployment holds of these
  constants: the programs use one database, and the gateway and the backends dial the port the status
  server listens on.
\<close>

section \<open>Options\<close>

text \<open>The socket timeout is in milliseconds, the lifetime of a connection in minutes.\<close>

record redis_options =
  ro_host :: string
  ro_port :: int
  ro_password :: string
  ro_db :: int
  ro_socket_timeout :: nat

record pool_options =
  po_size :: nat
  po_connection_lifetime :: nat

record db_configure =
  df_mysql_addr :: string
  df_mysql_port :: u32
  df_username :: string
  df_password :: string
  df_db_name :: string

text \<open>The default arguments are empty strings and zero.\<close>

definition DBConfigure_new :: db_configure where
  "DBConfigure_new = \<lparr>df_mysql_addr = '''', df_mysql_port = 0, df_username = '''', df_password = '''', df_db_name = ''''\<rparr>"

section \<open>The programs\<close>

definition STATUS_ADDR :: string where
  "STATUS_ADDR = ''0.0.0.0:3000''"

definition status_redis_opt :: redis_options where
  "status_redis_opt =
    \<lparr>ro_host = ''192.168.56.101'', ro_port = 6379, ro_password = ''sword'', ro_db = 0, ro_socket_timeout = 200\<rparr>"

definition status_pool_opt :: pool_options where
  "status_pool_opt = \<lparr>po_size = 3, po_connection_lifetime = 10\<rparr>"

definition status_main ::
  "(redis_options \<Rightarrow> pool_options \<Rightarrow> nat result) \<Rightarrow> (string \<Rightarrow> bool) \<Rightarrow> int result \<times> status_node" where
  "status_main connect can_listen =
    (let (ret, n) = RunStatusServer (connect status_redis_opt status_pool_opt) (can_listen STATUS_ADDR) status_node_new
     in (bindR ret (\<lambda>_. Inr 0), n))"

definition gateway_db :: db_configure where
  "gateway_db = DBConfigure_new\<lparr>df_username := ''lance'', df_password := ''123456'', df_db_name := ''chat'',
    df_mysql_addr := ''192.168.56.101'', df_mysql_port := 3306\<rparr>"

definition gateway_port :: u16 where
  "gateway_port = 1234"

definition gateway_status_ep :: string where
  "gateway_status_ep = ''192.168.56.101:3000''"

definition gateway_redis_opt :: redis_options where
  "gateway_redis_opt =
    \<lparr>ro_host = ''192.168.56.101'', ro_port = 6379, ro_password = ''sword'', ro_db = 0, ro_socket_timeout = 200\<rparr>"

definition gateway_pool_opt :: pool_options where
  "gateway_pool_opt = \<lparr>po_size = 3, po_connection_lifetime = 10\<rparr>"

text \<open>The outcomes of the acceptor depend on the port, those of the database connections on its options.\<close>

definition gateway_program ::
  "(redis_options \<Rightarrow> pool_options \<Rightarrow> nat result) \<Rightarrow> (string list \<Rightarrow> string result) \<Rightarrow>
    (u16 \<Rightarrow> string option \<times> string option \<times> string option \<times> string option) \<Rightarrow> (db_configure \<Rightarrow> nat \<Rightarrow> conn_outcome) \<Rightarrow> http_node result" where
  "gateway_program connect load acceptor mysql =
    (let (e_open, e_reuse, e_bind, e_listen) = acceptor gateway_port
     in gateway_main (connect gateway_redis_opt gateway_pool_opt) load e_open e_reuse e_bind e_listen (mysql gateway_db))"

definition server_status_rpc_addr :: string where
  "server_status_rpc_addr = ''192.168.56.101:3000''"

definition server_redis_opt :: redis_options where
  "server_redis_opt =
    \<lparr>ro_host = ''192.168.56.101'', ro_port = 6379, ro_password = ''sword'', ro_db = 0, ro_socket_timeout = 3000\<rparr>"

definition server_pool_opt :: pool_options where
  "server_pool_opt = \<lparr>po_size = 3, po_connection_lifetime = 10\<rparr>"

definition server_program ::
  "nat \<Rightarrow> nat \<Rightarrow> (redis_options \<Rightarrow> pool_options \<Rightarrow> nat result) \<Rightarrow> unit result \<Rightarrow> string list \<Rightarrow> int result" where
  "server_program p q connect mq argv = server_main p q (connect server_redis_opt server_pool_opt) mq argv"

section \<open>Lemmas\<close>

text \<open>
  One database: the options differ in the socket timeout only, so a library that picks the server, the
  credentials and the database by the other options gives the three programs the same one.
\<close>

lemma programs_share_redis:
  assumes "\<And>o1 o2. ro_host o1 = ro_host o2 \<Longrightarrow> ro_port o1 = ro_port o2 \<Longrightarrow> ro_db o1 = ro_db o2 \<Longrightarrow> database o1 = database o2"
  shows "database gateway_redis_opt = database server_redis_opt" "database status_redis_opt = database server_redis_opt"
  by (rule assms; simp add: gateway_redis_opt_def server_redis_opt_def status_redis_opt_def)+

text \<open>The port that is dialled is the port that is listened on.\<close>

lemma status_port_agrees:
  "map_option snd (split_addr gateway_status_ep) = map_option snd (split_addr STATUS_ADDR)"
  "map_option snd (split_addr server_status_rpc_addr) = map_option snd (split_addr STATUS_ADDR)"
  "map_option snd (split_addr STATUS_ADDR) = Some ''3000''"
  by (simp_all add: split_addr_def find_char_def gateway_status_ep_def server_status_rpc_addr_def STATUS_ADDR_def)

text \<open>
  The programs can run on one host: they listen on different ports. The variant of the command line with an
  id and a host, however, advertises the port of the status server as that of the backend.
\<close>

lemma backend_advertises_status_port:
  assumes "server_args [prog, sid, host] = Inr (Some cf)" and "CHR '':'' \<notin> set host"
  shows "map_option snd (split_addr (cf_addr cf)) = map_option snd (split_addr STATUS_ADDR)" "cf_port cf = 1235"
proof -
  have "cf_addr cf = host @ '':3000''" "cf_port cf = 1235" using assms(1) by (auto simp: server_args_def)
  moreover have "find_char CHR '':'' 0 (host @ '':3000'') = Some (length host)"
    using find_char_append [OF assms(2)] by simp
  ultimately show "map_option snd (split_addr (cf_addr cf)) = map_option snd (split_addr STATUS_ADDR)" "cf_port cf = 1235"
    unfolding status_port_agrees(3) by (simp_all add: split_addr_def)
qed

text \<open>
  An exception of the Redis library while it starts leaves \<open>main\<close> of the gateway and of the status server.
\<close>

lemma start_without_redis:
  assumes "\<And>opt pool. connect opt pool = Inl (Runtime_Error msg)"
  shows "fst (status_main connect can_listen) = Inl (Runtime_Error msg)"
    and "gateway_program connect load acceptor mysql = Inl (Runtime_Error msg)"
  using assms
  by (simp_all add: status_main_def RunStatusServer_def status_node_new_def gateway_program_def gateway_main_def Initialize_def
      ConnectTo_def Let_def split: prod.splits)

end
