(* ===== verification/Spec2Isabelle.thy ===== *)
theory Spec2Isabelle
  imports Prelude Simulation Cpp_Text Field_Op Msg_Node Min_Heap Load_Balancer Status_Server Session Timer Server_Redis Backend
    Security Db_Pool Snowflake Gateway Server_Node Client Io_Pool Connections Gateway_Node Client_Program Lifecycle Cluster
    Deployment
begin

text \<open>
  \<^bold>\<open>A verification of the chatroom\<close>

  \<^bold>\<open>The program.\<close> A chatroom of four programs in C++. The \<^emph>\<open>status server\<close> (\<open>src/status\<close>) keeps the backends that
  are alive with their loads in an indexed heap, answers which one has the least load over gRPC, and uploads the
  list to Redis. The \<^emph>\<open>gateway\<close> (\<open>src/http\<close>) answers HTTP requests: it registers users in MySQL, checks
  passwords, asks the status server for a backend and puts a token for the user into Redis. The
  \<^emph>\<open>backends\<close> (\<open>src/server\<close>) hold the connections of the clients: they check the token, pass chat messages to
  connections of their own or through a Redis stream to another backend, close the connection of a user
  who logs in again, and report their load. The \<^emph>\<open>client\<close> (\<open>src/client\<close>) is a terminal program.

  \<^bold>\<open>How the code is modelled.\<close> A class is a record, a member function a definition of the same name on that record
  (with a prefix where names would clash: \<open>cl_\<close> for the client, \<open>gw_\<close> for the gateway, \<open>on_\<close> and \<open>up_\<close> for the two
  uploaders, \<open>hc_\<close> for an HTTP connection). Integers have their width and wrap; memory blocks are byte lists
  whose fresh contents are an argument (\<open>fill\<close>); objects that are shared live at addresses. A call gives
  \<open>Inr\<close> with its value and the new state or \<open>Inl\<close> with a fault: an exception, undefined behaviour, a thread that locks
  a mutex it holds, or \<open>std::terminate\<close>. Threads and completion handlers are events of a step function on the
  state of the program (\<open>be_step\<close>, \<open>cm_step\<close>, \<open>gn_step\<close>, \<open>pool_step\<close>, \<open>status_call\<close>, \<open>send_step\<close>, \<open>ct_step\<close>), so
  that a theorem on all sequences of events covers all interleavings at this grain; where a
  critical section ends inside a function the function is cut there (\<open>Send_node\<close> and \<open>QueueSend\<close>, the phases of the
  status uploader, of the pool of database connections and of the writing thread of the client).

  \<^bold>\<open>The theories.\<close>

  \<^item> \<open>Prelude\<close>, \<open>Simulation\<close>, \<open>Cpp_Text\<close>: machine types, faults and buffers; the locales \<open>refinement\<close> (a step function
    implements a specification on all admissible sequences of operations) and \<open>run_invariant\<close> (a predicate
    every step keeps holds after every run), which the components interpret; number conversions of the
    C++ library.
  \<^item> \<open>Field_Op\<close> (\<open>utils/field_op.hpp\<close>), \<open>Msg_Node\<close> (\<open>common/msgnode.hpp\<close>): network byte order on either kind of host, and
    the frame of tag, length and content in a growing buffer. Lemmas: both hosts write big endian, frames are
    read back, the recorded size is that of the buffer.
  \<^item> \<open>Min_Heap\<close>, \<open>Load_Balancer\<close> (\<open>status/load_balancer.hpp\<close>, \<open>status/load_balancer.cpp\<close>): the heap with its
    index over the locale \<open>heap_order\<close>, and the table of servers. Lemmas: the operations keep order and index up to
    the stale entries that the code leaves, the query answers a least loaded live server, and registering
    the id of a stale entry again writes out of bounds.
  \<^item> \<open>Status_Server\<close> (\<open>status/status_service_impl.hpp\<close>, \<open>status/status_uploader.cpp\<close>): the handlers of the service
    refine a map of servers; the uploading thread publishes the live servers and ends when it is stopped.
  \<^item> \<open>Session\<close> (\<open>server/session.cpp\<close>): a connection of a backend. Receiving refines a splitter of the byte stream
    into frames, sending refines a queue, and two writes can be outstanding at once.
  \<^item> \<open>Timer\<close> (\<open>common/timer.cpp\<close>), \<open>Server_Redis\<close> (\<open>server/redis/server_redis.cpp\<close>, \<open>server/online_status_upload.hpp\<close>): timed
    tasks and their manager; the requests of a backend to Redis as values.
  \<^item> \<open>Backend\<close> (\<open>session_manager.cpp\<close>, \<open>msg_handler.cpp\<close>, \<open>mq_handler.cpp\<close>, \<open>server_class.cpp\<close> in \<open>server\<close>): tables, worker,
    receiver of the streams and acceptor over one state with its mutexes. Lemmas: the tables agree with the sessions
    after every run, what a verification and a chat message do on each branch, where the worker locks itself out.
  \<^item> \<open>Security\<close>, \<open>Db_Pool\<close>, \<open>Snowflake\<close> (\<open>http/dbm\<close>, \<open>utils/snowflake_id.hpp\<close>): stored hashes, the pool of database
    connections with its condition variable, the generator of ids. Lemmas: the stored hash accepts its password, every
    connection has one owner, a lost wake-up, ids increase while the clock does not go back.
  \<^item> \<open>Gateway\<close>, \<open>Gateway_Node\<close> (\<open>http/req_handler.cpp\<close>, \<open>http/http_server.cpp\<close>, \<open>http/redis/gateway_redis.cpp\<close>,
    \<open>http/gateway_class.cpp\<close>): requests, connections and the program around them. Lemmas: a token needs the
    password, every connection is answered in order, a failure of Redis ends the program.
  \<^item> \<open>Server_Node\<close>, \<open>Lifecycle\<close>, \<open>Deployment\<close> (\<open>server/status_reporter.cpp\<close>, \<open>server/server_class.hpp\<close>,
    \<open>status/status_class.cpp\<close> and the \<open>main\<close> functions): command line, reports, construction and
    destruction, and the constants of the three servers.
  \<^item> \<open>Io_Pool\<close>, \<open>Connections\<close> (\<open>server/io_context_pool.cpp\<close>, \<open>server/io_thread_pool.cpp\<close>, \<open>common/redis\<close>, the RPC clients):
    pools of I/O threads, the owner of a Redis object, the lock on a Redis key.
  \<^item> \<open>Client\<close>, \<open>Client_Program\<close> (\<open>client/client_class.cpp\<close>, \<open>client/client_main.cpp\<close>): login, receiving,
    sending and the commands, and \<open>main\<close> with its threads. Lemmas: the terminal shows the frames of the stream,
    the login ends, the first frame written is the verification, closing can be missed by the writing thread.
  \<^item> \<open>Cluster\<close>: the gateway and any number of backends over one Redis as an inductive step relation, with restarts of
    the backends. By induction over the histories: no chat message reaches a connection that its sender did not
    hand in for that user, and no one speaks before they logged in with their password.
  \<^item> This theory: properties across programs, from a typed line to the other terminal, on the same server (C1) and
    on another (C2), from a login to the welcome of a backend, a second login that takes over, and from the
    command line of a backend to the endpoint a client connects to.

  \<^bold>\<open>Parameters.\<close> Code that is not in the repository is an argument, with what is used of it as a hypothesis: Redis
  (\<open>sv_get\<close>, \<open>sv_hget\<close>, \<open>gs_hget\<close>, whether it answers; commands are collected in the order they are issued), MySQL
  (\<open>mysql\<close>), gRPC (\<open>link\<close>, \<open>gs_rpc\<close>), the JSON library (\<open>sv_json\<close>, \<open>gs_json\<close>, \<open>parse\<close>, \<open>write\<close>), OpenSSL (\<open>crypto\<close>),
  clocks, allocators, iteration orders of hash tables, the random bytes of tokens, and the outcome of every
  read and write on a socket. Every theorem with such hypotheses has a witness with concrete functions.

  \<^bold>\<open>Bounds and loops.\<close> There is no fuel. Loops that end by themselves are functions with a termination proof: the
  sifting loops of the heap by the slot, the query of the balancer by the length of the heap, the retries
  of a login by the attempts left, the commands of the client by the input left, the wait for a
  connection by the first one made. Loops that wait for the environment take its actions as a list (readings of the
  clock, events of a thread, reads of a stream), and not returning is a value (\<open>None\<close>, \<open>Menu_Spins\<close>, a phase).
  The heap theorems ask for loads below \<open>2 ^ 31\<close>, since the comparison hint of the code is signed, and frames
  that are built ask for contents below \<open>2 ^ 32 - 16\<close>, since sizes are 32 bit; both limits are those of the code.

  \<^bold>\<open>Not modelled.\<close>

  \<^item> Log calls (\<open>log/log_manager.hpp\<close>) and the text of prompts: they do not change the state.
  \<^item> \<open>Singleton\<close> and \<open>Noncopyable\<close> (\<open>utils/util_class.hpp\<close>): templates without state.
  \<^item> The code gRPC generates from the interface file, the event loop and the strands of boost.asio, and the connection
    pools of the client libraries: they are not in the repository. A strand is taken to run its handlers one at a time.
  \<^item> Expiry of keys in Redis: that a key is gone is one of the answers a query may give.
  \<^item> Data races below the grain of the events, such as two threads at the pointer of one connection: where
    such an access was found it is in the lemmas (\<open>two_writes_outstanding\<close>, \<open>stub_made_twice\<close>), a general account
    would need a memory model.
  \<^item> Several gateways: \<open>Cluster\<close> has one. Its requests are single steps, although the commands of two of them can
    interleave; the invariant is on each command by itself.
\<close>

section \<open>A chat message from one terminal to the other\<close>

text \<open>
  C1: a message typed at one client appears on the terminal of the other with the id of its sender. The
  command becomes a frame on the socket of the first client; the backend, on reading that frame,
  writes another one to the connection of the addressee; and the client there, on reading it, shows
  the user id the sender was verified under and the text that was typed. The hosts of the three
  programs may differ in their byte order.
\<close>

theorem chat_reaches_the_other_terminal:
  fixes whom :: u64
  assumes alice: "cl_running ca" "cl_send_q ca = []"
    and typed: "CHR '' '' \<notin> set text" "text \<noteq> []" "length text + 8 \<le> unat MAX_CTX_LEN"
    and be: "tables_ok be" "\<not> be_lck be" "be_running be" "be_q be = []"
    and s: "be_ses be p = Some s" "ses_verified s" "recv_sim s (Some [])"
    and t: "mgr_sess (be_mgr be) whom = Some q" "be_ses be q = Some t" "ses_send_q t = []"
    and bob: "client_sim cb (Some [])"
  shows "\<exists>f g ca1 outs1 ca2 be' t' cb'.
    client_line ea filla (send_line (to_string (unat whom)) text) ca = Inr (True, ca1) \<and>
    run_steps worker_step [False] ca1 = Inr (outs1, ca2) \<and> cl_written ca2 = cl_written ca @ [f] \<and>
    run_steps (be_step e fill server_id) [Be_Read p (Read_Done (take 8 f)), Be_Read p (Read_Done (drop 8 f)), Be_Work sv] be =
      Inr ([(), (), ()], be') \<and>
    be_ses be' q = Some t' \<and> ses_writes t' = ses_writes t @ [g] \<and>
    run_steps (client_recv_step eb fillb) [take 8 g, drop 8 g] cb = Inr ([[], [Shown_Chat (ses_user_id s) text]], cb')"
proof -
  let ?f = "frame TAG_CHAT_MSG (be_bytes 8 whom @ bytes_of_text text)"
    and ?g = "chat_frame (ses_user_id s) (bytes_of_text text)"
  have small: "length text + 16 < 2 ^ 32" using typed(3) by (simp add: MAX_CTX_LEN_def)
  have len: "length (bytes_of_text text) + 8 \<le> unat MAX_CTX_LEN"
    "length (be_bytes 8 (ses_user_id s) @ bytes_of_text text) \<le> unat MAX_CTX_LEN" using typed(3) by simp_all
  obtain ca1 outs1 ca2 where c: "client_line ea filla (send_line (to_string (unat whom)) text) ca = Inr (True, ca1)"
      "run_steps worker_step [False] ca1 = Inr (outs1, ca2)" "cl_written ca2 = cl_written ca @ [?f]"
    using client_writes_chat [OF alice(1) _ typed(1,2) small, of ea filla whom] alice(2) by auto
  obtain be' t' where b: "run_steps (be_step e fill server_id)
        [Be_Read p (Read_Done (take 8 ?f)), Be_Read p (Read_Done (drop 8 ?f)), Be_Work sv] be = Inr ([(), (), ()], be')"
      "be_ses be' q = Some t'" "ses_writes t' = ses_writes t @ [?g]"
    using backend_relays_chat [OF be s t len(1), of e fill server_id sv] by blast
  obtain cb' where "run_steps (client_recv_step eb fillb) [take 8 ?g, drop 8 ?g] cb = Inr ([[], [Shown_Chat (ses_user_id s) text]], cb')"
    using client_shows_frame [OF bob len(2), of TAG_CHAT_MSG_TOCLI "Shown_Chat (ses_user_id s) text" eb fillb]
      show_chat_frame [of "ses_user_id s" "text"] unfolding chat_frame_def by blast
  with c b show ?thesis by blast
qed

text \<open>The server with the three connections, now waiting for frames.\<close>

definition ex_waiting :: backend where
  "ex_waiting = (ex_server [])\<lparr>be_ses := [1 \<mapsto> Start (ex_session True 7), 2 \<mapsto> Start (ex_session True 9), 3 \<mapsto> Start (ex_session False 0)]\<rparr>"

lemma ex_waiting_ok: "tables_ok ex_waiting" "recv_sim (Start (ex_session v uid)) (Some [])"
proof -
  have "ids_of ex_waiting = ids_of (ex_server [])"
    by (auto simp: ids_of_def ex_waiting_def Start_def)
  then show "tables_ok ex_waiting" using ex_server_ok [of "[]"] by (simp add: tables_ok_def ex_waiting_def)
  show "recv_sim (Start (ex_session v uid)) (Some [])"
    using recv_sim_Start [of "\<lambda>_. 0" True] by (simp add: recv_sim_def Start_def ReceiveHead_def ex_session_def)
qed

theorem chat_reaches_the_other_terminal_witness:
  "\<exists>f g ca1 outs1 ca2 be' t' cb'.
    client_line Little_Endian (\<lambda>_. 0) (send_line (to_string (unat (9 :: u64))) ''hi'') (cl_Start (AsyncClient_new (\<lambda>_. 0))) = Inr (True, ca1) \<and>
    run_steps worker_step [False] ca1 = Inr (outs1, ca2) \<and> cl_written ca2 = cl_written (cl_Start (AsyncClient_new (\<lambda>_. 0))) @ [f] \<and>
    run_steps (be_step Big_Endian (\<lambda>_. 0) ''s1'') [Be_Read 1 (Read_Done (take 8 f)), Be_Read 1 (Read_Done (drop 8 f)), Be_Work ex_services] ex_waiting =
      Inr ([(), (), ()], be') \<and>
    be_ses be' 2 = Some t' \<and> ses_writes t' = ses_writes (Start (ex_session True 9)) @ [g] \<and>
    run_steps (client_recv_step Little_Endian (\<lambda>_. 0)) [take 8 g, drop 8 g] (cl_Start (AsyncClient_new (\<lambda>_. 0))) =
      Inr ([[], [Shown_Chat (ses_user_id (Start (ex_session True 7))) ''hi'']], cb')"
proof (rule chat_reaches_the_other_terminal)
  show "client_sim (cl_Start (AsyncClient_new (\<lambda>_. 0))) (Some [])" by (rule client_sim_Start)
  show "tables_ok ex_waiting" "recv_sim (Start (ex_session True 7)) (Some [])" by (rule ex_waiting_ok)+
qed (simp_all add: ex_waiting_def Start_def ReceiveHead_def MAX_CTX_LEN_def cl_Start_def Receiver_def ConnectedHandler_def
    AsyncClient_new_def cl_ReceiveHead_def cl_ReceiveContent_def)

text \<open>
  C2: a message also appears on the terminal of an addressee who is connected to another server. The server of the
  sender writes nothing to a connection of its own: it adds one entry, with the two ids and the text, to
  the stream of the server that the status of the addressee names. When that server reads the entry from its
  stream it writes the frame to the connection of the addressee, whose client shows the id of the sender and
  the text. The hosts of the four programs may differ in their byte order.
\<close>

theorem chat_reaches_another_server:
  fixes whom :: u64
  assumes alice: "cl_running ca" "cl_send_q ca = []"
    and typed: "CHR '' '' \<notin> set text" "text \<noteq> []" "length text + 8 \<le> unat MAX_CTX_LEN"
    and near: "tables_ok be" "\<not> be_lck be" "be_running be" "be_q be = []"
    and s: "be_ses be p = Some s" "ses_verified s" "recv_sim s (Some [])"
    and away: "mgr_sess (be_mgr be) whom = None" "sv_hget sv (status_key whom) ''server_id'' = Some sid" "sv_read sv" "sv_exec sv"
    and far: "tables_ok be2" "mgr_sess (be_mgr be2) whom = Some q" "be_ses be2 q = Some t" "ses_send_q t = []"
    and bob: "client_sim cb (Some [])"
  shows "\<exists>f entry g ca1 outs1 ca2 be' be2' t' cb'.
    client_line ea filla (send_line (to_string (unat whom)) text) ca = Inr (True, ca1) \<and>
    run_steps worker_step [False] ca1 = Inr (outs1, ca2) \<and> cl_written ca2 = cl_written ca @ [f] \<and>
    run_steps (be_step e fill server_id) [Be_Read p (Read_Done (take 8 f)), Be_Read p (Read_Done (drop 8 f)), Be_Work sv] be =
      Inr ([(), (), ()], be') \<and>
    be_cmds be' = be_cmds be @ [Cmd_Xadd (''stream:server:'' @ sid) entry 1000] \<and>
    be_step e2 fill2 sid (Be_Queue [(''stream:server:'' @ sid, [Some entry])]) be2 = Inr ((), be2') \<and>
    be_ses be2' q = Some t' \<and> ses_writes t' = ses_writes t @ [g] \<and>
    run_steps (client_recv_step eb fillb) [take 8 g, drop 8 g] cb = Inr ([[], [Shown_Chat (ses_user_id s) text]], cb')"
proof -
  let ?f = "frame TAG_CHAT_MSG (be_bytes 8 whom @ bytes_of_text text)"
    and ?g = "chat_frame (ses_user_id s) (bytes_of_text text)"
    and ?entry = "chat_attrs (ses_user_id s) whom (bytes_of_text text)"
  have small: "length text + 16 < 2 ^ 32" "length (bytes_of_text text) + 16 < 2 ^ 32"
    using typed(3) by (simp_all add: MAX_CTX_LEN_def)
  have len: "length (bytes_of_text text) + 8 \<le> unat MAX_CTX_LEN"
    "length (be_bytes 8 (ses_user_id s) @ bytes_of_text text) \<le> unat MAX_CTX_LEN" using typed(3) by simp_all
  obtain ca1 outs1 ca2 where c: "client_line ea filla (send_line (to_string (unat whom)) text) ca = Inr (True, ca1)"
      "run_steps worker_step [False] ca1 = Inr (outs1, ca2)" "cl_written ca2 = cl_written ca @ [?f]"
    using client_writes_chat [OF alice(1) _ typed(1,2) small(1), of ea filla whom] alice(2) by auto
  obtain be' where b: "run_steps (be_step e fill server_id)
        [Be_Read p (Read_Done (take 8 ?f)), Be_Read p (Read_Done (drop 8 ?f)), Be_Work sv] be = Inr ([(), (), ()], be')"
      "be_cmds be' = be_cmds be @ [Cmd_Xadd (''stream:server:'' @ sid) ?entry 1000]"
    using backend_forwards_chat [OF near s away len(1), of e fill server_id] by blast
  obtain be2' t' where d: "be_step e2 fill2 sid (Be_Queue [(''stream:server:'' @ sid, [Some ?entry])]) be2 = Inr ((), be2')"
      "be_ses be2' q = Some t'" "ses_writes t' = ses_writes t @ [?g]"
    using backend_delivers_entry [OF far small(2), of e2 fill2 sid "ses_user_id s"] by blast
  obtain cb' where "run_steps (client_recv_step eb fillb) [take 8 ?g, drop 8 ?g] cb = Inr ([[], [Shown_Chat (ses_user_id s) text]], cb')"
    using client_shows_frame [OF bob len(2), of TAG_CHAT_MSG_TOCLI "Shown_Chat (ses_user_id s) text" eb fillb]
      show_chat_frame [of "ses_user_id s" "text"] unfolding chat_frame_def by blast
  with c b d show ?thesis by blast
qed

text \<open>Another server, with user 11 connected.\<close>

definition ex_other :: backend where
  "ex_other = ex_waiting\<lparr>be_ses := [4 \<mapsto> Start (ex_session True 11)],
    be_mgr := (be_mgr ex_waiting)\<lparr>mgr_sess := [11 \<mapsto> 4], mgr_temp := {}\<rparr>\<rparr>"

lemma ex_other_ok: "tables_ok ex_other"
  by (auto simp: tables_ok_def tbl_ok_def ids_live_def ids_of_def ex_other_def ex_waiting_def Start_def ReceiveHead_def
      ex_session_def Session_new_def ident_def split: if_splits)

theorem chat_reaches_another_server_witness:
  "\<exists>f entry g ca1 outs1 ca2 be' be2' t' cb'.
    client_line Little_Endian (\<lambda>_. 0) (send_line (to_string (unat (11 :: u64))) ''hi'') (cl_Start (AsyncClient_new (\<lambda>_. 0))) = Inr (True, ca1) \<and>
    run_steps worker_step [False] ca1 = Inr (outs1, ca2) \<and> cl_written ca2 = cl_written (cl_Start (AsyncClient_new (\<lambda>_. 0))) @ [f] \<and>
    run_steps (be_step Big_Endian (\<lambda>_. 0) ''s1'') [Be_Read 1 (Read_Done (take 8 f)), Be_Read 1 (Read_Done (drop 8 f)), Be_Work ex_services] ex_waiting =
      Inr ([(), (), ()], be') \<and>
    be_cmds be' = be_cmds ex_waiting @ [Cmd_Xadd (''stream:server:'' @ ''s2'') entry 1000] \<and>
    be_step Little_Endian (\<lambda>_. 0) ''s2'' (Be_Queue [(''stream:server:'' @ ''s2'', [Some entry])]) ex_other = Inr ((), be2') \<and>
    be_ses be2' 4 = Some t' \<and> ses_writes t' = ses_writes (Start (ex_session True 11)) @ [g] \<and>
    run_steps (client_recv_step Little_Endian (\<lambda>_. 0)) [take 8 g, drop 8 g] (cl_Start (AsyncClient_new (\<lambda>_. 0))) =
      Inr ([[], [Shown_Chat (ses_user_id (Start (ex_session True 7))) ''hi'']], cb')"
proof (rule chat_reaches_another_server)
  show "client_sim (cl_Start (AsyncClient_new (\<lambda>_. 0))) (Some [])" by (rule client_sim_Start)
  show "tables_ok ex_waiting" "recv_sim (Start (ex_session True 7)) (Some [])" by (rule ex_waiting_ok)+
  show "tables_ok ex_other" by (rule ex_other_ok)
qed (simp_all add: ex_other_def ex_waiting_def ex_services_def Start_def ReceiveHead_def MAX_CTX_LEN_def cl_Start_def Receiver_def
    ConnectedHandler_def AsyncClient_new_def cl_ReceiveHead_def cl_ReceiveContent_def)

section \<open>From the login to the welcome\<close>

lemma cl_Verify_writes:
  assumes "cl_running cl" and "cl_send_q cl = []"
    and len: "0 < length (verify_doc write uid token)" "length (verify_doc write uid token) + 8 < 2 ^ 32"
  shows "\<exists>cl1 cl2. cl_Verify e fill write uid token cl = Inr cl1 \<and> WorkerFn False cl1 = Inr cl2 \<and>
    cl_written cl2 = cl_written cl @ [frame TAG_VERIFY (verify_doc write uid token)] \<and>
    (\<forall>a. client_sim cl2 a = client_sim cl a)"
proof -
  obtain n where "cl_Verify e fill write uid token cl = Inr (cl\<lparr>cl_send_q := [n]\<rparr>)" "sendable n"
      "node_wire n = frame TAG_VERIFY (verify_doc write uid token)"
    using cl_Verify_queues [OF len, of e fill cl] assms(2) by auto
  then show ?thesis
    using assms(1) WorkerFn_writes [of "cl\<lparr>cl_send_q := [n]\<rparr>" n "[]"] by (auto simp: client_sim_def recv_sim_def split: option.splits)
qed

lemma show_welcome:
  "length (bytes_of_text welcome_text) \<le> unat MAX_CTX_LEN"
  "show_frame (frame TAG_VERIFY_DONE (bytes_of_text welcome_text)) = Inr (Shown_Verify welcome_text)"
proof -
  show "length (bytes_of_text welcome_text) \<le> unat MAX_CTX_LEN" by (simp add: welcome_text_def MAX_CTX_LEN_def)
  have "drop 8 (frame TAG_VERIFY_DONE (bytes_of_text welcome_text)) = bytes_of_text welcome_text" by (simp add: frame_def)
  then show "show_frame (frame TAG_VERIFY_DONE (bytes_of_text welcome_text)) = Inr (Shown_Verify welcome_text)"
    using frame_fields(1) [of TAG_VERIFY_DONE "bytes_of_text welcome_text" "[]"] by (simp add: show_frame_def Let_def)
qed

text \<open>
  C4: the token of a login opens the backend. When the gateway answers a login with status 200, the
  client gets the token, the address and the user id from the answer, and the verification it then
  sends to a backend makes that backend verify and register the connection under this user id; the
  client shows the welcome it gets back. The hypotheses on the libraries say that the JSON library reads
  back what it writes, whatever follows the document, and that Redis answers and keeps the token it was given; the
  memory behind the message must hold a zero byte.
\<close>

theorem login_opens_the_backend:
  fixes uid :: u64
  assumes login: "LoginLogic gsv req gw = (Some (Inr resp), gw')" "rs_status resp = 200"
      "rs_body resp = Body_Json [(''result'', J_Str ''ok''), (''token'', J_Str token), (''server_addr'', J_Str addr), (''uid'', J_Uint uid)]"
    and json: "parse (rs_body resp) = Login_Fields token addr uid" "\<And>rest. sv_json sv (verify_doc write uid token @ rest) = Fields token uid"
    and redis: "\<And>k ttl v. last (gw_cmds gw') = Gw_Setex k ttl v \<Longrightarrow> sv_get sv k = Some v" "sv_read sv" "sv_exec sv"
    and cl: "cl_running cl" "cl_send_q cl = []" "client_sim cl (Some [])"
    and msg: "0 < length (verify_doc write uid token)" "length (verify_doc write uid token) \<le> unat MAX_CTX_LEN" "0 \<notin> set (verify_doc write uid token)"
    and be: "tables_ok be" "\<not> be_lck be" "be_running be" "be_q be = []"
    and s: "be_ses be p = Some s" "\<not> ses_verified s" "ses_send_q s = []" "recv_sim s (Some [])"
    and d: "node_data (ses_recv s) = Some d" "8 + length (verify_doc write uid token) \<le> length d" "0 \<in> set (drop (8 + length (verify_doc write uid token)) d)"
    and new: "mgr_sess (be_mgr be) uid = None"
  shows "Login parse (\<lambda>_. Some resp) = Inr (Some (token, addr, uid), []) \<and>
    (\<exists>f g cl1 cl2 be' s' cl3. cl_Verify e fill write uid token cl = Inr cl1 \<and> WorkerFn False cl1 = Inr cl2 \<and>
      cl_written cl2 = cl_written cl @ [f] \<and>
      run_steps (be_step e fill server_id) [Be_Read p (Read_Done (take 8 f)), Be_Read p (Read_Done (drop 8 f)), Be_Work sv] be =
        Inr ([(), (), ()], be') \<and>
      be_ses be' p = Some s' \<and> ses_verified s' \<and> ses_user_id s' = uid \<and> mgr_sess (be_mgr be') uid = Some p \<and>
      ses_writes s' = ses_writes s @ [g] \<and>
      run_steps (client_recv_step e fill) [take 8 g, drop 8 g] cl2 = Inr ([[], [Shown_Verify welcome_text]], cl3))"
proof
  show "Login parse (\<lambda>_. Some resp) = Inr (Some (token, addr, uid), [])"
    using login(2) json(1) by (simp add: Login_def login_body_def)
  have "last (gw_cmds gw') = Gw_Setex (''token:'' @ token) 50 (to_string (unat uid))"
    using LoginLogic_200 [OF login(1,2)] login(3) by auto
  then have token: "sv_get sv (''token:'' @ token) = Some (to_string (unat uid))" by (rule redis(1))
  let ?f = "frame TAG_VERIFY (verify_doc write uid token)" and ?g = "frame TAG_VERIFY_DONE (bytes_of_text welcome_text)"
  obtain cl1 cl2 where c: "cl_Verify e fill write uid token cl = Inr cl1" "WorkerFn False cl1 = Inr cl2" "cl_written cl2 = cl_written cl @ [?f]" "client_sim cl2 (Some [])"
    using cl_Verify_writes [OF cl(1,2), of "write" uid token e fill] msg(1,2) cl(3) by (auto simp: MAX_CTX_LEN_def)
  obtain be' s' where b: "run_steps (be_step e fill server_id) [Be_Read p (Read_Done (take 8 ?f)), Be_Read p (Read_Done (drop 8 ?f)), Be_Work sv] be =
        Inr ([(), (), ()], be')" "be_ses be' p = Some s'" "ses_verified s'" "ses_user_id s' = uid" "mgr_sess (be_mgr be') uid = Some p"
      "ses_writes s' = ses_writes s @ [?g]"
    using backend_lets_in [OF be s d msg(3,2) json(2) token new redis(2,3), of e fill server_id] by blast
  obtain cl3 where "run_steps (client_recv_step e fill) [take 8 ?g, drop 8 ?g] cl2 = Inr ([[], [Shown_Verify welcome_text]], cl3)"
    using client_shows_frame [OF c(4) show_welcome] by blast
  with c b show "\<exists>f g cl1 cl2 be' s' cl3. cl_Verify e fill write uid token cl = Inr cl1 \<and> WorkerFn False cl1 = Inr cl2 \<and>
      cl_written cl2 = cl_written cl @ [f] \<and>
      run_steps (be_step e fill server_id) [Be_Read p (Read_Done (take 8 f)), Be_Read p (Read_Done (drop 8 f)), Be_Work sv] be =
        Inr ([(), (), ()], be') \<and>
      be_ses be' p = Some s' \<and> ses_verified s' \<and> ses_user_id s' = uid \<and> mgr_sess (be_mgr be') uid = Some p \<and>
      ses_writes s' = ses_writes s @ [g] \<and>
      run_steps (client_recv_step e fill) [take 8 g, drop 8 g] cl2 = Inr ([[], [Shown_Verify welcome_text]], cl3)" by blast
qed

theorem login_opens_the_backend_witness:
  "\<exists>resp. Login (\<lambda>_. Login_Fields ''ab-_'' ''10.0.0.1:1235'' 7) (\<lambda>_. Some resp) = Inr (Some (''ab-_'', ''10.0.0.1:1235'', 7), []) \<and>
    (\<exists>f g cl1 cl2 be' s' cl3. cl_Verify Little_Endian (\<lambda>_. 0) (\<lambda>_. ''x'') 7 ''ab-_'' (cl_Start (AsyncClient_new (\<lambda>_. 0))) = Inr cl1 \<and>
      WorkerFn False cl1 = Inr cl2 \<and> cl_written cl2 = cl_written (cl_Start (AsyncClient_new (\<lambda>_. 0))) @ [f] \<and>
      run_steps (be_step Little_Endian (\<lambda>_. 0) ''s1'')
        [Be_Read 3 (Read_Done (take 8 f)), Be_Read 3 (Read_Done (drop 8 f)), Be_Work ex_token_services] ex_accepting =
        Inr ([(), (), ()], be') \<and>
      be_ses be' 3 = Some s' \<and> ses_verified s' \<and> ses_user_id s' = 7 \<and> mgr_sess (be_mgr be') 7 = Some 3 \<and>
      ses_writes s' = ses_writes ex_new @ [g] \<and>
      run_steps (client_recv_step Little_Endian (\<lambda>_. 0)) [take 8 g, drop 8 g] cl2 = Inr ([[], [Shown_Verify welcome_text]], cl3))"
proof -
  have sv: "gs_rpc (ex_gw_services ex_hash None) = (True, ''10.0.0.1:1235'')" "gs_redis (ex_gw_services ex_hash None)"
    by (simp_all add: ex_gw_services_def)
  obtain resp gw' where r: "LoginLogic (ex_gw_services ex_hash None) ex_login ex_gateway = (Some (Inr resp), gw')" "rs_status resp = 200"
      "rs_body resp = Body_Json [(''result'', J_Str ''ok''), (''token'', J_Str ''ab-_''), (''server_addr'', J_Str ''10.0.0.1:1235''), (''uid'', J_Uint 7)]"
      "last (gw_cmds gw') = Gw_Setex ''token:ab-_'' 50 (to_string (unat (7 :: u64)))"
    unfolding ex_LoginLogic login_verified_cases [OF sv]
    by (simp add: ex_gw_services_def respond_def json_response_def Let_def TokenGenerator_def gw_issue_def RegisterUserToken_def)
  show ?thesis
    by (rule exI [of _ resp], rule login_opens_the_backend [OF r(1-3), where sv = ex_token_services and d = "new_chars (\<lambda>_. 0) 1024"])
      (simp_all add: r(4) ex_token_services_def ex_services_def verify_doc_def bytes_of_text_def client_sim_Start ex_accepting_ok
        recv_sim_Start ex_new_def MAX_CTX_LEN_def new_chars_def,
       simp_all add: ex_accepting_def ex_new_def Start_def ReceiveHead_def Session_new_def MsgNode_new_def INITIAL_NODE_SIZE_def
        new_chars_def Backend_new_def SessionManager_new_def cl_Start_def Receiver_def ConnectedHandler_def AsyncClient_new_def
        cl_ReceiveHead_def cl_ReceiveContent_def drop_map image_constant_conv)
qed
section \<open>From the command line of a backend to the endpoint of a client\<close>

text \<open>A server that is alone with its load is the answer of the next query.\<close>

lemma unique_minimum:
  assumes spec: "minimal_spec now ((registry lb)(sid \<mapsto> s)) (status, Some resp) m'"
    and s: "\<not> timed_out now s" "\<And>x. x \<in> alive now (registry lb) \<Longrightarrow> si_load s < si_load x"
  shows "fst status = GRPC_OK \<and> sar_server_addr resp = si_addr s"
proof -
  let ?m = "(registry lb)(sid \<mapsto> s)"
  have own: "s \<in> alive now ?m" using s(1) by (auto simp: alive_def intro: ranI [of _ sid])
  then obtain t where t: "fst status = GRPC_OK" "t \<in> alive now ?m" "si_load t \<le> si_load s"
      "resp = \<lparr>sar_ret = 0, sar_server_id = si_id t, sar_server_addr = si_addr t\<rparr>"
    using spec by (auto simp: minimal_spec_def split: if_splits)
  have "t = s"
  proof (rule ccontr)
    assume "t \<noteq> s"
    then have "t \<in> alive now (registry lb)" using t(2) by (auto simp: alive_def ran_def split: if_splits)
    then show False using s(2) t(3) by (simp add: not_less [symmetric])
  qed
  with t show ?thesis by simp
qed

text \<open>The start of a backend and the query the gateway makes afterwards.\<close>

lemma listen_then_query:
  assumes st: "lb_inv (ss_lb st)" "small_loads (ss_lb st)" "lb_mem (ss_lb st) (lk_alloc lk) = None"
      "cf_id cf \<in> dom (registry (ss_lb st)) \<or> cf_id cf \<notin> stale_ids (ss_lb st)"
    and be: "\<not> mgr_lck (be_mgr be)" "small_load (of_nat (card (dom (mgr_sess (be_mgr be)))))" and up: "lk_up lk"
    and now: "now - lk_now lk < ucast SERVER_TIMEOUT"
    and least: "\<And>x. x \<in> alive now (registry (ss_lb st)) \<Longrightarrow> of_nat (card (dom (mgr_sess (be_mgr be)))) < si_load x"
  shows "\<exists>st1 status resp st2. Listen lk (StatusReporter_new cf) be st = Inr (True, st1) \<and>
    CheckMinimalLoadServer (\<lambda>_. now) st1 = Inr ((status, resp), st2) \<and> fst status = GRPC_OK \<and> sar_server_addr resp = cf_addr cf"
proof -
  let ?n = "of_nat (card (dom (mgr_sess (be_mgr be)))) :: u32"
  let ?s = "ServerInfo_new (cf_id cf) (cf_addr cf) ?n (lk_now lk)"
  obtain lb' where lb': "RegisterServerInfo (ss_lb st) (cf_id cf) (cf_addr cf) ?n (lk_now lk) (lk_alloc lk) = Inr (True, lb')"
      "lb_inv lb'" "registry lb' = (registry (ss_lb st))(cf_id cf \<mapsto> ?s)"
    using RegisterServerInfo_ok [OF st(1,2) be(2) st(4,3)] by blast
  let ?st1 = "st\<lparr>ss_lb := lb', ss_up := UpdateNow (ss_up st)\<rparr>"
  have listen: "Listen lk (StatusReporter_new cf) be st = Inr (True, ?st1)"
    using lb'(1) be(1) up
    by (simp add: Listen_def Register_def GetSessionCount_def StatusReporter_new_def ReportServerRegister_def RegisterServer_def)
  obtain status resp st2 where q: "CheckMinimalLoadServer (\<lambda>_. now) ?st1 = Inr ((status, resp), st2)"
      "minimal_spec now (registry lb') (status, Some resp) (registry (ss_lb st2))"
    using CheckMinimalLoadServer_ok [of ?st1 now] lb'(2) by auto
  have "fst status = GRPC_OK \<and> sar_server_addr resp = si_addr ?s"
    using least now q(2) unfolding lb'(3)
    by (intro unique_minimum) (auto simp: ServerInfo_new_def timed_out_def)
  then have "fst status = GRPC_OK" "sar_server_addr resp = cf_addr cf" by (simp_all add: ServerInfo_new_def)
  with listen q(1) show ?thesis by blast
qed

text \<open>
  C6: a login leads the client to the port a backend listens on. A backend that was started with an id, a
  host and a port registers at the status server; when it is then the least loaded one, the gateway
  answers a login with the address the backend gave, and the client makes of it the endpoint with the
  host and the port of the command line.
\<close>

theorem login_leads_to_the_listener:
  assumes args: "server_args [prog, sid, host, port] = Inr (Some cf)" "CHR '':'' \<notin> set host" "valid host" "unat (cf_port cf) < 2 ^ 16"
    and st: "lb_inv (ss_lb st)" "small_loads (ss_lb st)" "lb_mem (ss_lb st) (lk_alloc lk) = None"
      "cf_id cf \<in> dom (registry (ss_lb st)) \<or> cf_id cf \<notin> stale_ids (ss_lb st)"
    and be: "\<not> mgr_lck (be_mgr be)" "small_load (of_nat (card (dom (mgr_sess (be_mgr be)))))" and up: "lk_up lk"
    and now: "now - lk_now lk < ucast SERVER_TIMEOUT"
    and least: "\<And>x. x \<in> alive now (registry (ss_lb st)) \<Longrightarrow> of_nat (card (dom (mgr_sess (be_mgr be)))) < si_load x"
    and rpc: "\<And>status r st1 st2. Listen lk (StatusReporter_new cf) be st = Inr (True, st1) \<Longrightarrow>
      CheckMinimalLoadServer (\<lambda>_. now) st1 = Inr ((status, r), st2) \<Longrightarrow> gs_rpc gsv = (fst status = GRPC_OK, sar_server_addr r)"
    and login: "LoginLogic gsv req gw = (Some (Inr resp), gw')" "rs_status resp = 200"
    and json: "\<And>token addr uid. parse (Body_Json [(''result'', J_Str ''ok''), (''token'', J_Str token),
      (''server_addr'', J_Str addr), (''uid'', J_Uint uid)]) = Login_Fields token addr uid"
  shows "\<exists>token uid. Login parse (\<lambda>_. Some resp) = Inr (Some (token, cf_addr cf, uid), []) \<and>
    client_endpoint valid (cf_addr cf) = Inr (Some (host, ucast (cf_port cf)))"
proof -
  obtain st1 status r st2 where q: "Listen lk (StatusReporter_new cf) be st = Inr (True, st1)"
      "CheckMinimalLoadServer (\<lambda>_. now) st1 = Inr ((status, r), st2)" "fst status = GRPC_OK" "sar_server_addr r = cf_addr cf"
    using listen_then_query [OF st be up now least] by blast
  then have addr: "gs_rpc gsv = (True, cf_addr cf)" using rpc [OF q(1,2)] by simp
  obtain token uid where "rs_body resp = Body_Json [(''result'', J_Str ''ok''), (''token'', J_Str token),
      (''server_addr'', J_Str (cf_addr cf)), (''uid'', J_Uint uid)]"
    using LoginLogic_200 [OF login] addr by auto
  then have "Login parse (\<lambda>_. Some resp) = Inr (Some (token, cf_addr cf, uid), [])"
    using login(2) json by (simp add: Login_def login_body_def)
  moreover have "unat (ucast (cf_port cf) :: u16) = unat (cf_port cf)"
    using args(4) by (simp add: unsigned_ucast_eq take_bit_nat_eq_self)
  then have "cf_addr cf = host @ '':'' @ to_string (unat (ucast (cf_port cf) :: u16))"
    using args(1) by (auto simp: server_args_def Let_def result_simps)
  then have "client_endpoint valid (cf_addr cf) = Inr (Some (host, ucast (cf_port cf)))"
    using client_endpoint_advertised [of host valid "ucast (cf_port cf)"] args(2,3) by simp
  ultimately show ?thesis by blast
qed

definition ex_parse :: "resp_body \<Rightarrow> login_json" where
  "ex_parse body =
    (case body of
       Body_Json [(k1, J_Str result), (k2, J_Str token), (k3, J_Str addr), (k4, J_Uint uid)] \<Rightarrow> Login_Fields token addr uid
     | _ \<Rightarrow> Login_Invalid)"

lemma ex_server_args:
  "server_args [''server'', ''7'', ''10.0.0.1'', ''1235''] = Inr (Some \<lparr>cf_id = 7, cf_addr = ''10.0.0.1:1235'', cf_port = 1235\<rparr>)"
proof -
  have digits: "''7'' = to_string 7" "''1235'' = to_string 1235" by (simp_all add: to_string.simps digit_char_def char_of_def bit_0)
  have "stoul ''7'' = Inr 7" "stoul ''1235'' = Inr 1235"
    unfolding digits using scan_number_to_string [of "[]"] by (simp_all add: stoul_def guardR_def)
  then show ?thesis by (simp add: server_args_def) (simp add: to_string.simps digit_char_def char_of_def bit_0)
qed

theorem login_leads_to_the_listener_witness:
  "\<exists>resp token uid. LoginLogic (ex_gw_services ex_hash None) ex_login ex_gateway = (Some (Inr resp), snd (LoginLogic (ex_gw_services ex_hash None) ex_login ex_gateway)) \<and>
    Login ex_parse (\<lambda>_. Some resp) = Inr (Some (token, ''10.0.0.1:1235'', uid), []) \<and>
    client_endpoint (\<lambda>_. True) ''10.0.0.1:1235'' = Inr (Some (''10.0.0.1'', 1235))"
proof -
  let ?cf = "\<lparr>cf_id = 7, cf_addr = ''10.0.0.1:1235'', cf_port = 1235\<rparr>" and ?lk = "\<lparr>lk_up = True, lk_now = 500, lk_alloc = 9\<rparr>"
  have sv: "gs_rpc (ex_gw_services ex_hash None) = (True, ''10.0.0.1:1235'')" "gs_redis (ex_gw_services ex_hash None)"
    by (simp_all add: ex_gw_services_def)
  obtain resp gw' where r: "LoginLogic (ex_gw_services ex_hash None) ex_login ex_gateway = (Some (Inr resp), gw')" "rs_status resp = 200"
    unfolding ex_LoginLogic login_verified_cases [OF sv]
    by (simp add: ex_gw_services_def respond_def json_response_def Let_def)
  have st: "lb_inv (ss_lb StatusServer_new)" "registry (ss_lb StatusServer_new) = Map.empty" "stale_ids (ss_lb StatusServer_new) = {}"
    using lb_inv_new by (simp_all add: StatusServer_new_def)
  have mem: "lb_mem (ss_lb StatusServer_new) 9 = None" by (simp add: StatusServer_new_def LoadBalancer_new_def)
  have none: "alive 600 (registry (ss_lb StatusServer_new)) = {}" using st(2) by (simp add: alive_def)
  have be: "\<not> mgr_lck (be_mgr Backend_new)" "card (dom (mgr_sess (be_mgr Backend_new))) = 0"
    by (simp_all add: Backend_new_def SessionManager_new_def)
  have q: "\<exists>st1 status rr st2. Listen ?lk (StatusReporter_new ?cf) Backend_new StatusServer_new = Inr (True, st1) \<and>
      CheckMinimalLoadServer (\<lambda>_. 600) st1 = Inr ((status, rr), st2) \<and> fst status = GRPC_OK \<and> sar_server_addr rr = cf_addr ?cf"
    using st mem none be
    by (intro listen_then_query) (auto simp: small_loads_def small_load_def SERVER_TIMEOUT_def)
  have "\<exists>token uid. Login ex_parse (\<lambda>_. Some resp) = Inr (Some (token, cf_addr ?cf, uid), []) \<and>
      client_endpoint (\<lambda>_. True) (cf_addr ?cf) = Inr (Some (''10.0.0.1'', ucast (cf_port ?cf)))"
    by (rule login_leads_to_the_listener [OF ex_server_args _ _ _ st(1) _ _ _ _ _ _ _ _ _ r,
          where lk = ?lk and be = Backend_new and now = 600 and valid = "\<lambda>_. True"])
      (use st mem none be q sv in \<open>auto simp: small_loads_def small_load_def SERVER_TIMEOUT_def ex_parse_def\<close>)
  then show ?thesis using r by auto
qed

section \<open>A login that takes over\<close>

text \<open>
  Documented behaviour of Redis on the hashes, as a function of the commands it has carried out: after a
  \<open>DEL\<close> the fields of the key are gone, until a command sets them again.
\<close>

definition del_clears :: "(backend_cmd list \<Rightarrow> string \<Rightarrow> string \<Rightarrow> string option) \<Rightarrow> bool" where
  "del_clears redis =
    (\<forall>before k after fld. (\<forall>fs ttl. Cmd_Hsetex k fs ttl \<notin> set after) \<longrightarrow> redis (before @ Cmd_Del k # after) k fld = None)"

lemma kick_clears_status:
  assumes "del_clears redis"
  shows "redis (cmds @ kick_cmds uid u) (status_key uid) fld = None"
proof -
  obtain xs ys where "List.insert uid (on_removal u) = xs @ uid # ys" 
    using split_list [of uid "List.insert uid (on_removal u)"] by auto
  then have "cmds @ kick_cmds uid u = (cmds @ map (\<lambda>v. Cmd_Hexpire (status_key v) 30 [''server_id'', ''status'']) (removeAll uid (on_sess u)) @
      map (\<lambda>v. Cmd_Del (status_key v)) xs) @ Cmd_Del (status_key uid) # map (\<lambda>v. Cmd_Del (status_key v)) ys"
    by (simp add: kick_cmds_def)
  moreover have "\<forall>fs ttl. Cmd_Hsetex (status_key uid) fs ttl \<notin> set (map (\<lambda>v. Cmd_Del (status_key v)) ys)" by auto
  ultimately show ?thesis using assms unfolding del_clears_def by metis
qed

lemma ex_db_verifies:
  "DBM_VerifyUserInfo (gs_net (ex_gw_services ex_hash status)) (gs_crypto (ex_gw_services ex_hash status))
      (gs_mysql (ex_gw_services ex_hash status)) ''u'' ''pw'' (gw_dbm ex_gateway) =
    (Some (Inr (GATEWAY_SUCCESS, Some 7)), gw_dbm ex_gateway)"
proof -
  have "Verify ex_crypto ''pw'' ex_hash = Inr True"
    unfolding ex_hash_def by (subst Verify_HashPassword [OF ex_crypto_ok]) (simp_all add: default_iter_def ex_crypto_def)
  then show ?thesis
    by (simp add: ex_gw_services_def DBM_VerifyUserInfo_def with_conn_def ex_gateway_def GetIdleConn_free
        DBConn_VerifyUserInfo_def ReturnIdleConn_def DBM_new_def)
qed

text \<open>
  C5: a user who is still connected can log in again, because the gateway has the old connection closed.
  The first answer is a conflict, and the order the gateway puts into the control stream of the server
  makes that server close the session, unregister the user and delete the status. The request the client
  repeats after one second is then answered with status 200, and the login of the client succeeds with
  the token of that answer.
\<close>

theorem second_login_takes_over:
  assumes json: "gs_json gsv (rq_body req) = Req_Fields username passcode"
    and db: "DBM_VerifyUserInfo (gs_net gsv) (gs_crypto gsv) (gs_mysql gsv) username passcode (gw_dbm gw) =
        (Some (Inr (GATEWAY_SUCCESS, Some uid)), ma)"
      "DBM_VerifyUserInfo (gs_net gsv) (gs_crypto gsv) (gs_mysql gsv) username passcode ma =
        (Some (Inr (GATEWAY_SUCCESS, Some uid)), mb)"
    and gsv: "gs_rpc gsv = (True, addr)" "gs_redis gsv"
    and online: "gs_hget gsv (status_key uid) ''server_id'' = Some server_id" "server_id \<noteq> ''''" "server_id \<noteq> ''unset''"
    and redis: "del_clears redis"
    and be: "tables_ok be" "\<not> be_lck be" "be_running be" "be_q be = []" "sv_exec sv" "\<not> on_in_progress (be_online be)"
    and s: "mgr_sess (be_mgr be) uid = Some p" "be_ses be p = Some s" "\<not> ses_down s"
  shows "\<exists>resp1 gw1 attrs be1 be2 resp2 gw2.
    LoginLogic gsv req gw = (Some (Inr resp1), gw1) \<and> rs_status resp1 = 409 \<and>
    last (gw_cmds gw1) = Gw_Xadd (''stream:serverctl:'' @ server_id) attrs 1000 \<and>
    MQ_round e fill server_id [(''stream:serverctl:'' @ server_id, [Some attrs])] be = Inr be1 \<and>
    mgr_sess (be_mgr be1) uid = None \<and> map_option ses_down (be_ses be1 p) = Some True \<and>
    Worker_turn e fill server_id sv be1 = Inr (Some be2) \<and>
    LoginLogic (gsv\<lparr>gs_hget := redis (be_cmds be2)\<rparr>) req gw1 = (Some (Inr resp2), gw2) \<and> rs_status resp2 = 200 \<and>
    Login parse (\<lambda>k. Some (if k = 0 then resp1 else resp2)) = Inr (login_body parse (rs_body resp2), [1])"
proof -
  let ?attrs = "[(''type'', ''kick''), (''uid'', to_string (unat uid))]"
  obtain be1 be2 where k: "MQ_round e fill server_id [(''stream:serverctl:'' @ server_id, [Some ?attrs])] be = Inr be1"
      "mgr_sess (be_mgr be1) uid = None" "map_option ses_down (be_ses be1 p) = Some True"
      "Worker_turn e fill server_id sv be1 = Inr (Some be2)" "be_cmds be2 = be_cmds be @ kick_cmds uid (be_online be)"
    using kick_run [OF be(1-4) s be(5,6)] by metis
  have "\<exists>resp1 gw1. LoginLogic gsv req gw = (Some (Inr resp1), gw1) \<and> rs_status resp1 = 409 \<and> gw_dbm gw1 = ma \<and>
      last (gw_cmds gw1) = Gw_Xadd (''stream:serverctl:'' @ server_id) ?attrs 1000"
    using online unfolding LoginLogic_verified [OF json db(1)] login_verified_cases [OF gsv]
    by (simp add: Let_def respond_def json_response_def gw_issue_def SendServerKickCmd_def)
  then obtain resp1 gw1 where l1: "LoginLogic gsv req gw = (Some (Inr resp1), gw1)" "rs_status resp1 = 409" "gw_dbm gw1 = ma"
      "last (gw_cmds gw1) = Gw_Xadd (''stream:serverctl:'' @ server_id) ?attrs 1000" by blast
  let ?gsv = "gsv\<lparr>gs_hget := redis (be_cmds be2)\<rparr>"
  have "LoginLogic ?gsv req gw1 = login_verified ?gsv req username uid (gw1\<lparr>gw_dbm := mb\<rparr>)"
    using json db(2) l1(3) by (intro LoginLogic_verified) simp_all
  moreover have "gs_hget ?gsv (status_key uid) ''server_id'' = None"
    using kick_clears_status [OF redis] k(5) by simp
  ultimately have "\<exists>resp2 gw2. LoginLogic ?gsv req gw1 = (Some (Inr resp2), gw2) \<and> rs_status resp2 = 200"
    using gsv login_verified_cases [of ?gsv addr req username uid "gw1\<lparr>gw_dbm := mb\<rparr>"]
    by (simp add: Let_def respond_def json_response_def)
  then obtain resp2 gw2 where l2: "LoginLogic ?gsv req gw1 = (Some (Inr resp2), gw2)" "rs_status resp2 = 200" by blast
  have "Login parse (\<lambda>k. Some (if k = 0 then resp1 else resp2)) = Inr (login_body parse (rs_body resp2), [1])"
    using l1(2) l2(2) by (simp add: Login_def login_retry.simps wait_time_def)
  with l1 k l2 show ?thesis by blast
qed

text \<open>Hashes under the commands, without the expiry.\<close>

fun ex_redis_step :: "(string \<Rightarrow> string \<Rightarrow> string option) \<Rightarrow> backend_cmd \<Rightarrow> string \<Rightarrow> string \<Rightarrow> string option" where
  "ex_redis_step st (Cmd_Hsetex k fs ttl) = st(k := st k ++ map_of fs)"
| "ex_redis_step st (Cmd_Del k) = st(k := Map.empty)"
| "ex_redis_step st _ = st"

definition ex_redis :: "backend_cmd list \<Rightarrow> string \<Rightarrow> string \<Rightarrow> string option" where
  "ex_redis cmds = foldl ex_redis_step (\<lambda>_. Map.empty) cmds"

lemma ex_redis_stays_clear:
  "\<forall>fs ttl. Cmd_Hsetex k fs ttl \<notin> set cmds \<Longrightarrow> st k = Map.empty \<Longrightarrow> foldl ex_redis_step st cmds k = Map.empty"
proof (induction cmds arbitrary: st)
  case (Cons c cmds)
  have "ex_redis_step st c k = Map.empty" using Cons.prems by (cases c) auto
  then show ?case using Cons by simp
qed simp

lemma ex_redis_clears: "del_clears ex_redis"
  unfolding del_clears_def ex_redis_def by (simp add: ex_redis_stays_clear)

text \<open>User 7 is connected to server \<open>s1\<close>.\<close>

theorem second_login_takes_over_witness:
  "\<exists>resp1 gw1 attrs be1 be2 resp2 gw2.
    LoginLogic (ex_gw_services ex_hash (Some ''s1'')) ex_login ex_gateway = (Some (Inr resp1), gw1) \<and> rs_status resp1 = 409 \<and>
    last (gw_cmds gw1) = Gw_Xadd (''stream:serverctl:'' @ ''s1'') attrs 1000 \<and>
    MQ_round Little_Endian (\<lambda>_. 0) ''s1'' [(''stream:serverctl:'' @ ''s1'', [Some attrs])] (ex_server []) = Inr be1 \<and>
    mgr_sess (be_mgr be1) 7 = None \<and> map_option ses_down (be_ses be1 1) = Some True \<and>
    Worker_turn Little_Endian (\<lambda>_. 0) ''s1'' ex_services be1 = Inr (Some be2) \<and>
    LoginLogic ((ex_gw_services ex_hash (Some ''s1''))\<lparr>gs_hget := ex_redis (be_cmds be2)\<rparr>) ex_login gw1 = (Some (Inr resp2), gw2) \<and>
    rs_status resp2 = 200 \<and>
    Login (\<lambda>_. Login_Fields ''ab-_'' ''10.0.0.1:1235'' 7) (\<lambda>k. Some (if k = 0 then resp1 else resp2)) =
      Inr (login_body (\<lambda>_. Login_Fields ''ab-_'' ''10.0.0.1:1235'' 7) (rs_body resp2), [1])"
  by (rule second_login_takes_over [where username = "''u''" and passcode = "''pw''" and addr = "''10.0.0.1:1235''" and
        ma = "gw_dbm ex_gateway" and mb = "gw_dbm ex_gateway" and s = "ex_session True 7"])
    (simp_all add: ex_db_verifies ex_server_ok ex_redis_clears, simp_all add: ex_gw_services_def ex_login_def ex_services_def)

end
